(* ===== verification/Prelude.thy ===== *)
theory Prelude
  imports Complex_Main "HOL-Library.Word" "HOL-Library.Char_ord" "HOL-Library.List_Lexorder"
begin

text \<open>
  Shared vocabulary of the development: the types that stand for Python's values, the
  environment the program reads (clocks and the random source), the text encodings of
  the standard library the program relies on, and a generic locale for invariants of
  machines that are driven by a sequence of inputs.

  \<^item> \<open>byte\<close> and \<open>bytes\<close> are Python's \<open>bytes\<close>; \<open>string\<close> is \<open>str\<close>, restricted to the code
    points below 256.
  \<^item> \<open>seconds\<close> are the values of \<open>time.monotonic()\<close> and of the policy's durations. Every
    binary float is a rational number; the rounding of a float subtraction is not modelled.
  \<^item> \<open>datetime\<close> is a timezone-aware UTC \<open>datetime.datetime\<close>, in microseconds since
    1970-01-01 (the resolution of the Python class).
\<close>

named_theorems world_simps "what an operation leaves unchanged of the environment it reads"
named_theorems handler_defs "definitions of the operations and handlers of the program"

section \<open>Values\<close>

type_synonym byte = "8 word"
type_synonym bytes = "byte list"
type_synonym seconds = rat

datatype exn =
    TypeError string
  | ValueError string
  | AttributeError string
  | KeyError string
  | RuntimeError string
  | LibraryError string

section \<open>Dates\<close>

datatype datetime = UTC (micros: int)

instantiation datetime :: linorder
begin

definition less_eq_datetime :: "datetime \<Rightarrow> datetime \<Rightarrow> bool" where
  "less_eq_datetime a b \<longleftrightarrow> micros a \<le> micros b"

definition less_datetime :: "datetime \<Rightarrow> datetime \<Rightarrow> bool" where
  "less_datetime a b \<longleftrightarrow> micros a < micros b"

instance
  by standard (auto simp: less_eq_datetime_def less_datetime_def datetime.expand)

end

text \<open>\<open>datetime + timedelta\<close>, with the length of the \<open>timedelta\<close> in microseconds.\<close>

definition plus_micros :: "datetime \<Rightarrow> int \<Rightarrow> datetime" where
  "plus_micros t d = UTC (micros t + d)"

definition micros_per_second :: int where
  "micros_per_second = 1000000"

definition micros_per_day :: int where
  "micros_per_day = 86400 * micros_per_second"

lemmas date_simps = less_eq_datetime_def less_datetime_def plus_micros_def
  micros_per_second_def micros_per_day_def

section \<open>The environment\<close>

text \<open>
  What the program reads from outside: the successive readings of \<open>time.monotonic()\<close>, of
  \<open>datetime.now(timezone.utc)\<close> and of \<open>os.urandom\<close>. Reading number \<open>n\<close> is the value of a
  function at \<open>n\<close>, and the record counts the readings made so far. So every call of the
  source is one reading, two calls in one handler may return different times, and
  any amount of time may pass between two requests.
\<close>

record world =
  mono_clock :: "nat \<Rightarrow> seconds"
  mono_reads :: nat
  wall_clock :: "nat \<Rightarrow> datetime"
  wall_reads :: nat
  rand_source :: "nat \<Rightarrow> nat \<Rightarrow> bytes"
  rand_reads :: nat

definition monotonic :: "'a world_scheme \<Rightarrow> seconds \<times> 'a world_scheme" where
  "monotonic w = (mono_clock w (mono_reads w), w\<lparr>mono_reads := Suc (mono_reads w)\<rparr>)"

definition utcnow :: "'a world_scheme \<Rightarrow> datetime \<times> 'a world_scheme" where
  "utcnow w = (wall_clock w (wall_reads w), w\<lparr>wall_reads := Suc (wall_reads w)\<rparr>)"

definition os_urandom :: "nat \<Rightarrow> 'a world_scheme \<Rightarrow> bytes \<times> 'a world_scheme" where
  "os_urandom n w = (rand_source w (rand_reads w) n, w\<lparr>rand_reads := Suc (rand_reads w)\<rparr>)"

text \<open>
  The documented behaviour of the three sources: \<open>time.monotonic()\<close> never goes backwards and
  \<open>os.urandom(n)\<close> returns \<open>n\<close> bytes. It is a hypothesis of the theorems that need it.
\<close>

definition clock_ok :: "'a world_scheme \<Rightarrow> bool" where
  "clock_ok w \<longleftrightarrow> mono (mono_clock w)"

definition urandom_ok :: "'a world_scheme \<Rightarrow> bool" where
  "urandom_ok w \<longleftrightarrow> (\<forall>k n. length (rand_source w k n) = n)"

text \<open>The earliest value a reading made from now on can have.\<close>

definition next_time :: "'a world_scheme \<Rightarrow> seconds" where
  "next_time w = mono_clock w (mono_reads w)"

lemma next_time_le: "clock_ok w \<Longrightarrow> mono_reads w \<le> k \<Longrightarrow> next_time w \<le> mono_clock w k"
  by (simp add: clock_ok_def next_time_def monoD)

section \<open>Numbers as text\<close>

text \<open>
  \<open>str(n)\<close>, \<open>hex(n)\<close> and \<open>int(s, base)\<close>. The parser drops blanks at both ends and takes an optional sign, the
  optional prefix \<open>0x\<close> in base 16, and digits with single underscores between them, or between the prefix and
  the first digit. The limit on the number of decimal digits that newer interpreters impose is left out.
\<close>

definition digit_char :: "nat \<Rightarrow> char" where
  "digit_char d = (if d < 10 then char_of (48 + d) else char_of (87 + d))"

definition digit_val :: "char \<Rightarrow> nat option" where
  "digit_val c =
     (let n = of_char c :: nat in
      if 48 \<le> n \<and> n \<le> 57 then Some (n - 48)
      else if 97 \<le> n \<and> n \<le> 102 then Some (n - 87)
      else if 65 \<le> n \<and> n \<le> 70 then Some (n - 55)
      else None)"

fun to_base :: "nat \<Rightarrow> nat \<Rightarrow> string" where
  "to_base b n =
     (if b < 2 \<or> n < b then [digit_char n] else to_base b (n div b) @ [digit_char (n mod b)])"

declare to_base.simps [simp del]

fun of_base :: "nat \<Rightarrow> nat \<Rightarrow> string \<Rightarrow> nat option" where
  "of_base b acc [] = Some acc"
| "of_base b acc (c # cs) =
     (case digit_val c of
        Some d \<Rightarrow> if d < b then of_base b (acc * b + d) cs else None
      | None \<Rightarrow> None)"

definition str_int :: "int \<Rightarrow> string" where
  "str_int n = (if n < 0 then ''-'' @ to_base 10 (nat (- n)) else to_base 10 (nat n))"

definition hex_int :: "int \<Rightarrow> string" where
  "hex_int n = (if n < 0 then ''-0x'' @ to_base 16 (nat (- n)) else ''0x'' @ to_base 16 (nat n))"

definition parse_nat :: "nat \<Rightarrow> string \<Rightarrow> exn + int" where
  "parse_nat b s =
     (if s = [] \<or> hd s = CHR ''_'' \<or> last s = CHR ''_'' \<or>
         \<not> successively (\<lambda>x y. \<not> (x = CHR ''_'' \<and> y = CHR ''_'')) s
      then Inl (ValueError s)
      else (case of_base b 0 (filter (\<lambda>ch. ch \<noteq> CHR ''_'') s) of
              None \<Rightarrow> Inl (ValueError s)
            | Some n \<Rightarrow> Inr (int n)))"

definition strip_hex_prefix :: "nat \<Rightarrow> string \<Rightarrow> string" where
  "strip_hex_prefix b s =
     (if b = 16 \<and> (take 2 s = ''0x'' \<or> take 2 s = ''0X'')
      then (if take 1 (drop 2 s) = ''_'' then drop 3 s else drop 2 s)
      else s)"

definition int_blank :: "char \<Rightarrow> bool" where
  "int_blank ch \<longleftrightarrow> (let n = of_char ch :: nat in 9 \<le> n \<and> n \<le> 13 \<or> n = 32 \<or> n = 133 \<or> n = 160)"

definition py_int :: "string \<Rightarrow> nat \<Rightarrow> exn + int" where
  "py_int s b =
     (let s = rev (dropWhile int_blank (rev (dropWhile int_blank s))) in
      if take 1 s = ''-'' then map_sum id uminus (parse_nat b (strip_hex_prefix b (drop 1 s)))
      else if take 1 s = ''+'' then parse_nat b (strip_hex_prefix b (drop 1 s))
      else parse_nat b (strip_hex_prefix b s))"

lemmas py_int_eval = py_int_def parse_nat_def strip_hex_prefix_def int_blank_def digit_val_def

lemma digit_val_char [simp]: "d < 16 \<Longrightarrow> digit_val (digit_char d) = Some d"
  by (auto simp: digit_val_def digit_char_def Let_def of_char_of)

lemma to_base_neq_Nil [simp]: "to_base b n \<noteq> []"
  by (subst to_base.simps) simp

lemma of_base_to_base:
  assumes "2 \<le> b" "b \<le> 16"
  shows "\<exists>k. of_base b acc (to_base b n @ cs) = of_base b (acc * b ^ k + n) cs"
proof (induction n arbitrary: cs rule: less_induct)
  case (less n)
  show ?case
  proof (cases "n < b")
    case True
    then have "of_base b acc (to_base b n @ cs) = of_base b (acc * b ^ 1 + n) cs"
      using assms by (simp add: to_base.simps [of b n])
    then show ?thesis by blast
  next
    case False
    with assms have "n div b < n" by simp
    from less.IH [OF this, of "digit_char (n mod b) # cs"] obtain k where
      k: "of_base b acc (to_base b (n div b) @ digit_char (n mod b) # cs)
          = of_base b (acc * b ^ k + n div b) (digit_char (n mod b) # cs)" by blast
    have lt: "n mod b < b" "n mod b < 16"
      using assms by (auto intro: less_le_trans [OF mod_less_divisor])
    have "(acc * b ^ k + n div b) * b + n mod b = acc * b ^ Suc k + n"
      by (simp add: algebra_simps)
    with k lt False assms have "of_base b acc (to_base b n @ cs)
        = of_base b (acc * b ^ Suc k + n) cs"
      by (simp add: to_base.simps [of b n])
    then show ?thesis by blast
  qed
qed

lemma of_base_to_base_0: "2 \<le> b \<Longrightarrow> b \<le> 16 \<Longrightarrow> of_base b 0 (to_base b n) = Some n"
  using of_base_to_base [of b 0 n "[]"] by auto

lemma to_base_inj: "2 \<le> b \<Longrightarrow> b \<le> 16 \<Longrightarrow> to_base b m = to_base b n \<longleftrightarrow> m = n"
  by (metis of_base_to_base_0 option.inject)

section \<open>Bytes and text\<close>

text \<open>\<open>str.encode()\<close>: UTF-8. A code point from 128 to 255 takes two bytes.\<close>

definition encode_char :: "char \<Rightarrow> bytes" where
  "encode_char c =
     (let n = of_char c :: nat in
      if n < 128 then [word_of_nat n]
      else [word_of_nat (192 + n div 64), word_of_nat (128 + n mod 64)])"

definition encode :: "string \<Rightarrow> bytes" where
  "encode s = concat (map encode_char s)"

text \<open>\<open>bytes.hex()\<close> and \<open>hexdigest()\<close>: two lower-case digits per byte.\<close>

definition hex_byte :: "byte \<Rightarrow> string" where
  "hex_byte b = [digit_char (unat b div 16), digit_char (unat b mod 16)]"

definition hex_bytes :: "bytes \<Rightarrow> string" where
  "hex_bytes bs = concat (map hex_byte bs)"

text \<open>\<open>bytes(l)\<close> for a list of integers: each must be in \<open>range(256)\<close>.\<close>

definition py_bytes :: "int list \<Rightarrow> exn + bytes" where
  "py_bytes l =
     (if \<forall>n \<in> set l. 0 \<le> n \<and> n < 256 then Inr (map word_of_int l)
      else Inl (ValueError ''bytes must be in range(0, 256)''))"

text \<open>\<open>list(b)\<close> for \<open>bytes\<close>: the list of the integer values.\<close>

definition list_of_bytes :: "bytes \<Rightarrow> int list" where
  "list_of_bytes bs = map uint bs"

lemma py_bytes_list_of_bytes [simp]: "py_bytes (list_of_bytes bs) = Inr bs"
proof -
  have "\<forall>n \<in> set (list_of_bytes bs). 0 \<le> n \<and> n < 256"
    using uint_lt2p [where 'a = 8] by (auto simp: list_of_bytes_def)
  then show ?thesis by (simp add: py_bytes_def list_of_bytes_def comp_def map_idI)
qed

lemma digit_char_inj: "a < 16 \<Longrightarrow> b < 16 \<Longrightarrow> digit_char a = digit_char b \<longleftrightarrow> a = b"
  by (metis digit_val_char option.inject)

lemma hex_byte_inj: "hex_byte a = hex_byte b \<longleftrightarrow> a = b"
proof -
  have lt: "unat x div 16 < 16" "unat x mod 16 < 16" for x :: byte
    using unsigned_less [of x, where ?'a = nat] by (auto simp: less_mult_imp_div_less)
  have "a = b" if "unat a div 16 = unat b div 16" "unat a mod 16 = unat b mod 16"
    using that by (metis div_mult_mod_eq word_unat_eq_iff)
  then show ?thesis by (auto simp: hex_byte_def digit_char_inj lt)
qed

lemma hex_bytes_inj [simp]: "hex_bytes a = hex_bytes b \<longleftrightarrow> a = b"
proof
  show "a = b" if "hex_bytes a = hex_bytes b"
    using that
  proof (induction a arbitrary: b)
    case Nil
    then show ?case by (cases b) (auto simp: hex_bytes_def hex_byte_def)
  next
    case (Cons x a)
    then obtain y b' where b: "b = y # b'"
      by (cases b) (auto simp: hex_bytes_def hex_byte_def)
    with Cons.prems have "hex_byte x = hex_byte y \<and> hex_bytes a = hex_bytes b'"
      by (auto simp: hex_bytes_def hex_byte_def)
    with Cons.IH b show ?case by (simp add: hex_byte_inj)
  qed
qed simp

lemma of_char_less_256: "(of_char c :: nat) < 256"
  by (metis of_char_mod_256 mod_less_divisor zero_less_numeral)

lemma byte_of_nat_inj: "a < 256 \<Longrightarrow> b < 256 \<Longrightarrow> (word_of_nat a :: byte) = word_of_nat b \<longleftrightarrow> a = b"
  by (simp add: word_of_nat_eq_iff take_bit_nat_eq_self)

definition char_codes :: "char \<Rightarrow> nat list" where
  "char_codes c =
     (let n = of_char c :: nat in if n < 128 then [n] else [192 + n div 64, 128 + n mod 64])"

lemma encode_char_codes: "encode_char c = map word_of_nat (char_codes c)"
  by (simp add: encode_char_def char_codes_def Let_def)

lemma char_codes_bound: "n \<in> set (char_codes c) \<Longrightarrow> n < 256"
proof -
  have "of_char c div 64 < (64 :: nat)" using of_char_less_256 [of c] by linarith
  moreover have "of_char c mod 64 < (64 :: nat)" by simp
  ultimately show "n \<in> set (char_codes c) \<Longrightarrow> n < 256"
    by (auto simp: char_codes_def Let_def simp del: mod_less_divisor split: if_splits)
qed

lemma char_codes_append_inj: "char_codes c @ r = char_codes d @ s \<longleftrightarrow> c = d \<and> r = s"
proof
  assume eq: "char_codes c @ r = char_codes d @ s"
  have "(of_char c :: nat) = of_char d"
  proof (cases "(of_char c :: nat) < 128 \<or> (of_char d :: nat) < 128")
    case True
    with eq show ?thesis by (auto simp: char_codes_def Let_def split: if_splits)
  next
    case False
    with eq have "(of_char c :: nat) div 64 = of_char d div 64"
      and "(of_char c :: nat) mod 64 = of_char d mod 64"
      by (simp_all add: char_codes_def Let_def)
    then show ?thesis by (metis div_mult_mod_eq)
  qed
  then have "c = d" by (metis char_of_char)
  with eq show "c = d \<and> r = s" by simp
qed simp

lemma encode_codes: "encode s = map word_of_nat (concat (map char_codes s))"
  by (induction s) (simp_all add: encode_def encode_char_codes)

lemma concat_char_codes_inj: "concat (map char_codes s) = concat (map char_codes t) \<longleftrightarrow> s = t"
proof
  show "s = t" if "concat (map char_codes s) = concat (map char_codes t)"
    using that
  proof (induction s arbitrary: t)
    case Nil
    then show ?case by (cases t) (auto simp: char_codes_def Let_def split: if_splits)
  next
    case (Cons c s)
    then obtain d t' where t: "t = d # t'"
      by (cases t) (auto simp: char_codes_def Let_def split: if_splits)
    with Cons.prems have "c = d \<and> concat (map char_codes s) = concat (map char_codes t')"
      by (simp add: char_codes_append_inj)
    with Cons.IH t show ?case by simp
  qed
qed simp

lemma encode_inj [simp]: "encode s = encode t \<longleftrightarrow> s = t"
proof -
  have "inj_on (word_of_nat :: nat \<Rightarrow> byte) {..<256}"
    by (auto simp: inj_on_def byte_of_nat_inj)
  moreover have "set (concat (map char_codes u)) \<subseteq> {..<256}" for u
    using char_codes_bound by auto
  then have "set (concat (map char_codes s)) \<union> set (concat (map char_codes t)) \<subseteq> {..<256}" by blast
  ultimately have "inj_on (word_of_nat :: nat \<Rightarrow> byte)
      (set (concat (map char_codes s)) \<union> set (concat (map char_codes t)))"
    by (rule inj_on_subset)
  then show ?thesis
    by (simp add: encode_codes inj_on_map_eq_map concat_char_codes_inj)
qed

section \<open>Machines driven by inputs\<close>

text \<open>
  A component that serves requests is a function from an input and a state to an output and
  the next state; \<open>run\<close> serves a list of inputs in order. An interface that is kept by every
  step is kept by every run; the locales below are interpreted for the components.
\<close>

fun run :: "('i \<Rightarrow> 's \<Rightarrow> 'o \<times> 's) \<Rightarrow> 'i list \<Rightarrow> 's \<Rightarrow> 'o list \<times> 's" where
  "run step [] s = ([], s)"
| "run step (i # is) s =
     (let (r, s') = step i s; (rs, s'') = run step is s' in (r # rs, s''))"

lemma snd_run_Cons [simp]: "snd (run step (i # is) s) = snd (run step is (snd (step i s)))"
  by (simp add: case_prod_unfold Let_def)

lemma fst_run_Cons [simp]:
  "fst (run step (i # is) s) = fst (step i s) # fst (run step is (snd (step i s)))"
  by (simp add: case_prod_unfold Let_def)

declare run.simps(2) [simp del]

lemma snd_run_append [simp]: "snd (run step (is @ js) s) = snd (run step js (snd (run step is s)))"
  by (induction "is" arbitrary: s) auto

lemma fst_run_append [simp]:
  "fst (run step (is @ js) s) = fst (run step is s) @ fst (run step js (snd (run step is s)))"
  by (induction "is" arbitrary: s) auto

lemma length_run [simp]: "length (fst (run step is s)) = length is"
  by (induction "is" arbitrary: s) auto

locale invariant_machine =
  fixes step :: "'i \<Rightarrow> 's \<Rightarrow> 'o \<times> 's"
    and inv :: "'s \<Rightarrow> bool"
  assumes inv_step: "inv s \<Longrightarrow> inv (snd (step i s))"
begin

lemma inv_run: "inv s \<Longrightarrow> inv (snd (run step is s))"
  by (induction "is" arbitrary: s) (simp_all add: inv_step)

end

locale monotone_machine = invariant_machine +
  fixes rel :: "'s \<Rightarrow> 's \<Rightarrow> bool"
  assumes rel_refl: "rel s s"
    and rel_trans: "rel s t \<Longrightarrow> rel t u \<Longrightarrow> rel s u"
    and rel_step: "inv s \<Longrightarrow> rel s (snd (step i s))"
begin

lemma rel_run: "inv s \<Longrightarrow> rel s (snd (run step is s))"
proof (induction "is" arbitrary: s)
  case (Cons i "is")
  have "rel s (snd (step i s))" using Cons.prems by (rule rel_step)
  moreover have "rel (snd (step i s)) (snd (run step is (snd (step i s))))"
    using Cons by (simp add: inv_step)
  ultimately show ?case by (simp add: rel_trans)
qed (simp add: rel_refl)

end

end
