(* ===== verification/Coroutine.thy ===== *)
theory Coroutine
  imports Prelude
begin

text \<open>
  Coroutines of \<open>asyncio\<close>. A coroutine runs without interruption from one suspension to the next, and at an
  \<open>await\<close> that suspends, the event loop may run any other task before it continues. So a coroutine is a tree: it
  has ended with a value or an exception, or it does something atomic and goes on in a way that depends
  on the state, or it is suspended. The state is shared by all tasks.
\<close>

section \<open>The type and its operations\<close>

datatype ('s, 'a) coroutine =
    Ended "exn + 'a"
  | Atomic "'s \<Rightarrow> 's" "'s \<Rightarrow> ('s, 'a) coroutine"
  | Await "('s, 'a) coroutine"

text \<open>A synchronous operation, and one that first looks at the state.\<close>

definition atomic :: "('s \<Rightarrow> (exn + 'a) \<times> 's) \<Rightarrow> ('s, 'a) coroutine" where
  "atomic h = Atomic (\<lambda>s. snd (h s)) (\<lambda>s. Ended (fst (h s)))"

definition with_state :: "('s \<Rightarrow> ('s, 'a) coroutine) \<Rightarrow> ('s, 'a) coroutine" where
  "with_state k = Atomic (\<lambda>s. s) k"

definition return_act :: "'a \<Rightarrow> ('s, 'a) coroutine" where
  "return_act x = Ended (Inr x)"

definition raise_act :: "exn \<Rightarrow> ('s, 'a) coroutine" where
  "raise_act ex = Ended (Inl ex)"

definition of_sum :: "exn + 'a \<Rightarrow> ('s, 'a) coroutine" where
  "of_sum r = Ended r"

definition get_act :: "('s \<Rightarrow> 'a) \<Rightarrow> ('s, 'a) coroutine" where
  "get_act f = atomic (\<lambda>s. (Inr (f s), s))"

definition modify_act :: "('s \<Rightarrow> 's) \<Rightarrow> ('s, unit) coroutine" where
  "modify_act f = atomic (\<lambda>s. (Inr (), f s))"

primrec bind_act :: "('s, 'a) coroutine \<Rightarrow> ('a \<Rightarrow> ('s, 'b) coroutine) \<Rightarrow> ('s, 'b) coroutine" where
  "bind_act (Ended r) k = (case r of Inl ex \<Rightarrow> Ended (Inl ex) | Inr x \<Rightarrow> k x)"
| "bind_act (Atomic f g) k = Atomic f (\<lambda>s. bind_act (g s) k)"
| "bind_act (Await m) k = Await (bind_act m k)"

fun seq_act :: "('s, unit) coroutine list \<Rightarrow> ('s, unit) coroutine" where
  "seq_act [] = return_act ()"
| "seq_act (m # ms) = bind_act m (\<lambda>_. seq_act ms)"

text \<open>\<open>try: ... except Exception: log\<close>.\<close>

primrec attempt_act :: "('s, unit) coroutine \<Rightarrow> ('s, unit) coroutine" where
  "attempt_act (Ended r) = Ended (Inr ())"
| "attempt_act (Atomic f g) = Atomic f (\<lambda>s. attempt_act (g s))"
| "attempt_act (Await m) = Await (attempt_act m)"

text \<open>\<open>if b: return\<close> at the head of an operation.\<close>

definition unless_act :: "('s \<Rightarrow> bool) \<Rightarrow> ('s, unit) coroutine \<Rightarrow> ('s, unit) coroutine" where
  "unless_act b m = with_state (\<lambda>s. if b s then return_act () else m)"

section \<open>Running\<close>

text \<open>Alone, without suspension; up to the next suspension; and on from a suspension.\<close>

primrec alone :: "('s, 'a) coroutine \<Rightarrow> 's \<Rightarrow> (exn + 'a) \<times> 's" where
  "alone (Ended r) s = (r, s)"
| "alone (Atomic f g) s = alone (g s) (f s)"
| "alone (Await m) s = alone m s"

primrec until_await :: "('s, 'a) coroutine \<Rightarrow> 's \<Rightarrow> ('s, 'a) coroutine \<times> 's" where
  "until_await (Ended r) s = (Ended r, s)"
| "until_await (Atomic f g) s = until_await (g s) (f s)"
| "until_await (Await m) s = (Await m, s)"

fun resume :: "('s, 'a) coroutine \<Rightarrow> 's \<Rightarrow> ('s, 'a) coroutine \<times> 's" where
  "resume (Await m) s = until_await m s"
| "resume m s = until_await m s"

lemma alone_atomic [simp]: "alone (atomic h) s = h s"
  by (simp add: atomic_def)

lemma alone_with_state [simp]: "alone (with_state k) s = alone (k s) s"
  by (simp add: with_state_def)

lemma alone_values [simp]:
  "alone (return_act x) s = (Inr x, s)" "alone (raise_act ex) s = (Inl ex, s)" "alone (of_sum r) s = (r, s)"
  "alone (get_act g) s = (Inr (g s), s)" "alone (modify_act f) s = (Inr (), f s)"
  by (simp_all add: return_act_def raise_act_def of_sum_def get_act_def modify_act_def)

lemma alone_bind:
  "alone (bind_act m k) s = (case alone m s of (Inl ex, s') \<Rightarrow> (Inl ex, s') | (Inr x, s') \<Rightarrow> alone (k x) s')"
  by (induction m arbitrary: s) (auto split: sum.split)

lemma alone_bind_Inr: "fst (alone m s) = Inr x \<Longrightarrow> alone (bind_act m k) s = alone (k x) (snd (alone m s))"
  by (cases "alone m s") (simp add: alone_bind)

lemma alone_bind_pred:
  "Q (snd (alone m s)) \<Longrightarrow> (\<And>x s'. alone m s = (Inr x, s') \<Longrightarrow> Q (snd (alone (k x) s'))) \<Longrightarrow>
    Q (snd (alone (bind_act m k) s))"
  by (auto simp: alone_bind split: prod.split sum.split)

lemma alone_then: "alone m s = (Inr x, s') \<Longrightarrow> alone (bind_act m k) s = alone (k x) s'"
  by (simp add: alone_bind)

lemma alone_reads:
  "alone (bind_act (get_act f) k') s = alone (k' (f s)) s"
  "alone (bind_act (of_sum (Inr x)) k) s = alone (k x) s"
  by (simp_all add: alone_bind)

lemma alone_attempt [simp]: "alone (attempt_act m) s = (Inr (), snd (alone m s))"
  by (induction m arbitrary: s) auto

lemma alone_unless [simp]: "alone (unless_act b m) s = (if b s then (Inr (), s) else alone m s)"
  by (simp add: unless_act_def)

text \<open>Stopping at suspensions and going on is running alone, if nothing happens in between.\<close>

lemma alone_until: "alone (fst (until_await m s)) (snd (until_await m s)) = alone m s"
  by (induction m arbitrary: s) auto

lemma alone_resume: "alone (fst (resume m s)) (snd (resume m s)) = alone m s"
  by (cases m) (auto simp: alone_until)

lemma until_await_result: "(\<exists>r. fst (until_await m s) = Ended r) \<or> (\<exists>m'. fst (until_await m s) = Await m')"
  by (induction m arbitrary: s) auto

section \<open>What every atomic step respects\<close>

text \<open>
  A relation between the states before and after every atomic step of a coroutine. Nothing is said of what other tasks
  do at the suspensions, so the relation holds of each part of the coroutine in every
  interleaving; and if it is reflexive and transitive, of the whole when it runs alone.
\<close>

primrec does :: "('s \<Rightarrow> 's \<Rightarrow> bool) \<Rightarrow> ('s, 'a) coroutine \<Rightarrow> bool" where
  "does rel (Ended r) = True"
| "does rel (Atomic f g) = (\<forall>s. rel s (f s) \<and> does rel (g s))"
| "does rel (Await m) = does rel m"

lemma does_atomic [simp]: "does rel (atomic h) \<longleftrightarrow> (\<forall>s. rel s (snd (h s)))"
  by (simp add: atomic_def)

lemma does_bind: "does rel m \<Longrightarrow> (\<And>x. does rel (k x)) \<Longrightarrow> does rel (bind_act m k)"
  by (induction m) (auto split: sum.split)

lemma does_attempt: "does rel m \<Longrightarrow> does rel (attempt_act m)"
  by (induction m) auto

lemma does_values: "does rel (return_act x)" "does rel (raise_act ex)" "does rel (of_sum r)"
  by (simp_all add: return_act_def raise_act_def of_sum_def)

lemma does_seq: "(\<And>m. m \<in> set ms \<Longrightarrow> does rel m) \<Longrightarrow> does rel (seq_act ms)"
  by (induction ms) (auto intro: does_values does_bind)

lemma does_mono: "does rel m \<Longrightarrow> (\<And>s s'. rel s s' \<Longrightarrow> rel' s s') \<Longrightarrow> does rel' m"
  by (induction m) auto

lemma does_cases:
  "(\<And>a b. does rel (f a b)) \<Longrightarrow> does rel (case_prod f p)"
  "(b \<Longrightarrow> does rel m) \<Longrightarrow> (\<not> b \<Longrightarrow> does rel m') \<Longrightarrow> does rel (if b then m else m')"
  "does rel m \<Longrightarrow> (\<And>x. does rel (g x)) \<Longrightarrow> does rel (case_option m g opt)"
  by (auto split: prod.split option.split)

lemma does_until: "does rel m \<Longrightarrow> does rel (fst (until_await m s))"
  by (induction m arbitrary: s) auto

lemma does_resume: "does rel m \<Longrightarrow> does rel (fst (resume m s))"
  by (cases m) (auto simp: does_until)

locale act_relation =
  fixes rel :: "'s \<Rightarrow> 's \<Rightarrow> bool"
  assumes rel_refl: "rel s s"
    and rel_trans: "rel s t \<Longrightarrow> rel t u \<Longrightarrow> rel s u"
begin

lemma does_get: "does rel (get_act f)"
  by (simp add: get_act_def rel_refl)

lemma does_with_state: "(\<And>s. does rel (k s)) \<Longrightarrow> does rel (with_state k)"
  by (simp add: with_state_def rel_refl)

lemma does_unless: "does rel m \<Longrightarrow> does rel (unless_act b m)"
  by (simp add: unless_act_def with_state_def rel_refl does_values)

lemma rel_alone: "does rel m \<Longrightarrow> rel s (snd (alone m s))"
  by (induction m arbitrary: s) (auto intro: rel_refl rel_trans)

lemma rel_until: "does rel m \<Longrightarrow> rel s (snd (until_await m s))"
  by (induction m arbitrary: s) (auto intro: rel_refl rel_trans)

lemma rel_resume: "does rel m \<Longrightarrow> rel s (snd (resume m s))"
  using rel_until [of m s] rel_until by (cases m) auto

lemma rel_after: "(\<And>x. does rel (k x)) \<Longrightarrow> rel (snd (alone m s)) (snd (alone (bind_act m k) s))"
  by (auto simp: alone_bind rel_refl rel_alone split: prod.split sum.split)

end

end
