(* ===== verification/Policy.thy ===== *)
theory Policy
  imports Prelude
begin

text \<open>
  The policy file \<open>sim/config/ecu_policy.json\<close>, as the part of it that the program reads.
  The keys of \<open>allowed_transitions\<close> and the subfunctions are strings in the file, and the
  constructors of the components parse them.
\<close>

record level_policy =
  lp_request_seed_subfunction :: string
  lp_send_key_subfunction :: string
  lp_algorithm :: string
  lp_shared_secret_default_sim :: string
  lp_required_session :: string
  lp_grants_access_level :: string

record policy =
  pol_timeout_seconds :: int
  pol_allowed_transitions :: "(string \<times> int list) list"
  pol_levels :: "(string \<times> level_policy) list"
  pol_max_auth_attempts :: int
  pol_lockout_duration_seconds :: int
  pol_required_delay_seconds :: int
  pol_challenge_size_bytes :: nat
  pol_nonce_size_bytes :: nat
  pol_genesis_hash :: string

definition calibration_policy :: level_policy where
  "calibration_policy =
     \<lparr>lp_request_seed_subfunction = ''0x01'',
      lp_send_key_subfunction = ''0x02'',
      lp_algorithm = ''HMAC-SHA256'',
      lp_shared_secret_default_sim = ''sim-calibration-secret-dev-only'',
      lp_required_session = ''extended'',
      lp_grants_access_level = ''CALIBRATION''\<rparr>"

definition ecu_programming_policy :: level_policy where
  "ecu_programming_policy =
     \<lparr>lp_request_seed_subfunction = ''0x03'',
      lp_send_key_subfunction = ''0x04'',
      lp_algorithm = ''HMAC-SHA256'',
      lp_shared_secret_default_sim = ''sim-programming-secret-dev-only'',
      lp_required_session = ''programming'',
      lp_grants_access_level = ''ECU_PROGRAMMING''\<rparr>"

text \<open>Of the sections \<open>lockout\<close> (attempts, duration, delay) and \<open>crypto\<close> (sizes of challenge and nonce), and the start of the log.\<close>

definition lockout_policy :: "int \<times> int \<times> int" where [simp]:
  "lockout_policy = (3, 3600, 10)"

definition crypto_policy :: "nat \<times> nat" where [simp]:
  "crypto_policy = (32, 16)"

definition genesis_hash_policy :: string where [simp]:
  "genesis_hash_policy = replicate 64 (CHR ''0'')"

definition ecu_policy :: policy where
  "ecu_policy =
     \<lparr>pol_timeout_seconds = 300,
      pol_allowed_transitions = [(''1'', [2, 3]), (''3'', [1, 2]), (''2'', [1, 3])],
      pol_levels = [(''calibration'', calibration_policy), (''ecu_programming'', ecu_programming_policy)],
      pol_max_auth_attempts = fst lockout_policy,
      pol_lockout_duration_seconds = fst (snd lockout_policy),
      pol_required_delay_seconds = snd (snd lockout_policy),
      pol_challenge_size_bytes = fst crypto_policy,
      pol_nonce_size_bytes = snd crypto_policy,
      pol_genesis_hash = genesis_hash_policy\<rparr>"

lemmas policy_simps = ecu_policy_def calibration_policy_def ecu_programming_policy_def

end
