(* ===== verification/Session.thy ===== *)
theory Session
  imports Policy
begin

text \<open>
  The session state machine of service 0x10, \<open>sim/core/session.py\<close>.

  The object is the record \<open>session_sm\<close>: its four attributes on top of the environment it
  reads the clock from. The 0x27 and 0x29 handlers hold a reference to the same object, so
  every operation that may touch it takes the record and returns it.
\<close>

section \<open>State\<close>

definition DEFAULT :: int where "DEFAULT = 1"
definition EXTENDED :: int where "EXTENDED = 3"
definition PROGRAMMING :: int where "PROGRAMMING = 2"

definition VALID :: "int set" where "VALID = {DEFAULT, EXTENDED, PROGRAMMING}"

lemmas session_ids = DEFAULT_def EXTENDED_def PROGRAMMING_def

record session_sm = world +
  sm_session :: int
  sm_allowed :: "int \<rightharpoonup> int set"
  sm_timeout :: seconds
  sm_last_activity :: seconds

fun parse_allowed :: "(string \<times> int list) list \<Rightarrow> (int \<rightharpoonup> int set) \<Rightarrow> exn + (int \<rightharpoonup> int set)" where
  "parse_allowed [] m = Inr m"
| "parse_allowed ((k, v) # raw) m =
     (case py_int k 10 of
        Inl e \<Rightarrow> Inl e
      | Inr n \<Rightarrow> parse_allowed raw (m(n \<mapsto> set v)))"

definition session_init :: "policy \<Rightarrow> seconds option \<Rightarrow> world \<Rightarrow> exn + session_sm" where
  "session_init policy session_timeout_seconds w =
     (case parse_allowed (pol_allowed_transitions policy) Map.empty of
        Inl e \<Rightarrow> Inl e
      | Inr allowed \<Rightarrow>
          (let timeout = (case session_timeout_seconds of
                            Some t \<Rightarrow> t
                          | None \<Rightarrow> of_int (pol_timeout_seconds policy));
               (now, w') = monotonic w
           in Inr (world.extend w' (session_sm.fields DEFAULT allowed timeout now))))"

section \<open>Operations\<close>

definition touch :: "session_sm \<Rightarrow> session_sm" where
  "touch s = (let (now, s) = monotonic s in s\<lparr>sm_last_activity := now\<rparr>)"

definition check_timeout :: "session_sm \<Rightarrow> session_sm" where
  "check_timeout s =
     (if sm_session s \<noteq> DEFAULT then
        let (now, s) = monotonic s in
        if now - sm_last_activity s \<ge> sm_timeout s then s\<lparr>sm_session := DEFAULT\<rparr> else s
      else s)"

definition current :: "session_sm \<Rightarrow> int \<times> session_sm" where
  "current s = (let s = check_timeout s in (sm_session s, s))"

definition transition :: "int \<Rightarrow> session_sm \<Rightarrow> (bool \<times> int option) \<times> session_sm" where
  "transition target s =
     (let s = check_timeout s in
      if target \<notin> VALID then ((False, Some 0x22), s)
      else if target = sm_session s then ((True, None), touch s)
      else if sm_session s = DEFAULT \<and> target = PROGRAMMING then ((False, Some 0x22), s)
      else let allowed = (case sm_allowed s (sm_session s) of Some a \<Rightarrow> a | None \<Rightarrow> {}) in
        if target \<notin> allowed then ((False, Some 0x22), s)
        else ((True, None), touch (s\<lparr>sm_session := target\<rparr>)))"

definition reset :: "session_sm \<Rightarrow> session_sm" where
  "reset s = touch (s\<lparr>sm_session := DEFAULT\<rparr>)"

lemmas session_defs [handler_defs] = touch_def check_timeout_def current_def transition_def reset_def

section \<open>What the operations keep\<close>

text \<open>
  The environment only advances: the sources stay what they are and the number of readings
  does not fall.
\<close>

definition advances :: "'a world_scheme \<Rightarrow> 'b world_scheme \<Rightarrow> bool" where
  "advances w w' \<longleftrightarrow>
     mono_clock w' = mono_clock w \<and> wall_clock w' = wall_clock w \<and> rand_source w' = rand_source w \<and>
     mono_reads w \<le> mono_reads w' \<and> wall_reads w \<le> wall_reads w' \<and> rand_reads w \<le> rand_reads w'"

lemma advances_refl [simp]: "advances w w"
  by (simp add: advances_def)

lemma advances_trans [trans]: "advances w w' \<Longrightarrow> advances w' w'' \<Longrightarrow> advances w w''"
  by (auto simp: advances_def)

lemma advances_clock_ok: "advances w w' \<Longrightarrow> clock_ok w' = clock_ok w"
  by (simp add: advances_def clock_ok_def)

lemma advances_urandom_ok: "advances w w' \<Longrightarrow> urandom_ok w' = urandom_ok w"
  by (simp add: advances_def urandom_ok_def)

lemma advances_next_time: "clock_ok w \<Longrightarrow> advances w w' \<Longrightarrow> next_time w \<le> next_time w'"
  by (simp add: advances_def next_time_def clock_ok_def monoD)

lemma monotonic_simps [simp]:
  "fst (monotonic w) = next_time w"
  "advances w (snd (monotonic w))"
  "sm_session (snd (monotonic s)) = sm_session s"
  "sm_allowed (snd (monotonic s)) = sm_allowed s"
  "sm_timeout (snd (monotonic s)) = sm_timeout s"
  "sm_last_activity (snd (monotonic s)) = sm_last_activity s"
  by (simp_all add: monotonic_def next_time_def advances_def)

lemma utcnow_simps [simp]:
  "advances w (snd (utcnow w))"
  "sm_session (snd (utcnow s)) = sm_session s"
  "sm_allowed (snd (utcnow s)) = sm_allowed s"
  "sm_timeout (snd (utcnow s)) = sm_timeout s"
  "sm_last_activity (snd (utcnow s)) = sm_last_activity s"
  by (simp_all add: utcnow_def advances_def)

lemma os_urandom_simps [simp]:
  "advances w (snd (os_urandom n w))"
  "sm_session (snd (os_urandom n s)) = sm_session s"
  "sm_allowed (snd (os_urandom n s)) = sm_allowed s"
  "sm_timeout (snd (os_urandom n s)) = sm_timeout s"
  "sm_last_activity (snd (os_urandom n s)) = sm_last_activity s"
  by (simp_all add: os_urandom_def advances_def)

text \<open>The session the machine reports: the stored one, unless the timeout has passed.\<close>

definition expired :: "session_sm \<Rightarrow> bool" where
  "expired s \<longleftrightarrow> sm_session s \<noteq> DEFAULT \<and> sm_timeout s \<le> next_time s - sm_last_activity s"

definition live_session :: "session_sm \<Rightarrow> int" where
  "live_session s = (if expired s then DEFAULT else sm_session s)"

lemma check_timeout_simps [simp]:
  "sm_session (check_timeout s) = live_session s"
  "sm_allowed (check_timeout s) = sm_allowed s"
  "sm_timeout (check_timeout s) = sm_timeout s"
  "sm_last_activity (check_timeout s) = sm_last_activity s"
  "advances s (check_timeout s)"
  by (auto simp: check_timeout_def live_session_def expired_def Let_def case_prod_unfold)
    (simp add: monotonic_def advances_def)+

lemma touch_simps [simp]:
  "sm_session (touch s) = sm_session s"
  "sm_allowed (touch s) = sm_allowed s"
  "sm_timeout (touch s) = sm_timeout s"
  "sm_last_activity (touch s) = next_time s"
  "advances s (touch s)"
  by (auto simp: touch_def Let_def case_prod_unfold) (simp add: monotonic_def advances_def)+

lemma current_simps [simp]:
  "fst (current s) = live_session s"
  "snd (current s) = check_timeout s"
  by (simp_all add: current_def Let_def)

lemma advances_update [simp]:
  "advances w (s\<lparr>sm_session := x\<rparr>) \<longleftrightarrow> advances w s"
  "advances (s\<lparr>sm_session := x\<rparr>) v \<longleftrightarrow> advances s v"
  by (simp_all add: advances_def)

lemma advances_touch [simp]: "advances w s \<Longrightarrow> advances w (touch s)"
  by (rule advances_trans [OF _ touch_simps(5)])

lemma advances_check_timeout [simp]: "advances w s \<Longrightarrow> advances w (check_timeout s)"
  by (rule advances_trans [OF _ check_timeout_simps(5)])

lemma reset_simps [simp]:
  "sm_session (reset s) = DEFAULT"
  "sm_allowed (reset s) = sm_allowed s"
  "sm_timeout (reset s) = sm_timeout s"
  "advances w s \<Longrightarrow> advances w (reset s)"
  by (simp_all add: reset_def)

lemma transition_frame [simp]:
  "sm_allowed (snd (transition t s)) = sm_allowed s"
  "sm_timeout (snd (transition t s)) = sm_timeout s"
  "advances w s \<Longrightarrow> advances w (snd (transition t s))"
  by (auto simp: transition_def Let_def)

lemma advances_utcnow: "advances w sm \<Longrightarrow> advances w (snd (utcnow sm))"
  by (rule advances_trans [OF _ utcnow_simps(1)])

lemma transition_looks: "advances (check_timeout s) (snd (transition t s))"
  by (auto simp: transition_def Let_def)

lemma check_timeout_sources:
  "wall_clock (check_timeout s) = wall_clock s" "wall_reads (check_timeout s) = wall_reads s"
  "rand_source (check_timeout s) = rand_source s" "rand_reads (check_timeout s) = rand_reads s"
  by (auto simp: check_timeout_def monotonic_def Let_def)

section \<open>The session table\<close>

text \<open>
  The transition rules of the module's header, as a step relation on session ids. The
  machine with the policy's table implements it: \<open>transition\<close> answers positively exactly
  for a step of the relation, and every other request leaves the live session as it is.
\<close>

inductive session_move :: "int \<Rightarrow> int \<Rightarrow> bool" where
  stay: "s \<in> VALID \<Longrightarrow> session_move s s"
| default_extended: "session_move DEFAULT EXTENDED"
| extended_programming: "session_move EXTENDED PROGRAMMING"
| extended_default: "session_move EXTENDED DEFAULT"
| programming_default: "session_move PROGRAMMING DEFAULT"
| programming_extended: "session_move PROGRAMMING EXTENDED"

inductive_simps session_move_iff: "session_move s t"

code_pred session_move .

definition valid_session :: "session_sm \<Rightarrow> bool" where
  "valid_session s \<longleftrightarrow> sm_session s \<in> VALID"

text \<open>The table of the policy file, as \<open>session_init\<close> reads it.\<close>

definition policy_allowed :: "int \<rightharpoonup> int set" where
  "policy_allowed = [DEFAULT \<mapsto> {PROGRAMMING, EXTENDED}, EXTENDED \<mapsto> {DEFAULT, PROGRAMMING},
     PROGRAMMING \<mapsto> {DEFAULT, EXTENDED}]"

lemma valid_live: "valid_session s \<Longrightarrow> live_session s \<in> VALID"
  by (auto simp: valid_session_def live_session_def VALID_def)

lemma transition_session:
  "sm_session (snd (transition t s)) = (if fst (fst (transition t s)) then t else live_session s)"
  by (simp add: transition_def Let_def)

lemma transition_result:
  "fst (transition t s) = (True, None) \<or> fst (transition t s) = (False, Some 0x22)"
  by (simp add: transition_def Let_def)

lemma transition_touches:
  "fst (fst (transition t s)) \<Longrightarrow>
    sm_last_activity (snd (transition t s)) = next_time (check_timeout s)"
  by (auto simp: transition_def Let_def next_time_def split: if_splits)

lemma transition_valid:
  "fst (fst (transition t s)) \<Longrightarrow> t \<in> VALID"
  by (auto simp: transition_def Let_def split: if_splits)

lemma valid_session_ops [simp]:
  "valid_session s \<Longrightarrow> valid_session (check_timeout s)"
  "valid_session s \<Longrightarrow> valid_session (touch s)"
  "valid_session (reset s)"
  "valid_session s \<Longrightarrow> valid_session (snd (transition t s))"
  "valid_session (s\<lparr>mono_reads := k, wall_reads := n, rand_reads := m\<rparr>) \<longleftrightarrow> valid_session s"
proof -
  show "valid_session s \<Longrightarrow> valid_session (snd (transition t s))"
    using transition_valid [of t s] valid_live [of s]
    by (simp add: valid_session_def transition_session)
qed (auto simp: valid_session_def live_session_def VALID_def)

lemma transition_ok_iff:
  assumes "valid_session s" "sm_allowed s = policy_allowed"
  shows "fst (fst (transition t s)) \<longleftrightarrow> session_move (live_session s) t"
  using assms valid_live [of s]
  by (auto simp: transition_def Let_def session_move_iff VALID_def policy_allowed_def session_ids)

lemma touch_session_same: "sm_session s = t \<Longrightarrow> touch (s\<lparr>sm_session := t\<rparr>) = touch s"
  by (simp add: touch_def monotonic_def)

section \<open>The machine as a whole\<close>

text \<open>
  \<open>Elsewhere k n m\<close> stands for \<open>k\<close> readings of the monotonic clock, \<open>n\<close> of the wall clock and
  \<open>m\<close> of the random source made by the other components between two calls.
\<close>

datatype session_op = Current | Transition int | Touch | Reset | Elsewhere nat nat nat

datatype session_out = Id int | Answer "bool \<times> int option" | Nothing

fun session_step :: "session_op \<Rightarrow> session_sm \<Rightarrow> session_out \<times> session_sm" where
  "session_step Current s = apfst Id (current s)"
| "session_step (Transition t) s = apfst Answer (transition t s)"
| "session_step Touch s = (Nothing, touch s)"
| "session_step Reset s = (Nothing, reset s)"
| "session_step (Elsewhere k n m) s =
     (Nothing, s\<lparr>mono_reads := mono_reads s + k, wall_reads := wall_reads s + n,
                 rand_reads := rand_reads s + m\<rparr>)"

text \<open>
  Any sequence of calls keeps the session id valid, the table and the timeout fixed and the
  environment advancing.
\<close>

definition session_le :: "session_sm \<Rightarrow> session_sm \<Rightarrow> bool" where
  "session_le s t \<longleftrightarrow> sm_allowed t = sm_allowed s \<and> sm_timeout t = sm_timeout s \<and> advances s t"

interpretation sess: monotone_machine session_step valid_session session_le
proof unfold_locales
  fix s i
  assume "valid_session s"
  then show "valid_session (snd (session_step i s))"
    by (cases i) simp_all
next
  fix s i
  show "session_le s (snd (session_step i s))"
    by (cases i) (simp_all add: session_le_def advances_def [of _ "_\<lparr>mono_reads := _, wall_reads := _, rand_reads := _\<rparr>"])
qed (auto simp: session_le_def intro: advances_trans)

section \<open>The constructor on the policy file\<close>

lemma parse_policy_allowed:
  "parse_allowed (pol_allowed_transitions ecu_policy) Map.empty = Inr policy_allowed"
  by (simp add: ecu_policy_def py_int_eval
      policy_allowed_def session_ids Let_def fun_upd_twist insert_commute)

lemma session_init_simps:
  "session_init policy to w = Inr s \<Longrightarrow> sm_session s = DEFAULT \<and> sm_last_activity s = next_time w \<and>
    sm_timeout s = (case to of Some t \<Rightarrow> t | None \<Rightarrow> of_int (pol_timeout_seconds policy)) \<and> advances w s"
  by (auto simp: session_init_def Let_def world.defs session_sm.defs monotonic_def next_time_def
      advances_def split: sum.splits)

lemma session_init_ecu_policy:
  "\<exists>s. session_init ecu_policy to w = Inr s \<and> sm_allowed s = policy_allowed"
  by (simp add: session_init_def parse_policy_allowed Let_def case_prod_unfold world.defs
      session_sm.defs)

lemma session_init_valid: "session_init policy to w = Inr s \<Longrightarrow> valid_session s"
  using session_init_simps [of policy to w s] by (simp add: valid_session_def VALID_def)

section \<open>Properties\<close>

text \<open>C21: with the policy's table, \<open>transition\<close> implements the session table exactly: a
  request for \<open>t\<close> succeeds if and only if the table has the step from the live session (the
  stored one, or Default after the inactivity timeout) to \<open>t\<close>; it then stores \<open>t\<close> and
  restarts the timer. Every other request is answered with NRC 0x22 and changes
  nothing beyond the timeout itself.\<close>

theorem transition_refines_table:
  assumes "valid_session s" and "sm_allowed s = policy_allowed"
  shows "transition t s =
    (if session_move (live_session s) t
     then ((True, None), touch ((check_timeout s)\<lparr>sm_session := t\<rparr>))
     else ((False, Some 0x22), check_timeout s))"
proof (cases "fst (fst (transition t s))")
  case True
  then have "transition t s = ((True, None), touch ((check_timeout s)\<lparr>sm_session := t\<rparr>))"
    by (auto simp: transition_def Let_def touch_session_same split: if_splits)
  moreover have "session_move (live_session s) t" using True transition_ok_iff [OF assms] by blast
  ultimately show ?thesis by simp
next
  case False
  then have "transition t s = ((False, Some 0x22), check_timeout s)"
    by (auto simp: transition_def Let_def split: if_splits)
  moreover have "\<not> session_move (live_session s) t" using False transition_ok_iff [OF assms] by blast
  ultimately show ?thesis by simp
qed

definition sample_world :: world where
  "sample_world =
     \<lparr>mono_clock = of_nat, mono_reads = 5, wall_clock = (\<lambda>n. UTC (int n)), wall_reads = 0,
      rand_source = (\<lambda>k n. replicate n (word_of_nat k)), rand_reads = 0\<rparr>"

definition sample_session :: session_sm where
  "sample_session = world.extend (sample_world\<lparr>mono_reads := 10\<rparr>)
     (session_sm.fields EXTENDED policy_allowed 300 5)"

lemma sample_session_simps [simp]:
  "valid_session sample_session" "sm_allowed sample_session = policy_allowed"
  "live_session sample_session = EXTENDED" "clock_ok sample_session" "urandom_ok sample_session"
  by (simp_all add: sample_session_def sample_world_def world.defs session_sm.defs
      valid_session_def VALID_def live_session_def expired_def
      next_time_def session_ids clock_ok_def mono_def urandom_ok_def)

theorem transition_refines_table_witness:
  "fst (transition PROGRAMMING sample_session) = (True, None)
   \<and> fst (transition 7 sample_session) = (False, Some 0x22)"
  using transition_refines_table [of sample_session PROGRAMMING]
    transition_refines_table [of sample_session 7]
  by (simp add: session_move_iff session_ids VALID_def)

text \<open>no request takes the machine from Default to Programming in one step, whatever the
  transition table of the policy allows and also when the Default session comes from the
  timeout.\<close>

theorem no_direct_programming:
  assumes "live_session s = DEFAULT"
  shows "sm_session (snd (transition t s)) \<noteq> PROGRAMMING \<and>
    (t = PROGRAMMING \<longrightarrow> fst (transition t s) = (False, Some 0x22))"
  using assms by (auto simp: transition_def Let_def session_ids VALID_def)

theorem no_direct_programming_witness:
  "fst (transition PROGRAMMING (reset sample_session)) = (False, Some 0x22)"
  using no_direct_programming [of "reset sample_session" PROGRAMMING]
  by (simp add: live_session_def expired_def)

text \<open>C3: \<open>current\<close> reports an elevated session exactly when one is stored and the clock
  reading it makes lies less than the timeout after the last activity; it then changes nothing
  but the clock position. Otherwise it reports Default, and Default is then what is stored.\<close>

theorem current_timeout:
  "let (sid, s') = current s in
    (sid \<noteq> DEFAULT \<longleftrightarrow> sm_session s \<noteq> DEFAULT \<and> next_time s < sm_last_activity s + sm_timeout s) \<and>
    (sid \<noteq> DEFAULT \<longrightarrow> sid = sm_session s \<and> s' = s\<lparr>mono_reads := Suc (mono_reads s)\<rparr>) \<and>
    sm_session s' = sid"
  by (auto simp: current_def check_timeout_def live_session_def expired_def Let_def
      case_prod_unfold monotonic_def next_time_def algebra_simps)

theorem current_timeout_witness:
  "fst (current sample_session) = EXTENDED \<and>
   fst (current (sample_session\<lparr>mono_reads := 305\<rparr>)) = DEFAULT"
  using current_timeout [of sample_session]
    current_timeout [of "sample_session\<lparr>mono_reads := 305\<rparr>"]
  by (simp add: sample_session_def sample_world_def world.defs session_sm.defs session_ids
      next_time_def case_prod_unfold live_session_def expired_def)

text \<open>whatever sequence of calls the machine has served, its session id is one of the
  three valid ones, its table and its timeout are those it was built with, and it has not
  moved the clock backwards.\<close>

theorem session_run_invariant:
  assumes "session_init policy timeout w = Inr s"
  shows "valid_session (snd (run session_step ops s)) \<and> session_le s (snd (run session_step ops s))"
  using session_init_valid [OF assms] sess.inv_run sess.rel_run by blast

theorem session_run_invariant_witness:
  "\<exists>s. session_init ecu_policy (Some 2) sample_world = Inr s \<and>
     valid_session (snd (run session_step [Transition 3, Current, Transition 9] s))"
  using session_run_invariant session_init_ecu_policy [of "Some 2" sample_world] by blast

end
