(* ===== verification/Sha256.thy ===== *)
theory Sha256
  imports Prelude
begin

unbundle bit_operations_syntax

text \<open>
  SHA-256 as \<open>hashlib\<close> computes it (FIPS 180-4), for messages of less than 2 to the power 61
  bytes: padding, the schedule of 64 words of a block, 64 rounds per block. The audit log hashes its
  entries with it, and service 0x27 derives its keys from it with HMAC.
\<close>

type_synonym word32 = "32 word"

text \<open>
  The 64 primes below 312, and the tables of the standard in decimal: the constant of a round is the
  first 32 bits of the fractional part of the cube root of its prime, the initial hash value the
  same for the square roots of the first eight (proved below).
\<close>

definition round_primes :: "int list" where
  "round_primes =
    [2, 3, 5, 7, 11, 13, 17, 19, 23, 29, 31, 37, 41, 43, 47, 53,
     59, 61, 67, 71, 73, 79, 83, 89, 97, 101, 103, 107, 109, 113, 127, 131,
     137, 139, 149, 151, 157, 163, 167, 173, 179, 181, 191, 193, 197, 199, 211, 223,
     227, 229, 233, 239, 241, 251, 257, 263, 269, 271, 277, 281, 283, 293, 307, 311]"

definition round_constants :: "word32 list" where
  "round_constants =
    [1116352408, 1899447441, 3049323471, 3921009573, 961987163, 1508970993,
     2453635748, 2870763221, 3624381080, 310598401, 607225278, 1426881987,
     1925078388, 2162078206, 2614888103, 3248222580, 3835390401, 4022224774,
     264347078, 604807628, 770255983, 1249150122, 1555081692, 1996064986,
     2554220882, 2821834349, 2952996808, 3210313671, 3336571891, 3584528711,
     113926993, 338241895, 666307205, 773529912, 1294757372, 1396182291,
     1695183700, 1986661051, 2177026350, 2456956037, 2730485921, 2820302411,
     3259730800, 3345764771, 3516065817, 3600352804, 4094571909, 275423344,
     430227734, 506948616, 659060556, 883997877, 958139571, 1322822218,
     1537002063, 1747873779, 1955562222, 2024104815, 2227730452, 2361852424,
     2428436474, 2756734187, 3204031479, 3329325298]"

definition initial_hash :: "word32 list" where
  "initial_hash =
    [1779033703, 3144134277, 1013904242, 2773480762,
     1359893119, 2600822924, 528734635, 1541459225]"

text \<open>
  \<open>k\<close> is the fraction, cut to 32 bits, of the \<open>e\<close>-th root of \<open>p\<close>: with the integer part of the
  root before it, it is the largest number whose \<open>e\<close>-th power is at most \<open>p\<close> scaled.
\<close>

definition integer_root :: "nat \<Rightarrow> int \<Rightarrow> int" where
  "integer_root e p = int (length (takeWhile (\<lambda>a. a ^ e \<le> p) (map int [1..<20])))"

definition root_fraction :: "nat \<Rightarrow> int \<Rightarrow> int \<Rightarrow> bool" where
  "root_fraction e p k \<longleftrightarrow>
     (integer_root e p * 2 ^ 32 + k) ^ e \<le> p * 2 ^ (32 * e) \<and>
     p * 2 ^ (32 * e) < (integer_root e p * 2 ^ 32 + k + 1) ^ e"

definition rotr :: "nat \<Rightarrow> word32 \<Rightarrow> word32" where
  "rotr n x = drop_bit n x OR push_bit (32 - n) x"

definition small_sigma0 :: "word32 \<Rightarrow> word32" where
  "small_sigma0 x = rotr 7 x XOR rotr 18 x XOR drop_bit 3 x"

definition small_sigma1 :: "word32 \<Rightarrow> word32" where
  "small_sigma1 x = rotr 17 x XOR rotr 19 x XOR drop_bit 10 x"

definition big_sigma0 :: "word32 \<Rightarrow> word32" where
  "big_sigma0 x = rotr 2 x XOR rotr 13 x XOR rotr 22 x"

definition big_sigma1 :: "word32 \<Rightarrow> word32" where
  "big_sigma1 x = rotr 6 x XOR rotr 11 x XOR rotr 25 x"

definition choose3 :: "word32 \<Rightarrow> word32 \<Rightarrow> word32 \<Rightarrow> word32" where
  "choose3 x y z = (x AND y) XOR (NOT x AND z)"

definition majority :: "word32 \<Rightarrow> word32 \<Rightarrow> word32 \<Rightarrow> word32" where
  "majority x y z = (x AND y) XOR (x AND z) XOR (y AND z)"

text \<open>Big-endian words.\<close>

fun word_of_bytes :: "bytes \<Rightarrow> word32" where
  "word_of_bytes [a, b, c, d] =
     push_bit 24 (ucast a) OR push_bit 16 (ucast b) OR push_bit 8 (ucast c) OR ucast d"
| "word_of_bytes _ = 0"

definition bytes_of_word :: "word32 \<Rightarrow> bytes" where
  "bytes_of_word w = [ucast (drop_bit 24 w), ucast (drop_bit 16 w), ucast (drop_bit 8 w), ucast w]"

fun chunks :: "nat \<Rightarrow> nat \<Rightarrow> 'a list \<Rightarrow> 'a list list" where
  "chunks n 0 xs = []"
| "chunks n (Suc k) xs = take n xs # chunks n k (drop n xs)"

definition length_bytes :: "nat \<Rightarrow> bytes" where
  "length_bytes n = map (\<lambda>i. ucast (drop_bit (8 * i) (word_of_nat (8 * n) :: 64 word))) (rev [0..<8])"

definition pad :: "bytes \<Rightarrow> bytes" where
  "pad msg =
     msg @ [0x80] @ replicate ((119 - length msg mod 64) mod 64) 0 @ length_bytes (length msg)"

text \<open>
  The schedule is kept newest word first: the word that follows depends on the 2nd, the 7th, the
  15th and the 16th newest.
\<close>

definition next_word :: "word32 list \<Rightarrow> word32" where
  "next_word ws = small_sigma1 (ws ! 1) + ws ! 6 + small_sigma0 (ws ! 14) + ws ! 15"

definition schedule :: "bytes \<Rightarrow> word32 list" where
  "schedule block =
     rev (((\<lambda>ws. next_word ws # ws) ^^ 48) (rev (map word_of_bytes (chunks 4 16 block))))"

fun sha_round :: "word32 \<times> word32 \<Rightarrow> word32 list \<Rightarrow> word32 list" where
  "sha_round (k, w) [a, b, c, d, e, f, g, h] =
     (let t1 = h + big_sigma1 e + choose3 e f g + k + w;
          t2 = big_sigma0 a + majority a b c
      in [t1 + t2, a, b, c, d + t1, e, f, g])"
| "sha_round _ vs = vs"

definition sha_block :: "bytes \<Rightarrow> word32 list \<Rightarrow> word32 list" where
  "sha_block block hs =
     map2 (+) hs (fold sha_round (zip round_constants (schedule block)) hs)"

definition sha256 :: "bytes \<Rightarrow> bytes" where
  "sha256 msg =
     (let m = pad msg in
      concat (map bytes_of_word (fold sha_block (chunks 64 (length m div 64) m) initial_hash)))"

text \<open>The tables are the ones the standard describes.\<close>

lemma round_constants_roots:
  "list_all2 (root_fraction 3) round_primes (map uint round_constants)"
  by (simp add: round_primes_def round_constants_def root_fraction_def integer_root_def upt_rec)

lemma initial_hash_roots:
  "list_all2 (root_fraction 2) (take 8 round_primes) (map uint initial_hash)"
  by (simp add: round_primes_def initial_hash_def root_fraction_def integer_root_def upt_rec)

lemma length_sha_round [simp]: "length (sha_round kw vs) = length vs"
  by (cases "(kw, vs)" rule: sha_round.cases) (simp_all add: Let_def)

lemma length_sha_rounds [simp]: "length (fold sha_round kws vs) = length vs"
  by (induction kws arbitrary: vs) simp_all

lemma length_sha_blocks [simp]: "length (fold sha_block bs hs) = length hs"
  by (induction bs arbitrary: hs) (simp_all add: sha_block_def)

lemma length_concat_bytes_of_word [simp]:
  "length (concat (map bytes_of_word ws)) = 4 * length ws"
  by (induction ws) (simp_all add: bytes_of_word_def)

lemma length_sha256 [simp]: "length (sha256 msg) = 32"
  by (simp add: sha256_def Let_def initial_hash_def)

text \<open>Every padded message is a sequence of whole blocks.\<close>

lemma length_pad: "length (pad msg) mod 64 = 0"
proof -
  have fill: "(r + 9 + (119 - r) mod 64) mod 64 = 0" if "r < 64" for r :: nat
  proof (cases "r < 56")
    case True
    then have "(119 - r) mod 64 = 55 - r" using mod_add_self2 [of "55 - r" 64] by simp
    with True show ?thesis by simp
  next
    case False
    with that have "(119 - r) mod 64 = 119 - r" by simp
    with False that show ?thesis by simp
  qed
  have "length (pad msg) = length msg + (9 + (119 - length msg mod 64) mod 64)"
    by (simp add: pad_def length_bytes_def)
  then have "length (pad msg) mod 64
      = (length msg mod 64 + (9 + (119 - length msg mod 64) mod 64)) mod 64"
    by (simp add: mod_add_left_eq)
  then show ?thesis using fill [of "length msg mod 64"] by (simp add: add.assoc)
qed

text \<open>Two different inputs with the same digest.\<close>

definition collides :: "(bytes \<Rightarrow> bytes) \<Rightarrow> bytes \<Rightarrow> bytes \<Rightarrow> bool" where
  "collides h x y \<longleftrightarrow> x \<noteq> y \<and> h x = h y"

end
