(* ===== verification/Crypto_Backend.thy ===== *)
theory Crypto_Backend
  imports Sha256
begin

unbundle bit_operations_syntax

text \<open>
  The HAL gateway \<open>sim/hal/crypto_backend.py\<close>. The X.509 parser and ECDSA come from
  the third-party package \<open>cryptography\<close>: they are the fields of the record
  \<open>provider\<close>, an argument of every definition that uses them. SHA-256 and HMAC, which are
  in the standard library, are defined. A certificate object is the
  record of the attributes the program reads; reading an attribute is taken not to raise.
\<close>

section \<open>The external library\<close>

type_synonym x509_name = "(string \<times> string) list"

record certificate =
  cert_subject :: x509_name
  cert_issuer :: x509_name
  cert_not_before :: datetime
  cert_not_after :: datetime
  cert_public_key :: bytes
  cert_signature :: bytes
  cert_tbs :: bytes
  cert_der :: bytes

text \<open>What \<open>x509.CertificateBuilder\<close> has collected when \<open>sign\<close> is called.\<close>

record cert_request =
  req_subject :: x509_name
  req_issuer :: x509_name
  req_public_key :: bytes
  req_serial :: int
  req_not_before :: datetime
  req_not_after :: datetime
  req_ca :: bool

text \<open>\<open>public_key().verify\<close> returns, raises \<open>InvalidSignature\<close>, or raises something else.\<close>

datatype verify_outcome = Verified | InvalidSignature | VerifyRaises string

record provider =
  load_pem_x509 :: "string \<Rightarrow> certificate option"
  pem_of_cert :: "certificate \<Rightarrow> string"
  ecdsa_verify :: "bytes \<Rightarrow> bytes \<Rightarrow> bytes \<Rightarrow> verify_outcome"
  ecdsa_sign :: "bytes \<Rightarrow> bytes \<Rightarrow> bytes \<Rightarrow> bytes"
  public_key_of :: "bytes \<Rightarrow> bytes"
  sign_cert :: "cert_request \<Rightarrow> bytes \<Rightarrow> certificate"

section \<open>HMAC\<close>

definition hmac_key :: "(bytes \<Rightarrow> bytes) \<Rightarrow> bytes \<Rightarrow> bytes" where
  "hmac_key h key =
     (let k = (if 64 < length key then h key else key) in k @ replicate (64 - length k) 0)"

definition hmac :: "(bytes \<Rightarrow> bytes) \<Rightarrow> bytes \<Rightarrow> bytes \<Rightarrow> bytes" where
  "hmac h key msg =
     (let k = hmac_key h key in
      h (map (\<lambda>b. b XOR 0x5C) k @ h (map (\<lambda>b. b XOR 0x36) k @ msg)))"

section \<open>The gateway\<close>

definition generate_seed :: "nat \<Rightarrow> 'a world_scheme \<Rightarrow> bytes \<times> 'a world_scheme" where
  "generate_seed size_bytes w = os_urandom size_bytes w"

definition compute_key_hmac_sha256 :: "bytes \<Rightarrow> string \<Rightarrow> bytes" where
  "compute_key_hmac_sha256 seed shared_secret = hmac sha256 (encode shared_secret) seed"

definition constant_time_compare :: "bytes \<Rightarrow> bytes \<Rightarrow> bool" where
  "constant_time_compare a b \<longleftrightarrow> a = b"

definition parse_certificate :: "provider \<Rightarrow> string \<Rightarrow> certificate option" where
  "parse_certificate P pem = load_pem_x509 P pem"

definition cert_fingerprint_sha256 :: "certificate \<Rightarrow> string" where
  "cert_fingerprint_sha256 cert = hex_bytes (sha256 (cert_der cert))"

definition is_cert_time_valid :: "certificate \<Rightarrow> datetime \<Rightarrow> bool" where
  "is_cert_time_valid cert now \<longleftrightarrow> cert_not_before cert \<le> now \<and> now \<le> cert_not_after cert"

definition cert_issuer_matches :: "certificate \<Rightarrow> certificate \<Rightarrow> bool" where
  "cert_issuer_matches cert ca_cert \<longleftrightarrow> cert_issuer cert = cert_subject ca_cert"

definition verify_cert_signed_by :: "provider \<Rightarrow> certificate \<Rightarrow> certificate \<Rightarrow> exn + bool" where
  "verify_cert_signed_by P cert ca_cert =
     (case ecdsa_verify P (cert_public_key ca_cert) (cert_signature cert) (cert_tbs cert) of
        Verified \<Rightarrow> Inr True
      | InvalidSignature \<Rightarrow> Inr False
      | VerifyRaises m \<Rightarrow> Inl (LibraryError m))"

definition sign_ecdsa :: "provider \<Rightarrow> bytes \<Rightarrow> bytes \<Rightarrow> bytes \<Rightarrow> bytes" where
  "sign_ecdsa P private_key k data = ecdsa_sign P private_key k data"

definition verify_proof_signature ::
  "provider \<Rightarrow> certificate \<Rightarrow> bytes \<Rightarrow> bytes \<Rightarrow> exn + bool" where
  "verify_proof_signature P cert signature_bytes data =
     (case ecdsa_verify P (cert_public_key cert) signature_bytes data of
        Verified \<Rightarrow> Inr True
      | InvalidSignature \<Rightarrow> Inr False
      | VerifyRaises m \<Rightarrow> Inl (LibraryError m))"

lemmas crypto_defs = parse_certificate_def cert_fingerprint_sha256_def is_cert_time_valid_def
  cert_issuer_matches_def verify_cert_signed_by_def verify_proof_signature_def

section \<open>Facts about the gateway\<close>

lemma hmac_key_length: "length (h key) \<le> 64 \<Longrightarrow> length (hmac_key h key) = 64"
  by (simp add: hmac_key_def Let_def)

text \<open>A key has the 32 bytes of a digest.\<close>

lemma length_hmac: "(\<And>x. length (h x) = n) \<Longrightarrow> length (hmac h key msg) = n"
  by (simp add: hmac_def Let_def)

lemma length_compute_key [simp]: "length (compute_key_hmac_sha256 seed secret) = 32"
  by (simp add: compute_key_hmac_sha256_def length_hmac)

lemma compute_key_neq [simp]:
  "length key \<noteq> 32 \<Longrightarrow> key \<noteq> compute_key_hmac_sha256 seed secret"
  by (metis length_compute_key)

text \<open>
  Two messages that get the same HMAC under one key exhibit, in one of the two hash calls made
  for them, two different inputs with the same hash.
\<close>

definition hmac_inner :: "(bytes \<Rightarrow> bytes) \<Rightarrow> bytes \<Rightarrow> bytes \<Rightarrow> bytes" where
  "hmac_inner h key msg = map (\<lambda>b. b XOR 0x36) (hmac_key h key) @ msg"

definition hmac_outer :: "(bytes \<Rightarrow> bytes) \<Rightarrow> bytes \<Rightarrow> bytes \<Rightarrow> bytes" where
  "hmac_outer h key msg = map (\<lambda>b. b XOR 0x5C) (hmac_key h key) @ h (hmac_inner h key msg)"

lemma hmac_collision:
  assumes "hmac h key m = hmac h key m'" "m \<noteq> m'"
  shows "collides h (hmac_inner h key m) (hmac_inner h key m') \<or>
    collides h (hmac_outer h key m) (hmac_outer h key m')"
  using assms by (auto simp: collides_def hmac_inner_def hmac_outer_def hmac_def Let_def)

lemma verify_outcome_exhausted:
  "verify_proof_signature P c s d = Inr True \<longleftrightarrow> ecdsa_verify P (cert_public_key c) s d = Verified"
  by (auto simp: verify_proof_signature_def split: verify_outcome.splits)

end
