(* ===== verification/Challenge_Response.thy ===== *)
theory Challenge_Response
  imports Prelude
begin

text \<open>
  The contract the 0x27 and the 0x29 handlers share towards the ECU: a client is granted
  access only by answering a challenge the handler has issued, an answer that is accepted uses the
  challenge up, and \<open>revoke\<close> takes back both the grant and the outstanding challenge. The
  locale states the laws for one challenge slot; its lemmas are about every sequence of calls,
  and both handlers interpret it.
\<close>

datatype ('i, 'r, 'e) cr_input = Issue 'i | Respond 'r | Revoke | Other 'e

definition cr_step ::
  "('i \<Rightarrow> 's \<Rightarrow> bool \<times> 's) \<Rightarrow> ('r \<Rightarrow> 's \<Rightarrow> bool \<times> 's) \<Rightarrow> ('s \<Rightarrow> 's) \<Rightarrow> ('e \<Rightarrow> 's \<Rightarrow> 's) \<Rightarrow>
    ('i, 'r, 'e) cr_input \<Rightarrow> 's \<Rightarrow> bool \<times> 's" where
  "cr_step issue respond revoke other inp s =
     (case inp of
        Issue i \<Rightarrow> issue i s
      | Respond r \<Rightarrow> respond r s
      | Revoke \<Rightarrow> (True, revoke s)
      | Other e \<Rightarrow> (True, other e s))"

text \<open>The challenges issued and the answers accepted in a run.\<close>

definition issues :: "('i, 'r, 'e) cr_input list \<Rightarrow> bool list \<Rightarrow> nat" where
  "issues inps outs = length (filter (\<lambda>(inp, ok). ok \<and> (\<exists>i. inp = Issue i)) (zip inps outs))"

definition accepts :: "('i, 'r, 'e) cr_input list \<Rightarrow> bool list \<Rightarrow> nat" where
  "accepts inps outs = length (filter (\<lambda>(inp, ok). ok \<and> (\<exists>r. inp = Respond r)) (zip inps outs))"

lemma issues_simps [simp]:
  "issues [] outs = 0"
  "issues (Issue i # inps) (ok # outs) = (if ok then 1 else 0) + issues inps outs"
  "issues (Respond r # inps) (ok # outs) = issues inps outs"
  "issues (Revoke # inps) (ok # outs) = issues inps outs"
  "issues (Other e # inps) (ok # outs) = issues inps outs"
  by (simp_all add: issues_def)

lemma accepts_simps [simp]:
  "accepts [] outs = 0"
  "accepts (Respond r # inps) (ok # outs) = (if ok then 1 else 0) + accepts inps outs"
  "accepts (Issue i # inps) (ok # outs) = accepts inps outs"
  "accepts (Revoke # inps) (ok # outs) = accepts inps outs"
  "accepts (Other e # inps) (ok # outs) = accepts inps outs"
  by (simp_all add: accepts_def)

locale challenge_response =
  fixes issue :: "'i \<Rightarrow> 's \<Rightarrow> bool \<times> 's"
    and respond :: "'r \<Rightarrow> 's \<Rightarrow> bool \<times> 's"
    and revoke :: "'s \<Rightarrow> 's"
    and other :: "'e \<Rightarrow> 's \<Rightarrow> 's"
    and pending :: "'s \<Rightarrow> bool"
    and granted :: "'s \<Rightarrow> bool"
    and invar :: "'s \<Rightarrow> bool"
  assumes invar_issue: "invar s \<Longrightarrow> invar (snd (issue i s))"
    and invar_respond: "invar s \<Longrightarrow> invar (snd (respond r s))"
    and invar_revoke: "invar s \<Longrightarrow> invar (revoke s)"
    and invar_other: "invar s \<Longrightarrow> invar (other e s)"
    and issue_pending: "invar s \<Longrightarrow> pending (snd (issue i s)) \<Longrightarrow> fst (issue i s) \<or> pending s"
    and issue_granted: "invar s \<Longrightarrow> granted (snd (issue i s)) \<Longrightarrow> granted s"
    and accept_pending: "invar s \<Longrightarrow> fst (respond r s) \<Longrightarrow> pending s"
    and accept_consumes: "invar s \<Longrightarrow> fst (respond r s) \<Longrightarrow> \<not> pending (snd (respond r s))"
    and respond_pending: "invar s \<Longrightarrow> pending (snd (respond r s)) \<Longrightarrow> pending s"
    and reject_granted: "invar s \<Longrightarrow> \<not> fst (respond r s) \<Longrightarrow> granted (snd (respond r s)) \<Longrightarrow> granted s"
    and revoke_pending: "invar s \<Longrightarrow> \<not> pending (revoke s)"
    and revoke_granted: "invar s \<Longrightarrow> \<not> granted (revoke s)"
    and other_pending: "invar s \<Longrightarrow> pending (other e s) \<Longrightarrow> pending s"
    and other_granted: "invar s \<Longrightarrow> granted (other e s) \<Longrightarrow> granted s"
begin

lemma invar_step: "invar s \<Longrightarrow> invar (snd (cr_step issue respond revoke other inp s))"
  by (cases inp) (simp_all add: cr_step_def invar_issue invar_respond invar_revoke invar_other)

lemma step_accounting:
  assumes "invar s"
  shows "accepts [inp] [fst (cr_step issue respond revoke other inp s)]
      + (if pending (snd (cr_step issue respond revoke other inp s)) then 1 else 0)
    \<le> (if pending s then 1 else 0) + issues [inp] [fst (cr_step issue respond revoke other inp s)]"
  using assms issue_pending accept_pending accept_consumes respond_pending revoke_pending other_pending
  by (cases inp) (auto simp: cr_step_def)

lemma accepts_le_issues:
  "invar s \<Longrightarrow>
    accepts inps (fst (run (cr_step issue respond revoke other) inps s))
      \<le> (if pending s then 1 else 0) + issues inps (fst (run (cr_step issue respond revoke other) inps s))"
proof (induction inps arbitrary: s)
  case (Cons inp inps)
  let ?t = "snd (cr_step issue respond revoke other inp s)"
  let ?outs = "fst (run (cr_step issue respond revoke other) inps ?t)"
  let ?o = "fst (cr_step issue respond revoke other inp s)"
  have "accepts inps ?outs \<le> (if pending ?t then 1 else 0) + issues inps ?outs"
    using Cons.IH Cons.prems invar_step by blast
  moreover have "accepts (inp # inps) (?o # ?outs) = accepts [inp] [?o] + accepts inps ?outs"
    "issues (inp # inps) (?o # ?outs) = issues [inp] [?o] + issues inps ?outs"
    by (cases inp; simp)+
  ultimately show ?case using step_accounting [OF Cons.prems, of inp] by simp
qed simp

lemma step_granted:
  assumes "invar s" "granted (snd (cr_step issue respond revoke other inp s))"
  shows "granted s \<or> accepts [inp] [fst (cr_step issue respond revoke other inp s)] = 1"
  using assms issue_granted reject_granted revoke_granted other_granted
  by (cases inp) (auto simp: cr_step_def)

lemma granted_needs_accept:
  "invar s \<Longrightarrow> \<not> granted s \<Longrightarrow> granted (snd (run (cr_step issue respond revoke other) inps s)) \<Longrightarrow>
    0 < accepts inps (fst (run (cr_step issue respond revoke other) inps s))"
proof (induction inps arbitrary: s)
  case (Cons inp inps)
  let ?t = "snd (cr_step issue respond revoke other inp s)"
  show ?case
  proof (cases "granted ?t")
    case True
    with step_granted Cons.prems show ?thesis by (cases inp) fastforce+
  next
    case False
    with Cons.IH [of ?t] Cons.prems invar_step show ?thesis by (cases inp) auto
  qed
qed simp

text \<open>After \<open>revoke\<close> there is no access without a new challenge that was answered.\<close>

lemma revoked_needs_issue:
  assumes "invar s" "granted (snd (run (cr_step issue respond revoke other) inps (revoke s)))"
  shows "0 < issues inps (fst (run (cr_step issue respond revoke other) inps (revoke s)))"
  using granted_needs_accept [OF invar_revoke [OF assms(1)] revoke_granted [OF assms(1)] assms(2)]
    accepts_le_issues [OF invar_revoke [OF assms(1)], of inps] revoke_pending [OF assms(1)]
  by simp

end

end
