(* ===== verification/Security_Access.thy ===== *)
theory Security_Access
  imports Session Crypto_Backend Challenge_Response "HOL-Library.AList"
begin

text \<open>
  Service 0x27, \<open>sim/core/security_access.py\<close>: requestSeed and sendKey with per-level attempt
  counters, the delay after a failure and the lockout.

  The handler is the record \<open>sa\<close>; the session machine it shares with the ECU is passed and
  returned next to it. A dictionary whose entries are read only with \<open>.get\<close> and may hold
  \<open>None\<close> is a map in which \<open>None\<close> and a missing key coincide; \<open>_attempt_counters\<close>, which
  is also read with \<open>[]\<close>, keeps its keys, and reading a missing one raises \<open>KeyError\<close>.
\<close>

section \<open>State\<close>

datatype level_cfg =
    is_request_seed: RequestSeedCfg (lc_required_session: int) (lc_access_level: string)
      (lc_send_key_subfunction: int) (lc_algorithm: string) (lc_shared_secret: string)
  | is_send_key: SendKeyCfg (lc_required_session: int) (lc_access_level: string)
      (lc_request_seed_subfunction: int) (lc_algorithm: string) (lc_shared_secret: string)

type_synonym levels = "(int \<times> level_cfg) list"

record sa =
  sa_challenge_size :: nat
  sa_levels :: levels
  sa_max_attempts :: int
  sa_required_delay :: seconds
  sa_lockout_duration :: seconds
  sa_pending_seeds :: "int \<rightharpoonup> bytes"
  sa_granted :: "string option"
  sa_attempts :: "string \<rightharpoonup> int"
  sa_lockout_until :: "string \<rightharpoonup> seconds"
  sa_last_fail_at :: "string \<rightharpoonup> seconds"

definition session_name_to_id :: "string \<rightharpoonup> int" where
  "session_name_to_id =
     [''default'' \<mapsto> DEFAULT, ''extended'' \<mapsto> EXTENDED, ''programming'' \<mapsto> PROGRAMMING]"

fun parse_levels :: "(string \<times> level_policy) list \<Rightarrow> levels \<Rightarrow> exn + levels" where
  "parse_levels [] levels = Inr levels"
| "parse_levels ((_, cfg) # ps) levels =
     (case py_int (lp_request_seed_subfunction cfg) 16 of
        Inl e \<Rightarrow> Inl e
      | Inr req_sf \<Rightarrow>
     (case py_int (lp_send_key_subfunction cfg) 16 of
        Inl e \<Rightarrow> Inl e
      | Inr send_sf \<Rightarrow>
     (case session_name_to_id (lp_required_session cfg) of
        None \<Rightarrow> Inl (KeyError (lp_required_session cfg))
      | Some req_sess \<Rightarrow>
          (let access = lp_grants_access_level cfg;
               levels = AList.update req_sf (RequestSeedCfg req_sess access send_sf
                 (lp_algorithm cfg) (lp_shared_secret_default_sim cfg)) levels;
               levels = AList.update send_sf (SendKeyCfg req_sess access req_sf
                 (lp_algorithm cfg) (lp_shared_secret_default_sim cfg)) levels
           in parse_levels ps levels))))"

definition send_key_access_levels :: "levels \<Rightarrow> string list" where
  "send_key_access_levels levels = [lc_access_level cfg. (_, cfg) \<leftarrow> levels, is_send_key cfg]"

definition security_access_init ::
  "policy \<Rightarrow> seconds option \<Rightarrow> seconds option \<Rightarrow> exn + sa" where
  "security_access_init policy required_delay_seconds lockout_duration_seconds =
     (case parse_levels (pol_levels policy) [] of
        Inl e \<Rightarrow> Inl e
      | Inr levels \<Rightarrow>
          Inr \<lparr>sa_challenge_size = pol_challenge_size_bytes policy,
               sa_levels = levels,
               sa_max_attempts = pol_max_auth_attempts policy,
               sa_required_delay = (case required_delay_seconds of
                   Some d \<Rightarrow> d | None \<Rightarrow> of_int (pol_required_delay_seconds policy)),
               sa_lockout_duration = (case lockout_duration_seconds of
                   Some d \<Rightarrow> d | None \<Rightarrow> of_int (pol_lockout_duration_seconds policy)),
               sa_pending_seeds = Map.empty,
               sa_granted = None,
               sa_attempts = map_of (map (\<lambda>lv. (lv, 0)) (send_key_access_levels levels)),
               sa_lockout_until = Map.empty,
               sa_last_fail_at = Map.empty\<rparr>)"

section \<open>Operations\<close>

definition attempt_counter :: "string \<Rightarrow> sa \<Rightarrow> int" where
  "attempt_counter access_level s =
     (case sa_attempts s access_level of Some n \<Rightarrow> n | None \<Rightarrow> 0)"

definition clear_access :: "sa \<Rightarrow> sa" where
  "clear_access s = s\<lparr>sa_granted := None, sa_pending_seeds := Map.empty\<rparr>"

definition check_rate_limit ::
  "string \<Rightarrow> sa \<Rightarrow> session_sm \<Rightarrow> (bool \<times> int option) \<times> sa \<times> session_sm" where
  "check_rate_limit access_level s sm =
     (let (now, sm) = monotonic sm;
          lockout_until = sa_lockout_until s access_level in
      if lockout_until \<noteq> None \<and> now < the lockout_until then ((True, Some 0x36), s, sm)
      else
        let s = (if lockout_until \<noteq> None
                 then s\<lparr>sa_lockout_until := (sa_lockout_until s)(access_level := None),
                        sa_attempts := (sa_attempts s)(access_level \<mapsto> 0),
                        sa_last_fail_at := (sa_last_fail_at s)(access_level := None)\<rparr>
                 else s);
            last_fail = sa_last_fail_at s access_level in
        if last_fail \<noteq> None \<and> now - the last_fail < sa_required_delay s
        then ((True, Some 0x37), s, sm)
        else ((False, None), s, sm))"

definition request_seed ::
  "int \<Rightarrow> sa \<Rightarrow> session_sm \<Rightarrow> (bool \<times> bytes option \<times> int option) \<times> sa \<times> session_sm" where
  "request_seed subfunction s sm =
     (case map_of (sa_levels s) subfunction of
        None \<Rightarrow> ((False, None, Some 0x22), s, sm)
      | Some cfg \<Rightarrow>
          if \<not> is_request_seed cfg then ((False, None, Some 0x22), s, sm)
          else let (cur, sm) = current sm in
            if cur \<noteq> lc_required_session cfg then ((False, None, Some 0x22), s, sm)
            else let ((blocked, nrc), s, sm) = check_rate_limit (lc_access_level cfg) s sm in
              if blocked then ((False, None, nrc), s, sm)
              else
                let (seed, sm) = generate_seed (sa_challenge_size s) sm;
                    s = s\<lparr>sa_pending_seeds := (sa_pending_seeds s)(subfunction \<mapsto> seed)\<rparr>;
                    sm = touch sm
                in ((True, Some seed, None), s, sm))"

definition record_failure :: "string \<Rightarrow> sa \<Rightarrow> session_sm \<Rightarrow> (exn + int) \<times> sa \<times> session_sm" where
  "record_failure access_level s sm =
     (case sa_attempts s access_level of
        None \<Rightarrow> (Inl (KeyError access_level), s, sm)
      | Some n \<Rightarrow>
          let s = s\<lparr>sa_attempts := (sa_attempts s)(access_level \<mapsto> n + 1)\<rparr>;
              (now, sm) = monotonic sm;
              s = s\<lparr>sa_last_fail_at := (sa_last_fail_at s)(access_level \<mapsto> now)\<rparr> in
          if n + 1 \<ge> sa_max_attempts s then
            let (now, sm) = monotonic sm;
                s = s\<lparr>sa_lockout_until :=
                        (sa_lockout_until s)(access_level \<mapsto> now + sa_lockout_duration s)\<rparr>
            in (Inr 0x35, s, sm)
          else (Inr 0x35, s, sm))"

definition record_success :: "string \<Rightarrow> sa \<Rightarrow> sa" where
  "record_success access_level s =
     s\<lparr>sa_attempts := (sa_attempts s)(access_level \<mapsto> 0),
       sa_last_fail_at := (sa_last_fail_at s)(access_level := None),
       sa_lockout_until := (sa_lockout_until s)(access_level := None)\<rparr>"

definition send_key ::
  "int \<Rightarrow> bytes \<Rightarrow> sa \<Rightarrow> session_sm \<Rightarrow>
    (exn + (bool \<times> string option \<times> int option)) \<times> sa \<times> session_sm" where
  "send_key subfunction key_bytes s sm =
     (case map_of (sa_levels s) subfunction of
        None \<Rightarrow> (Inr (False, None, Some 0x22), s, sm)
      | Some cfg \<Rightarrow>
          if \<not> is_send_key cfg then (Inr (False, None, Some 0x22), s, sm)
          else let (cur, sm) = current sm in
            if cur \<noteq> lc_required_session cfg then (Inr (False, None, Some 0x22), s, sm)
            else let req_seed_sf = lc_request_seed_subfunction cfg in
              (case sa_pending_seeds s req_seed_sf of
                 None \<Rightarrow> (Inr (False, None, Some 0x24), s, sm)
               | Some pending_seed \<Rightarrow>
                   let expected = compute_key_hmac_sha256 pending_seed (lc_shared_secret cfg);
                       s = s\<lparr>sa_pending_seeds := (sa_pending_seeds s)(req_seed_sf := None)\<rparr> in
                   if \<not> constant_time_compare key_bytes expected then
                     (case record_failure (lc_access_level cfg) s sm of
                        (Inl e, s, sm) \<Rightarrow> (Inl e, s, sm)
                      | (Inr nrc, s, sm) \<Rightarrow> (Inr (False, None, Some nrc), s, sm))
                   else
                     let s = record_success (lc_access_level cfg) s;
                         s = s\<lparr>sa_granted := Some (lc_access_level cfg)\<rparr>;
                         sm = touch sm
                     in (Inr (True, Some (lc_access_level cfg), None), s, sm)))"

lemmas sa_defs [handler_defs] = attempt_counter_def clear_access_def check_rate_limit_def
  request_seed_def record_failure_def record_success_def send_key_def generate_seed_def
  constant_time_compare_def

section \<open>The branches of the operations\<close>

text \<open>\<open>unlock\<close> is the reset that an expired lockout causes.\<close>

definition locked :: "string \<Rightarrow> sa \<Rightarrow> seconds \<Rightarrow> bool" where
  "locked lv s t \<longleftrightarrow> (case sa_lockout_until s lv of Some u \<Rightarrow> t < u | None \<Rightarrow> False)"

definition unlock :: "string \<Rightarrow> sa \<Rightarrow> sa" where
  "unlock lv s =
     (if sa_lockout_until s lv = None then s
      else s\<lparr>sa_lockout_until := (sa_lockout_until s)(lv := None),
             sa_attempts := (sa_attempts s)(lv \<mapsto> 0),
             sa_last_fail_at := (sa_last_fail_at s)(lv := None)\<rparr>)"

definition delayed :: "string \<Rightarrow> sa \<Rightarrow> seconds \<Rightarrow> bool" where
  "delayed lv s t \<longleftrightarrow>
     (case sa_last_fail_at s lv of Some f \<Rightarrow> t - f < sa_required_delay s | None \<Rightarrow> False)"

lemma check_rate_limit_eq:
  "check_rate_limit lv s sm =
     (if locked lv s (next_time sm) then ((True, Some 0x36), s, snd (monotonic sm))
      else ((delayed lv (unlock lv s) (next_time sm),
             if delayed lv (unlock lv s) (next_time sm) then Some 0x37 else None),
            unlock lv s, snd (monotonic sm)))"
  by (auto simp: check_rate_limit_def locked_def unlock_def delayed_def Let_def case_prod_unfold
      split: option.splits)

lemma unlock_simps [simp]:
  "sa_challenge_size (unlock lv s) = sa_challenge_size s"
  "sa_levels (unlock lv s) = sa_levels s"
  "sa_max_attempts (unlock lv s) = sa_max_attempts s"
  "sa_required_delay (unlock lv s) = sa_required_delay s"
  "sa_lockout_duration (unlock lv s) = sa_lockout_duration s"
  "sa_pending_seeds (unlock lv s) = sa_pending_seeds s"
  "sa_granted (unlock lv s) = sa_granted s"
  by (simp_all add: unlock_def)

lemma request_seed_gated:
  assumes "map_of (sa_levels s) sf = Some cfg" "is_request_seed cfg"
    "live_session sm = lc_required_session cfg"
  shows "request_seed sf s sm =
    (let lv = lc_access_level cfg; sm = check_timeout sm; t = next_time sm; sm = snd (monotonic sm) in
     if locked lv s t then ((False, None, Some 0x36), s, sm)
     else if delayed lv (unlock lv s) t then ((False, None, Some 0x37), unlock lv s, sm)
     else let (seed, sm) = os_urandom (sa_challenge_size s) sm in
       ((True, Some seed, None),
        (unlock lv s)\<lparr>sa_pending_seeds := (sa_pending_seeds s)(sf \<mapsto> seed)\<rparr>, touch sm))"
  using assms
  by (simp add: request_seed_def current_def Let_def check_rate_limit_eq generate_seed_def)

lemma request_seed_refused:
  assumes "\<nexists>cfg. map_of (sa_levels s) sf = Some cfg \<and> is_request_seed cfg \<and>
    live_session sm = lc_required_session cfg"
  shows "\<exists>sm'. request_seed sf s sm = ((False, None, Some 0x22), s, sm') \<and>
    (sm' = sm \<or> sm' = check_timeout sm)"
  using assms by (auto simp: request_seed_def current_def Let_def split: option.splits)

lemma request_seed_elim:
  assumes "request_seed sf s sm = (res, s', sm')"
  obtains
    (refused) "res = (False, None, Some 0x22)" "s' = s" "sm' = sm \<or> sm' = check_timeout sm"
  | (locked_out) cfg where "map_of (sa_levels s) sf = Some cfg" "is_request_seed cfg"
      "live_session sm = lc_required_session cfg"
      "locked (lc_access_level cfg) s (next_time (check_timeout sm))"
      "res = (False, None, Some 0x36)" "s' = s" "sm' = snd (monotonic (check_timeout sm))"
  | (too_early) cfg where "map_of (sa_levels s) sf = Some cfg" "is_request_seed cfg"
      "live_session sm = lc_required_session cfg"
      "\<not> locked (lc_access_level cfg) s (next_time (check_timeout sm))"
      "delayed (lc_access_level cfg) (unlock (lc_access_level cfg) s) (next_time (check_timeout sm))"
      "res = (False, None, Some 0x37)" "s' = unlock (lc_access_level cfg) s"
      "sm' = snd (monotonic (check_timeout sm))"
  | (issued) cfg seed sm1 where "map_of (sa_levels s) sf = Some cfg" "is_request_seed cfg"
      "live_session sm = lc_required_session cfg"
      "\<not> locked (lc_access_level cfg) s (next_time (check_timeout sm))"
      "\<not> delayed (lc_access_level cfg) (unlock (lc_access_level cfg) s) (next_time (check_timeout sm))"
      "os_urandom (sa_challenge_size s) (snd (monotonic (check_timeout sm))) = (seed, sm1)"
      "res = (True, Some seed, None)" "sm' = touch sm1"
      "s' = (unlock (lc_access_level cfg) s)
              \<lparr>sa_pending_seeds := (sa_pending_seeds s)(sf \<mapsto> seed)\<rparr>"
proof (cases "\<exists>cfg. map_of (sa_levels s) sf = Some cfg \<and> is_request_seed cfg \<and>
    live_session sm = lc_required_session cfg")
  case False
  with assms request_seed_refused [OF False] refused show ?thesis by auto
next
  case True
  then obtain cfg where cfg: "map_of (sa_levels s) sf = Some cfg" "is_request_seed cfg"
    "live_session sm = lc_required_session cfg" by blast
  obtain seed sm1 where seed:
    "os_urandom (sa_challenge_size s) (snd (monotonic (check_timeout sm))) = (seed, sm1)"
    by fastforce
  note eq = assms [unfolded request_seed_gated [OF cfg] Let_def seed prod.case]
  show ?thesis
    using eq locked_out [OF cfg] too_early [OF cfg] issued [OF cfg _ _ seed]
    by (auto split: if_splits)
qed

lemma send_key_elim:
  assumes "send_key sf key s sm = (res, s', sm')"
  obtains
    (refused) nrc where "res = Inr (False, None, Some nrc)" "nrc = 0x22 \<or> nrc = 0x24" "s' = s"
      "sm' = sm \<or> sm' = check_timeout sm"
  | (failed) cfg seed r where "map_of (sa_levels s) sf = Some cfg" "is_send_key cfg"
      "live_session sm = lc_required_session cfg"
      "sa_pending_seeds s (lc_request_seed_subfunction cfg) = Some seed"
      "key \<noteq> compute_key_hmac_sha256 seed (lc_shared_secret cfg)"
      "record_failure (lc_access_level cfg)
         (s\<lparr>sa_pending_seeds := (sa_pending_seeds s)(lc_request_seed_subfunction cfg := None)\<rparr>)
         (check_timeout sm) = (r, s', sm')"
      "res = map_sum id (\<lambda>nrc. (False, None, Some nrc)) r"
  | (accepted) cfg seed where "map_of (sa_levels s) sf = Some cfg" "is_send_key cfg"
      "live_session sm = lc_required_session cfg"
      "sa_pending_seeds s (lc_request_seed_subfunction cfg) = Some seed"
      "key = compute_key_hmac_sha256 seed (lc_shared_secret cfg)"
      "res = Inr (True, Some (lc_access_level cfg), None)" "sm' = touch (check_timeout sm)"
      "s' = (record_success (lc_access_level cfg)
              (s\<lparr>sa_pending_seeds := (sa_pending_seeds s)(lc_request_seed_subfunction cfg := None)\<rparr>))
            \<lparr>sa_granted := Some (lc_access_level cfg)\<rparr>"
proof (cases "map_of (sa_levels s) sf")
  case None
  with assms refused show ?thesis by (auto simp: send_key_def)
next
  case (Some cfg)
  note eq = assms [unfolded send_key_def Some option.case current_def Let_def constant_time_compare_def]
  show ?thesis
  proof (cases "is_send_key cfg \<and> live_session sm = lc_required_session cfg")
    case False
    with eq refused show ?thesis by (auto split: if_splits)
  next
    case True
    show ?thesis
    proof (cases "sa_pending_seeds s (lc_request_seed_subfunction cfg)")
      case None
      with eq True refused show ?thesis by (auto split: if_splits)
    next
      case seed: (Some seed)
      show ?thesis
      proof (cases "key = compute_key_hmac_sha256 seed (lc_shared_secret cfg)")
        case key: True
        show ?thesis using eq True seed key Some accepted by simp
      next
        case key: False
        let ?r = "record_failure (lc_access_level cfg)
          (s\<lparr>sa_pending_seeds := (sa_pending_seeds s)(lc_request_seed_subfunction cfg := None)\<rparr>)
          (check_timeout sm)"
        obtain r s1 sm1 where r: "?r = (r, s1, sm1)" by (cases ?r) auto
        with eq True seed key have "res = map_sum id (\<lambda>nrc. (False, None, Some nrc)) r \<and> s' = s1 \<and> sm' = sm1"
          by (auto split: sum.splits)
        with r True seed key Some failed show ?thesis by simp
      qed
    qed
  qed
qed

text \<open>A key of the pending seed is accepted in the session of its level.\<close>

lemma send_key_honest:
  assumes "map_of (sa_levels s) sf = Some (SendKeyCfg sess lv rs alg sec)" "live_session sm = sess"
    "sa_pending_seeds s rs = Some seed"
  shows "\<exists>s'. send_key sf (compute_key_hmac_sha256 seed sec) s sm =
    (Inr (True, Some lv, None), s', touch (check_timeout sm)) \<and> sa_granted s' = Some lv"
  using assms by (simp add: send_key_def current_def constant_time_compare_def Let_def record_success_def)


section \<open>The handler invariant\<close>

text \<open>
  A level table is well formed when its entries come in pairs that name each other and
  agree on session, level and secret, and no two pairs grant the same level.
\<close>

definition wf_levels :: "levels \<Rightarrow> bool" where
  "wf_levels ls \<longleftrightarrow>
     (\<forall>(sf, cfg) \<in> set ls. map_of ls sf = Some cfg \<and>
        (case cfg of
           RequestSeedCfg sess lv ss alg sec \<Rightarrow> map_of ls ss = Some (SendKeyCfg sess lv sf alg sec)
         | SendKeyCfg sess lv rs alg sec \<Rightarrow> map_of ls rs = Some (RequestSeedCfg sess lv sf alg sec))) \<and>
     (\<forall>(sf, cfg) \<in> set ls. \<forall>(sf', cfg') \<in> set ls.
        is_send_key cfg \<longrightarrow> is_send_key cfg' \<longrightarrow> lc_access_level cfg = lc_access_level cfg' \<longrightarrow> sf = sf')"

lemma wf_levels_send:
  "wf_levels ls \<Longrightarrow> map_of ls ss = Some (SendKeyCfg sess lv rs alg sec) \<Longrightarrow>
    map_of ls rs = Some (RequestSeedCfg sess lv ss alg sec)"
  by (drule map_of_SomeD) (fastforce simp: wf_levels_def)

lemma wf_levels_request:
  "wf_levels ls \<Longrightarrow> map_of ls rs = Some (RequestSeedCfg sess lv ss alg sec) \<Longrightarrow>
    map_of ls ss = Some (SendKeyCfg sess lv rs alg sec)"
  by (drule map_of_SomeD) (fastforce simp: wf_levels_def)

lemma wf_levels_unique:
  "wf_levels ls \<Longrightarrow> map_of ls ss = Some (SendKeyCfg sess lv rs alg sec) \<Longrightarrow>
    map_of ls ss' = Some (SendKeyCfg sess' lv rs' alg' sec') \<Longrightarrow> ss = ss'"
  by (drule map_of_SomeD, drule map_of_SomeD) (fastforce simp: wf_levels_def)

lemma wf_levels_level_inj:
  assumes "wf_levels ls" "map_of ls rs = Some (RequestSeedCfg sess lv ss alg sec)"
    "map_of ls rs' = Some (RequestSeedCfg sess' lv ss' alg' sec')"
  shows "rs = rs'"
proof -
  have "map_of ls ss = Some (SendKeyCfg sess lv rs alg sec)"
    "map_of ls ss' = Some (SendKeyCfg sess' lv rs' alg' sec')"
    using assms wf_levels_request by blast+
  with wf_levels_unique [OF assms(1)] show ?thesis by force
qed

text \<open>
  The counters stay within the limit, a level is locked exactly when its counter has reached
  the limit, and a locked level has no seed outstanding.
\<close>

definition sa_inv :: "sa \<Rightarrow> bool" where
  "sa_inv s \<longleftrightarrow>
     wf_levels (sa_levels s) \<and> 1 \<le> sa_max_attempts s \<and>
     (\<forall>ss sess lv rs alg sec. map_of (sa_levels s) ss = Some (SendKeyCfg sess lv rs alg sec) \<longrightarrow>
        sa_attempts s lv \<noteq> None) \<and>
     (\<forall>lv n. sa_attempts s lv = Some n \<longrightarrow> 0 \<le> n \<and> n \<le> sa_max_attempts s) \<and>
     (\<forall>lv. sa_attempts s lv = Some (sa_max_attempts s) \<longleftrightarrow> sa_lockout_until s lv \<noteq> None) \<and>
     (\<forall>rs sess lv ss alg sec. map_of (sa_levels s) rs = Some (RequestSeedCfg sess lv ss alg sec) \<longrightarrow>
        sa_lockout_until s lv \<noteq> None \<longrightarrow> sa_pending_seeds s rs = None)"

lemma sa_invD:
  assumes "sa_inv s"
  shows "wf_levels (sa_levels s)" "1 \<le> sa_max_attempts s"
    "map_of (sa_levels s) ss = Some (SendKeyCfg sess lv rs alg sec) \<Longrightarrow> \<exists>n. sa_attempts s lv = Some n"
    "sa_attempts s lv' = Some n \<Longrightarrow> 0 \<le> n \<and> n \<le> sa_max_attempts s"
    "sa_attempts s lv' = Some (sa_max_attempts s) \<longleftrightarrow> sa_lockout_until s lv' \<noteq> None"
    "map_of (sa_levels s) rs = Some (RequestSeedCfg sess lv ss alg sec) \<Longrightarrow>
      sa_lockout_until s lv \<noteq> None \<Longrightarrow> sa_pending_seeds s rs = None"
  using assms unfolding sa_inv_def by blast+

lemma record_failure_eq:
  assumes "sa_attempts s lv = Some n"
  shows "record_failure lv s sm =
    (let t = next_time sm; sm1 = snd (monotonic sm);
         s1 = s\<lparr>sa_attempts := (sa_attempts s)(lv \<mapsto> n + 1),
                sa_last_fail_at := (sa_last_fail_at s)(lv \<mapsto> t)\<rparr>
     in if sa_max_attempts s \<le> n + 1
        then (Inr 0x35, s1\<lparr>sa_lockout_until := (sa_lockout_until s)
                 (lv \<mapsto> next_time sm1 + sa_lockout_duration s)\<rparr>, snd (monotonic sm1))
        else (Inr 0x35, s1, sm1))"
  using assms by (simp add: record_failure_def Let_def case_prod_unfold)

text \<open>Under the invariant a rejected key never raises; this is the state it leaves.\<close>

lemma send_key_failed_state:
  assumes inv: "sa_inv s" and cfg: "map_of (sa_levels s) sf = Some (SendKeyCfg sess lv rs alg sec)"
    and seed: "sa_pending_seeds s rs = Some seed"
    and rf: "record_failure lv (s\<lparr>sa_pending_seeds := (sa_pending_seeds s)(rs := None)\<rparr>) sm = (r, s', sm')"
  shows "r = Inr 0x35 \<and> advances sm sm' \<and> sm_session sm' = sm_session sm \<and>
    sm_allowed sm' = sm_allowed sm \<and> sm_timeout sm' = sm_timeout sm \<and>
    (\<exists>n. sa_attempts s lv = Some n \<and> n < sa_max_attempts s \<and>
      s' = s\<lparr>sa_pending_seeds := (sa_pending_seeds s)(rs := None),
             sa_attempts := (sa_attempts s)(lv \<mapsto> n + 1),
             sa_last_fail_at := (sa_last_fail_at s)(lv \<mapsto> next_time sm),
             sa_lockout_until := (if n + 1 = sa_max_attempts s
               then (sa_lockout_until s)(lv \<mapsto> next_time (snd (monotonic sm)) + sa_lockout_duration s)
               else sa_lockout_until s)\<rparr>)"
proof -
  have rs: "map_of (sa_levels s) rs = Some (RequestSeedCfg sess lv sf alg sec)"
    using wf_levels_send [OF sa_invD(1) [OF inv] cfg] .
  obtain n where n: "sa_attempts s lv = Some n" using sa_invD(3) [OF inv cfg] by blast
  have "sa_lockout_until s lv = None" using sa_invD(6) [OF inv rs] seed by (metis option.discI)
  with n sa_invD(4,5) [OF inv] have lt: "n < sa_max_attempts s"
    by (metis order_le_imp_less_or_eq)
  have adv: "advances sm (snd (monotonic (snd (monotonic sm))))"
    by (meson advances_trans monotonic_simps(2))
  have eqv: "sa_max_attempts s \<le> n + 1 \<longleftrightarrow> n + 1 = sa_max_attempts s" using lt by auto
  show ?thesis
    using rf n lt adv by (cases "n + 1 = sa_max_attempts s") (auto simp: record_failure_eq Let_def eqv)
qed

lemma sa_inv_unlock: "sa_inv s \<Longrightarrow> sa_inv (unlock lv s)"
  by (auto simp: unlock_def sa_inv_def)

lemma sa_inv_clear [simp]: "sa_inv s \<Longrightarrow> sa_inv (clear_access s)"
  by (simp add: clear_access_def sa_inv_def)

lemma sa_inv_request_seed: "sa_inv s \<Longrightarrow> sa_inv (fst (snd (request_seed sf s sm)))"
proof -
  assume inv: "sa_inv s"
  obtain res s' sm' where eq: "request_seed sf s sm = (res, s', sm')" by (cases "request_seed sf s sm") auto
  from eq have "sa_inv s'"
  proof (cases rule: request_seed_elim)
    case (issued cfg seed sm1)
    let ?u = "unlock (lc_access_level cfg) s"
    have u: "sa_inv ?u" using inv by (rule sa_inv_unlock)
    obtain sess lv ss alg sec where cfg: "cfg = RequestSeedCfg sess lv ss alg sec"
      using issued(2) by (cases cfg) auto
    have "sa_lockout_until ?u lv = None" by (simp add: unlock_def cfg)
    then show ?thesis using u issued(1) cfg
      by (auto simp: issued(9) sa_inv_def)
  qed (auto simp: inv sa_inv_unlock)
  with eq show ?thesis by simp
qed

lemma sa_inv_send_key: "sa_inv s \<Longrightarrow> sa_inv (fst (snd (send_key sf key s sm)))"
proof -
  assume inv: "sa_inv s"
  obtain res s' sm' where eq: "send_key sf key s sm = (res, s', sm')" by (cases "send_key sf key s sm") auto
  from eq have "sa_inv s'"
  proof (cases rule: send_key_elim)
    case (failed cfg seed r)
    obtain sess lv rs alg sec where cfg: "cfg = SendKeyCfg sess lv rs alg sec"
      using failed(2) by (cases cfg) auto
    have m: "map_of (sa_levels s) sf = Some (SendKeyCfg sess lv rs alg sec)" using failed(1) cfg by simp
    have rs: "rs' = rs" if "map_of (sa_levels s) rs' = Some (RequestSeedCfg sess' lv ss' alg' sec')"
      for rs' sess' ss' alg' sec'
      using wf_levels_level_inj [OF sa_invD(1) [OF inv] that wf_levels_send [OF sa_invD(1) [OF inv] m]] .
    have "sa_pending_seeds s rs = Some seed" using failed(4) cfg by simp
    from send_key_failed_state [OF inv m this, of "check_timeout sm" r s' sm'] failed(6) cfg
    obtain n where n: "sa_attempts s lv = Some n" "n < sa_max_attempts s"
      and s': "s' = s\<lparr>sa_pending_seeds := (sa_pending_seeds s)(rs := None),
             sa_attempts := (sa_attempts s)(lv \<mapsto> n + 1),
             sa_last_fail_at := (sa_last_fail_at s)(lv \<mapsto> next_time (check_timeout sm)),
             sa_lockout_until := (if n + 1 = sa_max_attempts s
               then (sa_lockout_until s)(lv \<mapsto> next_time (snd (monotonic (check_timeout sm))) + sa_lockout_duration s)
               else sa_lockout_until s)\<rparr>"
      by auto
    have "sa_lockout_until s lv = None" "0 \<le> n"
      using sa_invD(4,5) [OF inv, of lv] n by auto
    then show ?thesis
    proof (cases "n + 1 = sa_max_attempts s")
      case True
      then have "n = sa_max_attempts s - 1" by simp
      then show ?thesis using inv n(1) rs by (simp add: s' sa_inv_def) blast
    next
      case False
      with n(2) have "n + 1 < sa_max_attempts s" by simp
      with \<open>0 \<le> n\<close> \<open>sa_lockout_until s lv = None\<close> False show ?thesis
        using inv n(1) rs by (simp add: s' sa_inv_def) (use \<open>0 \<le> n\<close> n(2) in linarith)
    qed
  next
    case (accepted cfg seed)
    then show ?thesis using inv by (auto simp: sa_inv_def record_success_def)
  qed (auto simp: inv)
  with eq show ?thesis by simp
qed

section \<open>What the operations leave alone\<close>

text \<open>The configuration is fixed, and the session machine is only read, timed out and touched.\<close>

definition same_config :: "sa \<Rightarrow> sa \<Rightarrow> bool" where
  "same_config s s' \<longleftrightarrow> sa_levels s' = sa_levels s \<and> sa_max_attempts s' = sa_max_attempts s \<and>
     sa_required_delay s' = sa_required_delay s \<and> sa_lockout_duration s' = sa_lockout_duration s \<and>
     sa_challenge_size s' = sa_challenge_size s"

definition session_used :: "session_sm \<Rightarrow> session_sm \<Rightarrow> bool" where
  "session_used sm sm' \<longleftrightarrow> session_le sm sm' \<and>
     (sm_session sm' = sm_session sm \<or> sm_session sm' = live_session sm)"

lemma session_used_simps [simp]:
  "session_used sm sm"
  "session_used sm (check_timeout sm)"
  "session_used sm (snd (monotonic (check_timeout sm)))"
  "session_used sm (touch (check_timeout sm))"
  by (auto simp: session_used_def session_le_def
      intro: advances_trans [OF check_timeout_simps(5) monotonic_simps(2)])

lemma session_used_valid [intro]: "session_used sm sm' \<Longrightarrow> valid_session sm \<Longrightarrow> valid_session sm'"
  using valid_live by (auto simp: session_used_def valid_session_def)

lemma request_seed_frame:
  "same_config s (fst (snd (request_seed sf s sm)))"
  "session_used sm (snd (snd (request_seed sf s sm)))"
  "sa_granted (fst (snd (request_seed sf s sm))) = sa_granted s"
proof -
  obtain res s' sm' where eq: "request_seed sf s sm = (res, s', sm')" by (cases "request_seed sf s sm") auto
  from eq have "same_config s s' \<and> session_used sm sm' \<and> sa_granted s' = sa_granted s"
  proof (cases rule: request_seed_elim)
    case (issued cfg seed sm1)
    have "sm1 = snd (os_urandom (sa_challenge_size s) (snd (monotonic (check_timeout sm))))"
      using issued(6) by simp
    then have "session_le sm sm1 \<and> sm_session sm1 = live_session sm"
      using advances_trans [OF advances_trans [OF check_timeout_simps(5) monotonic_simps(2)] os_urandom_simps(1)]
      by (simp add: session_le_def)
    then show ?thesis by (auto simp: issued(8,9) same_config_def session_used_def session_le_def)
  qed (auto simp: same_config_def)
  with eq show "same_config s (fst (snd (request_seed sf s sm)))"
    "session_used sm (snd (snd (request_seed sf s sm)))"
    "sa_granted (fst (snd (request_seed sf s sm))) = sa_granted s" by simp_all
qed

lemma record_failure_frame:
  "record_failure lv s sm = (r, s', sm') \<Longrightarrow>
    same_config s s' \<and> sa_granted s' = sa_granted s \<and> sa_pending_seeds s' = sa_pending_seeds s \<and>
    advances sm sm' \<and> sm_session sm' = sm_session sm \<and> sm_allowed sm' = sm_allowed sm \<and>
    sm_timeout sm' = sm_timeout sm"
  using advances_trans [OF monotonic_simps(2) monotonic_simps(2)]
  by (auto simp: record_failure_def Let_def case_prod_unfold same_config_def split: option.splits if_splits)

lemma send_key_frame:
  "same_config s (fst (snd (send_key sf key s sm)))"
  "session_used sm (snd (snd (send_key sf key s sm)))"
proof -
  obtain res s' sm' where eq: "send_key sf key s sm = (res, s', sm')" by (cases "send_key sf key s sm") auto
  from eq have "same_config s s' \<and> session_used sm sm'"
  proof (cases rule: send_key_elim)
    case (failed cfg seed r)
    from record_failure_frame [OF failed(6)] show ?thesis
      by (auto simp: same_config_def session_used_def session_le_def
          intro: advances_trans [OF check_timeout_simps(5)])
  qed (auto simp: same_config_def record_success_def)
  with eq show "same_config s (fst (snd (send_key sf key s sm)))"
    "session_used sm (snd (snd (send_key sf key s sm)))" by simp_all
qed

lemma send_key_granted:
  assumes "send_key sf key s sm = (res, s', sm')"
  shows "sa_granted s' = (case res of Inr (True, lv, _) \<Rightarrow> lv | _ \<Rightarrow> sa_granted s)"
  using assms
proof (cases rule: send_key_elim)
  case (failed cfg seed r)
  from record_failure_frame [OF failed(6)] failed(7) show ?thesis by (cases r) auto
qed auto

lemma send_key_never_raises: "sa_inv s \<Longrightarrow> \<exists>v. fst (send_key sf key s sm) = Inr v"
proof -
  assume inv: "sa_inv s"
  obtain res s' sm' where eq: "send_key sf key s sm = (res, s', sm')" by (cases "send_key sf key s sm") auto
  from eq have "\<exists>v. res = Inr v"
  proof (cases rule: send_key_elim)
    case (failed cfg seed r)
    then obtain sess lv rs alg sec where cfg: "cfg = SendKeyCfg sess lv rs alg sec" by (cases cfg) auto
    with send_key_failed_state [OF inv, of sf sess lv rs alg sec seed "check_timeout sm" r s' sm'] failed
    have "r = Inr 0x35" by simp
    with failed(7) show ?thesis by auto
  qed auto
  with eq show ?thesis by simp
qed

section \<open>The handler as a machine\<close>

datatype sa_op =
    RequestSeed int
  | SendKey int bytes
  | ClearAccess
  | SessionOp session_op

datatype sa_out =
    SeedOut "bool \<times> bytes option \<times> int option"
  | KeyOut "exn + (bool \<times> string option \<times> int option)"
  | Done

fun sa_step :: "sa_op \<Rightarrow> sa \<times> session_sm \<Rightarrow> sa_out \<times> (sa \<times> session_sm)" where
  "sa_step (RequestSeed sf) (s, sm) = apfst SeedOut (request_seed sf s sm)"
| "sa_step (SendKey sf key) (s, sm) = apfst KeyOut (send_key sf key s sm)"
| "sa_step ClearAccess (s, sm) = (Done, clear_access s, sm)"
| "sa_step (SessionOp op) (s, sm) = (Done, s, snd (session_step op sm))"

definition sa_le :: "sa \<times> session_sm \<Rightarrow> sa \<times> session_sm \<Rightarrow> bool" where
  "sa_le x y \<longleftrightarrow> same_config (fst x) (fst y) \<and> session_le (snd x) (snd y)"

definition handler_inv :: "sa \<times> session_sm \<Rightarrow> bool" where
  "handler_inv x \<longleftrightarrow> sa_inv (fst x) \<and> valid_session (snd x)"

interpretation sa_machine: monotone_machine sa_step handler_inv sa_le
proof unfold_locales
  fix x :: "sa \<times> session_sm" and op
  assume inv: "handler_inv x"
  show "handler_inv (snd (sa_step op x))"
    using inv sess.inv_step session_used_valid [OF request_seed_frame(2)]
      session_used_valid [OF send_key_frame(2)]
    by (cases x; cases op) (auto simp: handler_inv_def sa_inv_request_seed sa_inv_send_key)
next
  fix x :: "sa \<times> session_sm" and op
  assume inv: "handler_inv x"
  then show "sa_le x (snd (sa_step op x))"
    using request_seed_frame send_key_frame sess.rel_step
    by (cases x; cases op)
      (auto simp: sa_le_def session_used_def clear_access_def same_config_def handler_inv_def session_le_def)
qed (auto simp: sa_le_def same_config_def session_le_def intro: advances_trans)

section \<open>The constructor on the policy file\<close>

definition ecu_levels :: levels where
  "ecu_levels =
     [(1, RequestSeedCfg EXTENDED ''CALIBRATION'' 2 ''HMAC-SHA256'' ''sim-calibration-secret-dev-only''),
      (2, SendKeyCfg EXTENDED ''CALIBRATION'' 1 ''HMAC-SHA256'' ''sim-calibration-secret-dev-only''),
      (3, RequestSeedCfg PROGRAMMING ''ECU_PROGRAMMING'' 4 ''HMAC-SHA256'' ''sim-programming-secret-dev-only''),
      (4, SendKeyCfg PROGRAMMING ''ECU_PROGRAMMING'' 3 ''HMAC-SHA256'' ''sim-programming-secret-dev-only'')]"

lemma parse_subfunctions:
  "py_int ''0x01'' 16 = Inr 1" "py_int ''0x02'' 16 = Inr 2"
  "py_int ''0x03'' 16 = Inr 3" "py_int ''0x04'' 16 = Inr 4"
  by (simp_all add: py_int_eval Let_def)

lemma parse_ecu_levels: "parse_levels (pol_levels ecu_policy) [] = Inr ecu_levels"
  by (simp add: policy_simps parse_subfunctions session_name_to_id_def Let_def ecu_levels_def)

lemma wf_ecu_levels: "wf_levels ecu_levels"
  by (simp add: wf_levels_def ecu_levels_def session_ids)

lemma security_access_init_ecu:
  "\<exists>s. security_access_init ecu_policy rd ld = Inr s"
  by (simp add: security_access_init_def parse_ecu_levels)

lemma security_access_init_simps:
  assumes "security_access_init ecu_policy rd ld = Inr s"
  shows "sa_levels s = ecu_levels" "sa_inv s" "sa_granted s = None" "sa_pending_seeds s = Map.empty"
    "sa_max_attempts s = 3" "sa_challenge_size s = 32" "sa_lockout_until s = Map.empty"
    "sa_last_fail_at s = Map.empty"
    "sa_required_delay s = (case rd of Some d \<Rightarrow> d | None \<Rightarrow> 10)"
    "sa_lockout_duration s = (case ld of Some d \<Rightarrow> d | None \<Rightarrow> 3600)"
    "sa_attempts s = [''CALIBRATION'' \<mapsto> 0, ''ECU_PROGRAMMING'' \<mapsto> 0]"
proof -
  note eq = assms [unfolded security_access_init_def parse_ecu_levels sum.case]
  show a: "sa_attempts s = [''CALIBRATION'' \<mapsto> 0, ''ECU_PROGRAMMING'' \<mapsto> 0]"
    using eq by (auto simp: ecu_levels_def send_key_access_levels_def)
  show "sa_levels s = ecu_levels" "sa_granted s = None" "sa_pending_seeds s = Map.empty"
    "sa_max_attempts s = 3" "sa_challenge_size s = 32" "sa_lockout_until s = Map.empty"
    "sa_last_fail_at s = Map.empty"
    "sa_required_delay s = (case rd of Some d \<Rightarrow> d | None \<Rightarrow> 10)"
    "sa_lockout_duration s = (case ld of Some d \<Rightarrow> d | None \<Rightarrow> 3600)"
    using eq by (auto simp: ecu_policy_def split: option.splits)
  then show "sa_inv s"
    using wf_ecu_levels by (auto simp: sa_inv_def a ecu_levels_def split: if_splits)
qed

section \<open>One level as a challenge slot\<close>

text \<open>
  The slot of a level is its seed subfunction \<open>rs\<close> with its access level \<open>lv\<close>. A request for
  any subfunction is an input; it counts as an issue or an acceptance when it concerns
  this level.
\<close>

definition slot_issue :: "int \<Rightarrow> int \<Rightarrow> sa \<times> session_sm \<Rightarrow> bool \<times> (sa \<times> session_sm)" where
  "slot_issue rs sf x =
     (let (res, x') = request_seed sf (fst x) (snd x) in (fst res \<and> sf = rs, x'))"

definition slot_respond ::
  "string \<Rightarrow> int \<times> bytes \<Rightarrow> sa \<times> session_sm \<Rightarrow> bool \<times> (sa \<times> session_sm)" where
  "slot_respond lv r x =
     (let (res, x') = send_key (fst r) (snd r) (fst x) (snd x)
      in (case res of Inr (ok, granted, _) \<Rightarrow> ok \<and> granted = Some lv | Inl _ \<Rightarrow> False, x'))"

definition slot_revoke :: "sa \<times> session_sm \<Rightarrow> sa \<times> session_sm" where
  "slot_revoke x = apfst clear_access x"

definition slot_other :: "session_op \<Rightarrow> sa \<times> session_sm \<Rightarrow> sa \<times> session_sm" where
  "slot_other op x = (fst x, snd (session_step op (snd x)))"

definition slot_inv :: "int \<Rightarrow> string \<Rightarrow> sa \<times> session_sm \<Rightarrow> bool" where
  "slot_inv rs lv x \<longleftrightarrow> sa_inv (fst x) \<and>
     (\<exists>sess ss alg sec. map_of (sa_levels (fst x)) rs = Some (RequestSeedCfg sess lv ss alg sec))"

definition slot_pending :: "int \<Rightarrow> sa \<times> session_sm \<Rightarrow> bool" where
  "slot_pending rs x \<longleftrightarrow> sa_pending_seeds (fst x) rs \<noteq> None"

definition slot_granted :: "string \<Rightarrow> sa \<times> session_sm \<Rightarrow> bool" where
  "slot_granted lv x \<longleftrightarrow> sa_granted (fst x) = Some lv"

lemma request_seed_pending:
  assumes "request_seed sf s sm = (res, s', sm')"
  shows "sa_pending_seeds s' =
    (if fst res then (sa_pending_seeds s)(sf := fst (snd res)) else sa_pending_seeds s)"
  using assms by (cases rule: request_seed_elim) auto

lemma send_key_pending:
  assumes "send_key sf key s sm = (res, s', sm')" "sa_pending_seeds s' rs \<noteq> None"
  shows "sa_pending_seeds s' rs = sa_pending_seeds s rs"
  using assms(1)
proof (cases rule: send_key_elim)
  case (failed cfg seed r)
  with record_failure_frame [OF failed(6)] assms(2) show ?thesis by (auto split: if_splits)
qed (use assms(2) in \<open>auto simp: record_success_def split: if_splits\<close>)

lemma send_key_accepted_slot:
  assumes "send_key sf key s sm = (Inr (True, Some lv, nrc), s', sm')" "sa_inv s"
    "map_of (sa_levels s) rs = Some (RequestSeedCfg sess lv ss alg sec)"
  shows "sf = ss \<and> (\<exists>seed. sa_pending_seeds s rs = Some seed \<and> key = compute_key_hmac_sha256 seed sec)
    \<and> sa_pending_seeds s' rs = None \<and> live_session sm = sess"
  using assms(1)
proof (cases rule: send_key_elim)
  case (failed cfg seed r)
  then show ?thesis by (cases r) auto
next
  case (accepted cfg seed)
  then obtain sess' rs' alg' sec' where cfg: "cfg = SendKeyCfg sess' lv rs' alg' sec'"
    by (cases cfg) auto
  have "map_of (sa_levels s) ss = Some (SendKeyCfg sess lv rs alg sec)"
    using wf_levels_request [OF sa_invD(1) [OF assms(2)] assms(3)] .
  with wf_levels_unique [OF sa_invD(1) [OF assms(2)]] accepted(1) cfg have "sf = ss" by blast
  with accepted cfg \<open>map_of (sa_levels s) ss = _\<close> show ?thesis by (simp add: record_success_def)
qed auto

interpretation sa_slot: challenge_response "slot_issue rs" "slot_respond lv" slot_revoke slot_other
  "slot_pending rs" "slot_granted lv" "slot_inv rs lv" for rs lv
proof unfold_locales
  fix x :: "sa \<times> session_sm" and sf :: int
  assume inv: "slot_inv rs lv x"
  obtain res s' sm' where eq: "request_seed sf (fst x) (snd x) = (res, s', sm')"
    by (cases "request_seed sf (fst x) (snd x)") auto
  note step = slot_issue_def eq Let_def
  show "slot_inv rs lv (snd (slot_issue rs sf x))"
    using inv sa_inv_request_seed [of "fst x" sf "snd x"] request_seed_frame(1) [of "fst x" sf "snd x"]
    by (simp add: slot_inv_def same_config_def step)
  show "fst (slot_issue rs sf x) \<or> slot_pending rs x" if "slot_pending rs (snd (slot_issue rs sf x))"
    using that request_seed_pending [OF eq] by (auto simp: slot_pending_def step split: if_splits)
  show "slot_granted lv x" if "slot_granted lv (snd (slot_issue rs sf x))"
    using that request_seed_frame(3) [of sf "fst x" "snd x"] by (simp add: slot_granted_def step)
next
  fix x :: "sa \<times> session_sm" and r :: "int \<times> bytes"
  assume inv: "slot_inv rs lv x"
  obtain res s' sm' where eq: "send_key (fst r) (snd r) (fst x) (snd x) = (res, s', sm')"
    by (cases "send_key (fst r) (snd r) (fst x) (snd x)") auto
  note step = slot_respond_def eq Let_def
  from inv obtain sess ss alg sec where
    cfg: "map_of (sa_levels (fst x)) rs = Some (RequestSeedCfg sess lv ss alg sec)"
    and si: "sa_inv (fst x)" by (auto simp: slot_inv_def)
  show "slot_inv rs lv (snd (slot_respond lv r x))"
    using inv sa_inv_send_key [of "fst x" "fst r" "snd r" "snd x"]
      send_key_frame(1) [of "fst x" "fst r" "snd r" "snd x"]
    by (simp add: slot_inv_def same_config_def step)
  show "slot_pending rs x" "\<not> slot_pending rs (snd (slot_respond lv r x))"
    if ok: "fst (slot_respond lv r x)"
  proof -
    obtain nrc where "res = Inr (True, Some lv, nrc)"
      using ok by (auto simp: step split: sum.splits)
    from send_key_accepted_slot [OF eq [unfolded this] si cfg]
    have "sa_pending_seeds (fst x) rs \<noteq> None" "sa_pending_seeds s' rs = None" by auto
    then show "slot_pending rs x" "\<not> slot_pending rs (snd (slot_respond lv r x))"
      by (simp_all add: slot_pending_def step)
  qed
  show "slot_pending rs x" if "slot_pending rs (snd (slot_respond lv r x))"
    using that send_key_pending [OF eq] by (auto simp: slot_pending_def step)
  show "slot_granted lv x" if "\<not> fst (slot_respond lv r x)" "slot_granted lv (snd (slot_respond lv r x))"
    using that send_key_granted [OF eq] by (auto simp: slot_granted_def step split: sum.splits bool.splits)
next
  fix x :: "sa \<times> session_sm"
  assume inv: "slot_inv rs lv x"
  then show "slot_inv rs lv (slot_revoke x)" by (simp add: slot_inv_def slot_revoke_def clear_access_def sa_inv_def)
  show "\<not> slot_pending rs (slot_revoke x)" by (simp add: slot_pending_def slot_revoke_def clear_access_def)
  show "\<not> slot_granted lv (slot_revoke x)" by (simp add: slot_granted_def slot_revoke_def clear_access_def)
qed (simp_all add: slot_inv_def slot_other_def slot_pending_def slot_granted_def)

section \<open>Properties\<close>

definition sample_sa :: sa where
  "sample_sa =
     \<lparr>sa_challenge_size = 32, sa_levels = ecu_levels, sa_max_attempts = 3,
      sa_required_delay = 10, sa_lockout_duration = 3600,
      sa_pending_seeds = Map.empty, sa_granted = None,
      sa_attempts = [''CALIBRATION'' \<mapsto> 0, ''ECU_PROGRAMMING'' \<mapsto> 0],
      sa_lockout_until = Map.empty, sa_last_fail_at = Map.empty\<rparr>"

lemma sample_sa_inv [simp]: "sa_inv sample_sa"
  using wf_ecu_levels by (auto simp: sa_inv_def sample_sa_def ecu_levels_def split: if_splits)

lemma sample_sa_simps [simp]:
  "sa_levels sample_sa = ecu_levels" "sa_pending_seeds sample_sa = Map.empty"
  "sa_lockout_until sample_sa = Map.empty" "sa_last_fail_at sample_sa = Map.empty"
  "sa_challenge_size sample_sa = 32" "sa_granted sample_sa = None" "sa_max_attempts sample_sa = 3"
  "sa_required_delay sample_sa = 10" "sa_lockout_duration sample_sa = 3600"
  "sa_attempts sample_sa = [''CALIBRATION'' \<mapsto> 0, ''ECU_PROGRAMMING'' \<mapsto> 0]"
  by (simp_all add: sample_sa_def)

text \<open>When a seed may be handed out: the subfunction is a requestSeed of the table, the live
  session is the level's, no unexpired lockout is set, and the delay since the last
  failure has passed (an expired lockout forgets that failure).\<close>

definition may_request :: "int \<Rightarrow> sa \<Rightarrow> session_sm \<Rightarrow> bool" where
  "may_request sf s sm \<longleftrightarrow>
     (case map_of (sa_levels s) sf of
        Some (RequestSeedCfg sess lv _ _ _) \<Rightarrow>
          live_session sm = sess \<and>
          (let t = next_time (check_timeout sm) in
           case sa_lockout_until s lv of
             Some u \<Rightarrow> u \<le> t
           | None \<Rightarrow> (case sa_last_fail_at s lv of Some f \<Rightarrow> sa_required_delay s \<le> t - f | None \<Rightarrow> True))
      | _ \<Rightarrow> False)"

lemma may_request_cfg:
  "map_of (sa_levels s) sf = Some cfg \<Longrightarrow> is_request_seed cfg \<Longrightarrow>
    live_session sm = lc_required_session cfg \<Longrightarrow>
    may_request sf s sm \<longleftrightarrow>
      \<not> locked (lc_access_level cfg) s (next_time (check_timeout sm)) \<and>
      \<not> delayed (lc_access_level cfg) (unlock (lc_access_level cfg) s) (next_time (check_timeout sm))"
  by (cases cfg)
    (auto simp: may_request_def locked_def delayed_def unlock_def Let_def not_less split: option.splits)

lemma may_request_unless:
  "\<nexists>cfg. map_of (sa_levels s) sf = Some cfg \<and> is_request_seed cfg \<and>
    live_session sm = lc_required_session cfg \<Longrightarrow> \<not> may_request sf s sm"
  by (auto simp: may_request_def split: option.splits level_cfg.splits)

lemma request_seed_ok_iff: "fst (fst (request_seed sf s sm)) \<longleftrightarrow> may_request sf s sm"
proof (cases "\<exists>cfg. map_of (sa_levels s) sf = Some cfg \<and> is_request_seed cfg \<and>
    live_session sm = lc_required_session cfg")
  case True
  then obtain cfg where cfg: "map_of (sa_levels s) sf = Some cfg" "is_request_seed cfg"
    "live_session sm = lc_required_session cfg" by blast
  show ?thesis
    by (simp add: request_seed_gated [OF cfg] may_request_cfg [OF cfg] Let_def case_prod_unfold)
next
  case False
  then show ?thesis using request_seed_refused [OF False] may_request_unless [OF False] by auto
qed

lemma request_seed_ok_state:
  assumes "request_seed sf s sm = ((True, Some seed, None), s', sm')"
  shows "\<exists>cfg. map_of (sa_levels s) sf = Some cfg \<and> is_request_seed cfg \<and>
    live_session sm = lc_required_session cfg \<and>
    s' = (unlock (lc_access_level cfg) s)\<lparr>sa_pending_seeds := (sa_pending_seeds s)(sf \<mapsto> seed)\<rparr> \<and>
    seed = rand_source sm (rand_reads sm) (sa_challenge_size s)"
  using assms
proof (cases rule: request_seed_elim)
  case (issued cfg seed' sm1)
  have "rand_source (snd (monotonic (check_timeout sm))) = rand_source sm"
    "rand_reads (snd (monotonic (check_timeout sm))) = rand_reads sm"
    by (auto simp: monotonic_def check_timeout_def Let_def)
  with issued(1-3,6,7,9) show ?thesis by (auto simp: os_urandom_def)
qed auto

text \<open>C20: requestSeed hands out a seed exactly when \<open>may_request\<close> holds. The seed is the next
  output of \<open>os.urandom\<close> of the policy's size; it becomes the pending seed of this
  subfunction and leaves the pending seeds of every other subfunction and the granted level alone. A
  refused request is answered with 0x22, 0x36 or 0x37 and changes no pending seed.\<close>

theorem request_seed_spec:
  "let ((ok, seed, nrc), s', sm') = request_seed sf s sm in
    (ok \<longleftrightarrow> may_request sf s sm) \<and> sa_granted s' = sa_granted s \<and>
    (if ok
     then nrc = None \<and> seed = Some (rand_source sm (rand_reads sm) (sa_challenge_size s)) \<and>
       sa_pending_seeds s' = (sa_pending_seeds s)(sf := seed)
     else seed = None \<and> nrc \<in> {Some 0x22, Some 0x36, Some 0x37} \<and>
       sa_pending_seeds s' = sa_pending_seeds s)"
proof -
  obtain res s' sm' where eq: "request_seed sf s sm = (res, s', sm')"
    by (cases "request_seed sf s sm") auto
  have ok: "fst res = may_request sf s sm" using request_seed_ok_iff [of sf s sm] eq by simp
  have g: "sa_granted s' = sa_granted s" using request_seed_frame(3) [of sf s sm] eq by simp
  from eq show ?thesis
  proof (cases rule: request_seed_elim)
    case (issued cfg seed sm1)
    with request_seed_ok_state [of sf s sm seed s' sm'] eq ok g show ?thesis by auto
  qed (use eq ok g in auto)
qed

text \<open>a rejected requestSeed says why. 0x36 is answered exactly while the level's lockout
  lasts, 0x37 exactly when there is no lockout in force and the last failure lies less than the
  required delay back, 0x22 in every other refusal, which is when the subfunction is not
  a requestSeed of the table or the live session is not the level's.\<close>

theorem request_seed_refusals:
  assumes "map_of (sa_levels s) sf = Some (RequestSeedCfg sess lv ss alg sec)"
    and "t = next_time (check_timeout sm)"
  shows "let nrc = snd (snd (fst (request_seed sf s sm))) in
    (nrc = Some 0x36 \<longleftrightarrow> live_session sm = sess \<and> (\<exists>u. sa_lockout_until s lv = Some u \<and> t < u)) \<and>
    (nrc = Some 0x37 \<longleftrightarrow> live_session sm = sess \<and> sa_lockout_until s lv = None \<and>
       (\<exists>f. sa_last_fail_at s lv = Some f \<and> t < f + sa_required_delay s)) \<and>
    (nrc = Some 0x22 \<longleftrightarrow> live_session sm \<noteq> sess)"
proof (cases "live_session sm = sess")
  case True
  with assms request_seed_gated [OF assms(1), of sm] show ?thesis
    by (auto simp: Let_def case_prod_unfold locked_def delayed_def unlock_def algebra_simps
        split: option.splits)
next
  case False
  with assms request_seed_refused [of s sf sm] show ?thesis by auto
qed

theorem request_seed_refusals_witness:
  "snd (snd (fst (request_seed 1 (sample_sa\<lparr>sa_lockout_until := [''CALIBRATION'' \<mapsto> 50]\<rparr>) sample_session)))
     = Some 0x36"
  using request_seed_refusals [of "sample_sa\<lparr>sa_lockout_until := [''CALIBRATION'' \<mapsto> 50]\<rparr>" 1
      EXTENDED "''CALIBRATION''" 2 "''HMAC-SHA256''" "''sim-calibration-secret-dev-only''" _ sample_session]
  by (simp add: ecu_levels_def Let_def check_timeout_def sample_session_def sample_world_def
      world.defs session_sm.defs session_ids next_time_def monotonic_def live_session_def expired_def)

text \<open>C18: sendKey grants a level exactly when a seed of that level is pending, the live session is
  the level's and the key is the HMAC-SHA256 of the seed under the level's secret. The seed
  is used up, the counter, the last failure and the lockout of the level are cleared, and those of
  the other levels and their seeds stay.\<close>

theorem send_key_accepts_iff:
  assumes "map_of (sa_levels s) sf = Some (SendKeyCfg sess lv rs alg sec)"
  shows "let (res, s', sm') = send_key sf key s sm in
    ((\<exists>granted nrc. res = Inr (True, granted, nrc)) \<longleftrightarrow>
       live_session sm = sess \<and>
       (\<exists>seed. sa_pending_seeds s rs = Some seed \<and> key = hmac sha256 (encode sec) seed)) \<and>
    ((\<exists>granted nrc. res = Inr (True, granted, nrc)) \<longrightarrow>
       res = Inr (True, Some lv, None) \<and>
       s' = s\<lparr>sa_granted := Some lv, sa_pending_seeds := (sa_pending_seeds s)(rs := None),
              sa_attempts := (sa_attempts s)(lv \<mapsto> 0),
              sa_last_fail_at := (sa_last_fail_at s)(lv := None),
              sa_lockout_until := (sa_lockout_until s)(lv := None)\<rparr> \<and>
       sm' = touch (check_timeout sm))"
proof -
  obtain res s' sm' where eq: "send_key sf key s sm = (res, s', sm')" by (cases "send_key sf key s sm") auto
  from eq show ?thesis
  proof (cases rule: send_key_elim)
    case (refused nrc)
    have "\<not> (live_session sm = sess \<and> (\<exists>seed. sa_pending_seeds s rs = Some seed))"
    proof
      assume "live_session sm = sess \<and> (\<exists>seed. sa_pending_seeds s rs = Some seed)"
      then have "res \<noteq> Inr (False, None, Some nrc)" using eq assms refused(2)
        by (auto simp: send_key_def current_def Let_def record_failure_def case_prod_unfold
            split: option.splits if_splits sum.splits)
      with refused(1) show False by simp
    qed
    with refused(1) eq show ?thesis by auto
  next
    case (failed cfg seed r)
    with assms eq show ?thesis by (cases r) (auto simp: compute_key_hmac_sha256_def)
  next
    case (accepted cfg seed)
    with assms eq show ?thesis by (auto simp: compute_key_hmac_sha256_def record_success_def)
  qed
qed

definition sample_key :: bytes where
  "sample_key = hmac sha256 (encode ''sim-calibration-secret-dev-only'') [1, 2, 3]"

theorem send_key_accepts_iff_witness:
  "fst (send_key 2 sample_key (sample_sa\<lparr>sa_pending_seeds := [1 \<mapsto> [1, 2, 3]]\<rparr>) sample_session)
     = Inr (True, Some ''CALIBRATION'', None) \<and>
   (let (res, s', sm') = send_key 4 sample_key (sample_sa\<lparr>sa_pending_seeds := [1 \<mapsto> [1, 2, 3]]\<rparr>) sample_session
    in \<not> (\<exists>granted nrc. res = Inr (True, granted, nrc)))"
  using send_key_accepts_iff [of "sample_sa\<lparr>sa_pending_seeds := [1 \<mapsto> [1, 2, 3]]\<rparr>" 2 EXTENDED
      "''CALIBRATION''" 1 "''HMAC-SHA256''" "''sim-calibration-secret-dev-only''" sample_key sample_session]
    send_key_accepts_iff [of "sample_sa\<lparr>sa_pending_seeds := [1 \<mapsto> [1, 2, 3]]\<rparr>" 4 PROGRAMMING
      "''ECU_PROGRAMMING''" 3 "''HMAC-SHA256''" "''sim-programming-secret-dev-only''" sample_key sample_session]
  by (auto simp: ecu_levels_def sample_key_def session_ids Let_def case_prod_unfold)

text \<open>C19: a key that does not match the pending seed is answered with 0x35 and never raises. The seed
  is used up, the failure is counted and dated, and the failure that reaches the limit of
  attempts locks the level for the lockout duration; nothing else changes, in particular
  no level is granted or taken back.\<close>

theorem send_key_rejects:
  assumes "sa_inv s" and "map_of (sa_levels s) sf = Some (SendKeyCfg sess lv rs alg sec)"
    and "live_session sm = sess" and "sa_pending_seeds s rs = Some seed"
    and "key \<noteq> hmac sha256 (encode sec) seed"
  shows "\<exists>n. sa_attempts s lv = Some n \<and> n < sa_max_attempts s \<and>
    (let t = next_time (check_timeout sm);
         u = next_time (snd (monotonic (check_timeout sm))) + sa_lockout_duration s
     in \<exists>sm'. send_key sf key s sm =
          (Inr (False, None, Some 0x35),
           s\<lparr>sa_pending_seeds := (sa_pending_seeds s)(rs := None),
             sa_attempts := (sa_attempts s)(lv \<mapsto> n + 1),
             sa_last_fail_at := (sa_last_fail_at s)(lv \<mapsto> t),
             sa_lockout_until := (if n + 1 = sa_max_attempts s
               then (sa_lockout_until s)(lv \<mapsto> u) else sa_lockout_until s)\<rparr>, sm'))"
proof -
  let ?s1 = "s\<lparr>sa_pending_seeds := (sa_pending_seeds s)(rs := None)\<rparr>"
  obtain r s' sm' where rf: "record_failure lv ?s1 (check_timeout sm) = (r, s', sm')"
    by (cases "record_failure lv ?s1 (check_timeout sm)") auto
  from send_key_failed_state [OF assms(1,2,4) rf]
  obtain n where "r = Inr 0x35" "sa_attempts s lv = Some n" "n < sa_max_attempts s"
    and "s' = s\<lparr>sa_pending_seeds := (sa_pending_seeds s)(rs := None),
             sa_attempts := (sa_attempts s)(lv \<mapsto> n + 1),
             sa_last_fail_at := (sa_last_fail_at s)(lv \<mapsto> next_time (check_timeout sm)),
             sa_lockout_until := (if n + 1 = sa_max_attempts s
               then (sa_lockout_until s)(lv \<mapsto> next_time (snd (monotonic (check_timeout sm))) + sa_lockout_duration s)
               else sa_lockout_until s)\<rparr>" by blast
  moreover have "send_key sf key s sm
      = (case record_failure lv ?s1 (check_timeout sm) of
           (Inl e, s, sm) \<Rightarrow> (Inl e, s, sm) | (Inr nrc, s, sm) \<Rightarrow> (Inr (False, None, Some nrc), s, sm))"
    using assms by (simp add: send_key_def current_def Let_def constant_time_compare_def
        compute_key_hmac_sha256_def)
  ultimately show ?thesis using rf by (auto simp: Let_def)
qed

theorem send_key_rejects_witness:
  "fst (send_key 2 [] (sample_sa\<lparr>sa_pending_seeds := [1 \<mapsto> [1, 2, 3]]\<rparr>) sample_session)
     = Inr (False, None, Some 0x35)"
proof -
  have "[] \<noteq> hmac sha256 (encode ''sim-calibration-secret-dev-only'') [1, 2, 3]"
    using length_hmac [of sha256 32 "encode ''sim-calibration-secret-dev-only''" "[1, 2, 3]"] by force
  moreover have "sa_inv (sample_sa\<lparr>sa_pending_seeds := [1 \<mapsto> [1, 2, 3]]\<rparr>)"
    using sample_sa_inv by (simp add: sa_inv_def)
  ultimately show ?thesis
    using send_key_rejects [of "sample_sa\<lparr>sa_pending_seeds := [1 \<mapsto> [1, 2, 3]]\<rparr>" 2 EXTENDED
      "''CALIBRATION''" 1 "''HMAC-SHA256''" "''sim-calibration-secret-dev-only''" sample_session "[1, 2, 3]" "[]"]
    by (auto simp: ecu_levels_def Let_def)
qed

text \<open>whatever sequence of requests, resets and session changes the handler built from the
  policy has served, its counters lie between 0 and the limit, a level is locked exactly
  when its counter is at the limit, a locked level has no pending seed, and the next sendKey
  returns an answer and does not raise.\<close>

theorem security_access_run_invariant:
  assumes "security_access_init ecu_policy rd ld = Inr s" and "valid_session sm"
  shows "let (s', sm') = snd (run sa_step ops (s, sm)) in
    sa_inv s' \<and> (\<exists>v. fst (send_key sf key s' sm') = Inr v)"
proof -
  have "handler_inv (s, sm)" using security_access_init_simps(2) [OF assms(1)] assms(2)
    by (simp add: handler_inv_def)
  from sa_machine.inv_run [OF this, of ops] send_key_never_raises
  show ?thesis by (auto simp: handler_inv_def case_prod_unfold Let_def)
qed

theorem security_access_run_invariant_witness:
  "\<exists>s. security_access_init ecu_policy None None = Inr s \<and>
     sa_inv (fst (snd (run sa_step [RequestSeed 1, SendKey 2 [7], SendKey 2 [8]] (s, sample_session))))"
proof -
  obtain s where "security_access_init ecu_policy None None = Inr s"
    using security_access_init_ecu by blast
  with security_access_run_invariant [OF this, of sample_session "[RequestSeed 1, SendKey 2 [7], SendKey 2 [8]]"]
  show ?thesis by (auto simp: case_prod_unfold Let_def)
qed

text \<open>over any sequence of requestSeed, sendKey, clear and session operations, the number of
  accepted keys of a level is at most the number of seeds handed out for it, plus one if one
  was pending at the start: a seed opens the level at most once.\<close>

theorem seeds_single_use:
  assumes "slot_inv rs lv x"
  shows "let outs = fst (run (cr_step (slot_issue rs) (slot_respond lv) slot_revoke slot_other) inps x)
    in accepts inps outs \<le> (if slot_pending rs x then 1 else 0) + issues inps outs"
  using sa_slot.accepts_le_issues [OF assms, of inps] by (simp add: Let_def)

theorem seeds_single_use_witness:
  "let outs = fst (run (cr_step (slot_issue 1) (slot_respond ''CALIBRATION'') slot_revoke slot_other)
       [Respond (2, [1]), Respond (2, [2])] (sample_sa, sample_session))
   in accepts [Respond (2, [1]), Respond (2, [2])] outs = 0"
proof -
  have "slot_inv 1 ''CALIBRATION'' (sample_sa, sample_session)"
    by (simp add: slot_inv_def ecu_levels_def)
  from seeds_single_use [OF this, of "[Respond (2, [1]), Respond (2, [2])]"]
  show ?thesis by (auto simp: Let_def slot_pending_def issues_def)
qed

text \<open>after \<open>clear_access\<close> a level is granted again only if in the meantime a seed was handed
  out for it, whatever else happens; the attempt counters, the failure times and the
  lockouts are not touched by it.\<close>

theorem clear_access_revokes:
  assumes "slot_inv rs lv x"
    and "slot_granted lv (snd (run (cr_step (slot_issue rs) (slot_respond lv) slot_revoke slot_other)
           inps (slot_revoke x)))"
  shows "0 < issues inps (fst (run (cr_step (slot_issue rs) (slot_respond lv) slot_revoke slot_other)
           inps (slot_revoke x))) \<and>
    sa_attempts (fst (slot_revoke x)) = sa_attempts (fst x) \<and>
    sa_last_fail_at (fst (slot_revoke x)) = sa_last_fail_at (fst x) \<and>
    sa_lockout_until (fst (slot_revoke x)) = sa_lockout_until (fst x)"
  using sa_slot.revoked_needs_issue [OF assms]
  by (simp add: slot_revoke_def clear_access_def)

lemmas sa_eval = request_seed_def send_key_def ecu_levels_def Let_def case_prod_unfold current_def
  check_rate_limit_def generate_seed_def os_urandom_def monotonic_def touch_def check_timeout_def
  sample_session_def sample_world_def world.defs session_sm.defs session_ids
  constant_time_compare_def record_failure_def record_success_def clear_access_def

definition sample_exchange :: "(int, int \<times> bytes, session_op) cr_input list" where
  "sample_exchange = [Issue 1, Respond (2, hmac sha256 (encode ''sim-calibration-secret-dev-only'') (replicate 32 0))]"

lemma sample_exchange_grants:
  "slot_granted ''CALIBRATION'' (snd (run (cr_step (slot_issue 1) (slot_respond ''CALIBRATION'')
     slot_revoke slot_other) sample_exchange (slot_revoke (sample_sa, sample_session))))"
  by (simp add: sa_eval sample_exchange_def cr_step_def slot_issue_def slot_respond_def slot_revoke_def
      slot_granted_def compute_key_hmac_sha256_def)

theorem clear_access_revokes_witness:
  "0 < issues sample_exchange (fst (run (cr_step (slot_issue 1) (slot_respond ''CALIBRATION'')
     slot_revoke slot_other) sample_exchange (slot_revoke (sample_sa, sample_session))))"
proof -
  have "slot_inv 1 ''CALIBRATION'' (sample_sa, sample_session)"
    by (simp add: slot_inv_def ecu_levels_def)
  from clear_access_revokes [OF this sample_exchange_grants] show ?thesis by simp
qed

end
