(* ===== verification/Lockout.thy ===== *)
theory Lockout
  imports Security_Access
begin

text \<open>
  What the counters, the delay and the lockout of service 0x27 promise over time. The theorems are about
  runs of \<open>sa_step\<close>, that is about every sequence of requestSeed, sendKey,
  \<open>clear_access\<close> and session operations with the clock readings they make.
\<close>

section \<open>Guesses in a trace\<close>

definition failures :: "int \<Rightarrow> sa_op list \<Rightarrow> sa_out list \<Rightarrow> nat" where
  "failures ss ops outs =
     length (filter (\<lambda>(op, out). (\<exists>key. op = SendKey ss key) \<and> out = KeyOut (Inr (False, None, Some 0x35)))
       (zip ops outs))"

definition successes :: "int \<Rightarrow> sa_op list \<Rightarrow> sa_out list \<Rightarrow> nat" where
  "successes ss ops outs =
     length (filter (\<lambda>(op, out). (\<exists>key. op = SendKey ss key) \<and> (\<exists>lv. out = KeyOut (Inr (True, lv, None))))
       (zip ops outs))"

lemma failures_simps [simp]:
  "failures ss [] outs = 0"
  "failures ss (op # ops) (out # outs) =
     (if (\<exists>key. op = SendKey ss key) \<and> out = KeyOut (Inr (False, None, Some 0x35)) then 1 else 0)
     + failures ss ops outs"
  by (simp_all add: failures_def)

lemma successes_simps [simp]:
  "successes ss [] outs = 0"
  "successes ss (op # ops) (out # outs) =
     (if (\<exists>key. op = SendKey ss key) \<and> (\<exists>lv. out = KeyOut (Inr (True, lv, None))) then 1 else 0)
     + successes ss ops outs"
  by (simp_all add: successes_def)

definition seeds_issued :: "int \<Rightarrow> sa_op list \<Rightarrow> sa_out list \<Rightarrow> nat" where
  "seeds_issued rs ops outs =
     length (filter (\<lambda>(op, out). op = RequestSeed rs \<and> (\<exists>seed. out = SeedOut (True, seed, None)))
       (zip ops outs))"

lemma seeds_issued_simps [simp]:
  "seeds_issued rs [] outs = 0"
  "seeds_issued rs (op # ops) (out # outs) =
     (if op = RequestSeed rs \<and> (\<exists>seed. out = SeedOut (True, seed, None)) then 1 else 0)
     + seeds_issued rs ops outs"
  by (simp_all add: seeds_issued_def)

section \<open>The state of one level\<close>

definition level_state :: "string \<Rightarrow> sa \<Rightarrow> int option \<times> seconds option \<times> seconds option" where
  "level_state lv s = (sa_attempts s lv, sa_lockout_until s lv, sa_last_fail_at s lv)"

text \<open>The subfunctions of a level.\<close>

definition level_of :: "sa \<Rightarrow> int \<Rightarrow> string option" where
  "level_of s sf = map_option lc_access_level (map_of (sa_levels s) sf)"

lemma level_state_unlock: "lv' \<noteq> lv \<Longrightarrow> level_state lv (unlock lv' s) = level_state lv s"
  by (simp add: level_state_def unlock_def)

lemma level_state_clear [simp]: "level_state lv (clear_access s) = level_state lv s"
  by (simp add: level_state_def clear_access_def)

lemma level_state_pending [simp]:
  "level_state lv (s\<lparr>sa_pending_seeds := p\<rparr>) = level_state lv s"
  "level_state lv (s\<lparr>sa_granted := g\<rparr>) = level_state lv s"
  by (simp_all add: level_state_def)

lemma request_seed_other_level:
  assumes "request_seed sf s sm = (res, s', sm')" "level_of s sf \<noteq> Some lv"
  shows "level_state lv s' = level_state lv s"
  using assms(1) assms(2) by (cases rule: request_seed_elim) (auto simp: level_of_def level_state_unlock)

lemma record_failure_other_level:
  "record_failure lv' s sm = (r, s', sm') \<Longrightarrow> lv' \<noteq> lv \<Longrightarrow> level_state lv s' = level_state lv s"
  by (auto simp: record_failure_def level_state_def Let_def case_prod_unfold split: option.splits if_splits)

lemma send_key_other_level:
  assumes "send_key sf key s sm = (res, s', sm')" "level_of s sf \<noteq> Some lv"
  shows "level_state lv s' = level_state lv s"
  using assms(1)
proof (cases rule: send_key_elim)
  case (failed cfg seed r)
  then have "lc_access_level cfg \<noteq> lv" using assms(2) by (auto simp: level_of_def)
  from record_failure_other_level [OF failed(6) this] show ?thesis by simp
next
  case (accepted cfg seed)
  then have "lc_access_level cfg \<noteq> lv" using assms(2) by (auto simp: level_of_def)
  with accepted show ?thesis by (simp add: record_success_def level_state_def)
qed auto

lemma level_of_pair:
  assumes "sa_inv s" "map_of (sa_levels s) ss = Some (SendKeyCfg sess lv rs alg sec)"
    "map_of (sa_levels s) sf = Some cfg" "lc_access_level cfg = lv"
  shows "sf = ss \<or> sf = rs"
proof (cases cfg)
  case (RequestSeedCfg sess' lv' ss' alg' sec')
  with wf_levels_level_inj [OF sa_invD(1) [OF assms(1)] _ wf_levels_send [OF sa_invD(1) [OF assms(1)] assms(2)]]
    assms show ?thesis by auto
next
  case (SendKeyCfg sess' lv' rs' alg' sec')
  with wf_levels_unique [OF sa_invD(1) [OF assms(1)] assms(2)] assms(3,4) show ?thesis by auto
qed

section \<open>Readings of the clock\<close>

lemma advances_run:
  "handler_inv x \<Longrightarrow> advances (snd x) (snd (snd (run sa_step ops x)))"
  using sa_machine.rel_run [of x ops] by (simp add: sa_le_def session_le_def)

lemma advances_sa_step: "handler_inv x \<Longrightarrow> advances (snd x) (snd (snd (sa_step op x)))"
  using sa_machine.rel_step [of x op] by (simp add: sa_le_def session_le_def)

lemma request_seed_reading:
  assumes "clock_ok sm" "request_seed sf s sm = (res, s', sm')"
    "map_of (sa_levels s) sf = Some cfg" "is_request_seed cfg" "live_session sm = lc_required_session cfg"
  shows "next_time (check_timeout sm) \<le> next_time sm'"
proof -
  have ok: "clock_ok (check_timeout sm)" using assms(1) advances_clock_ok [OF check_timeout_simps(5)] by simp
  have "advances (check_timeout sm) sm'"
    using assms(2)
  proof (cases rule: request_seed_elim)
    case refused
    with assms request_seed_gated [OF assms(3-5)] show ?thesis
      by (auto simp: Let_def case_prod_unfold split: if_splits)
  next
    case (issued cfg' seed sm1)
    from issued(6) have "advances (snd (monotonic (check_timeout sm))) sm1"
      by (metis os_urandom_simps(1) snd_conv)
    with issued(8) show ?thesis by (simp add: advances_trans [OF monotonic_simps(2)])
  qed auto
  with ok advances_next_time show ?thesis by blast
qed

section \<open>The guesses left\<close>

text \<open>
  A potential: \<open>budget T now lv s\<close> bounds the keys of level \<open>lv\<close> that can still be rejected up to time \<open>T\<close>. A level that
  is not locked has the rest of its attempts, and as many again for every lockout that fits between \<open>now\<close>
  and \<open>T\<close>; one that is locked has all attempts, and as many again, from the end of the lockout.
\<close>

definition budget :: "seconds \<Rightarrow> seconds \<Rightarrow> string \<Rightarrow> sa \<Rightarrow> int" where
  "budget T now lv s =
     (case sa_lockout_until s lv of
        Some u \<Rightarrow>
          if u \<le> T then sa_max_attempts s * (1 + \<lfloor>(T - max u now) / sa_lockout_duration s\<rfloor>) else 0
      | None \<Rightarrow>
          sa_max_attempts s * \<lfloor>(T - now) / sa_lockout_duration s\<rfloor> + (sa_max_attempts s - attempt_counter lv s))"

lemma budget_cong:
  "level_state lv s' = level_state lv s \<Longrightarrow> same_config s s' \<Longrightarrow> budget T now lv s' = budget T now lv s"
  by (auto simp: budget_def level_state_def attempt_counter_def same_config_def split: option.split)

lemma windows_mono:
  "0 < L \<Longrightarrow> 1 \<le> m \<Longrightarrow> a \<le> b \<Longrightarrow> m * \<lfloor>(T - b) / L\<rfloor> \<le> m * \<lfloor>(T - a) / L\<rfloor>" for T L :: seconds and m :: int
  by (intro mult_left_mono floor_mono divide_right_mono) auto

lemma windows_shift: "0 < L \<Longrightarrow> \<lfloor>(T - (a + L)) / L\<rfloor> = \<lfloor>(T - a) / L\<rfloor> - 1" for T L a :: seconds
  by (simp add: diff_divide_distrib add_divide_distrib diff_diff_eq [symmetric])

lemma budget_later:
  assumes "0 < sa_lockout_duration s" "1 \<le> sa_max_attempts s" "now \<le> now'"
  shows "budget T now' lv s \<le> budget T now lv s"
proof -
  have "max u now \<le> max u now'" for u using assms(3) by auto
  with windows_mono [OF assms(1,2)] assms(3) show ?thesis
    by (auto simp: budget_def distrib_left split: option.split)
qed

lemma budget_unlock:
  assumes "0 < sa_lockout_duration s" "1 \<le> sa_max_attempts s"
    and "\<not> locked lv s t" "t \<le> now'" "now \<le> now'" "now' \<le> T"
  shows "budget T now' lv (unlock lv s) \<le> budget T now lv s"
proof (cases "sa_lockout_until s lv")
  case None
  with budget_later [OF assms(1,2,5)] show ?thesis by (simp add: unlock_def)
next
  case (Some u)
  then have "u \<le> now'" using assms(3,4) by (simp add: locked_def)
  then have "sa_max_attempts s * \<lfloor>(T - now') / sa_lockout_duration s\<rfloor>
      \<le> sa_max_attempts s * \<lfloor>(T - max u now) / sa_lockout_duration s\<rfloor>"
    using assms by (intro windows_mono) auto
  with Some \<open>u \<le> now'\<close> assms(6) show ?thesis
    by (simp add: budget_def unlock_def attempt_counter_def distrib_left)
qed

lemma budget_nonneg:
  assumes "sa_inv s" "0 < sa_lockout_duration s" "now \<le> T"
  shows "0 \<le> budget T now lv s"
proof -
  have "1 \<le> sa_max_attempts s" "attempt_counter lv s \<le> sa_max_attempts s"
    using sa_invD(2) [OF assms(1)] sa_invD(4) [OF assms(1), of lv]
    by (auto simp: attempt_counter_def split: option.splits)
  moreover have "0 \<le> \<lfloor>(T - t) / sa_lockout_duration s\<rfloor>" if "t \<le> T" for t
    using assms(2) that by (simp add: zero_le_floor)
  ultimately show ?thesis using assms(3) by (auto simp: budget_def split: option.split)
qed

lemma budget_request_seed:
  assumes "clock_ok sm" "0 < sa_lockout_duration s" "1 \<le> sa_max_attempts s"
    and "request_seed sf s sm = (res, s', sm')" "next_time sm \<le> next_time sm'" "next_time sm' \<le> T"
  shows "budget T (next_time sm') lv s' \<le> budget T (next_time sm) lv s"
proof -
  have later: "budget T (next_time sm') lv s \<le> budget T (next_time sm) lv s"
    using budget_later assms(2,3,5) by blast
  have unl: "budget T (next_time sm') lv (unlock (lc_access_level cfg) s) \<le> budget T (next_time sm) lv s"
    if "map_of (sa_levels s) sf = Some cfg" "is_request_seed cfg" "live_session sm = lc_required_session cfg"
      "\<not> locked (lc_access_level cfg) s (next_time (check_timeout sm))" for cfg
  proof (cases "lc_access_level cfg = lv")
    case True
    with budget_unlock [OF assms(2,3) _ request_seed_reading [OF assms(1,4) that(1-3)] assms(5,6)] that(4)
    show ?thesis by simp
  next
    case False
    then have "budget T (next_time sm') lv (unlock (lc_access_level cfg) s) = budget T (next_time sm') lv s"
      by (intro budget_cong level_state_unlock) (simp_all add: same_config_def unlock_def)
    with later show ?thesis by simp
  qed
  from assms(4) show ?thesis
  proof (cases rule: request_seed_elim)
    case (issued cfg seed sm1)
    have "budget T (next_time sm') lv s' = budget T (next_time sm') lv (unlock (lc_access_level cfg) s)"
      using issued(9) by (intro budget_cong) (simp_all add: same_config_def)
    with unl issued show ?thesis by simp
  qed (use unl later in auto)
qed

lemma budget_send_key:
  assumes inv: "sa_inv s" and clk: "clock_ok sm" and L: "0 < sa_lockout_duration s"
    and cfg: "map_of (sa_levels s) ss = Some (SendKeyCfg sess lv rs alg sec)"
    and eq: "send_key sf key s sm = (res, s', sm')"
    and now: "next_time sm \<le> next_time sm'" "next_time sm' \<le> T"
    and no: "sf = ss \<Longrightarrow> \<nexists>g. res = Inr (True, g, None)"
  shows "(if sf = ss \<and> res = Inr (False, None, Some 0x35) then 1 else 0) + budget T (next_time sm') lv s'
    \<le> budget T (next_time sm) lv s"
proof -
  note m = sa_invD(2) [OF inv]
  have later: "budget T (next_time sm') lv s \<le> budget T (next_time sm) lv s"
    using budget_later L m now(1) by blast
  have other: ?thesis if "level_of s sf \<noteq> Some lv"
  proof -
    have "sf \<noteq> ss" using that cfg by (auto simp: level_of_def)
    moreover have "same_config s s'" using send_key_frame(1) [of s sf key sm] eq by simp
    then have "budget T (next_time sm') lv s' = budget T (next_time sm') lv s"
      using send_key_other_level [OF eq that] by (intro budget_cong)
    ultimately show ?thesis using later by simp
  qed
  show ?thesis
    using eq
  proof (cases rule: send_key_elim)
    case (refused nrc)
    then show ?thesis using later by auto
  next
    case (accepted c seed)
    then obtain sess' lv' rs' alg' sec' where c: "c = SendKeyCfg sess' lv' rs' alg' sec'" by (cases c) auto
    have "sf \<noteq> ss" using no accepted(6) by blast
    with wf_levels_unique [OF sa_invD(1) [OF inv] cfg] accepted(1) c have "lv' \<noteq> lv" by blast
    with accepted(1) c show ?thesis by (intro other) (simp add: level_of_def)
  next
    case (failed c seed r)
    then obtain sess' lv' rs' alg' sec' where c: "c = SendKeyCfg sess' lv' rs' alg' sec'" by (cases c) auto
    have mp: "map_of (sa_levels s) sf = Some (SendKeyCfg sess' lv' rs' alg' sec')" using failed(1) c by simp
    show ?thesis
    proof (cases "lv' = lv")
      case False
      then show ?thesis using mp by (intro other) (simp add: level_of_def)
    next
      case True
      have lo: "sa_lockout_until s lv = None"
        using sa_invD(6) [OF inv wf_levels_send [OF sa_invD(1) [OF inv] mp]] failed(4) c True by force
      let ?t = "next_time (snd (monotonic (check_timeout sm)))"
      from send_key_failed_state [OF inv mp _ , of seed "check_timeout sm" r s' sm'] failed(4,6) c True
      obtain n where n: "sa_attempts s lv = Some n" "n < sa_max_attempts s" and cfg': "same_config s s'"
        and s': "sa_attempts s' lv = Some (n + 1)"
          "sa_lockout_until s' lv = (if n + 1 = sa_max_attempts s then Some (?t + sa_lockout_duration s) else None)"
        by (auto simp: lo same_config_def)
      have t: "next_time sm \<le> ?t"
        using advances_next_time [OF clk advances_trans [OF check_timeout_simps(5) monotonic_simps(2)]] .
      show ?thesis
      proof (cases "n + 1 = sa_max_attempts s")
        case False
        have "budget T (next_time sm') lv s' + 1 = budget T (next_time sm') lv s"
          using False s' n lo cfg' by (simp add: budget_def attempt_counter_def same_config_def)
        with later show ?thesis by simp
      next
        case locks: True
        have "sm' = snd (monotonic (snd (monotonic (check_timeout sm))))"
          using failed(6) c True n locks by (auto simp: record_failure_eq Let_def)
        moreover have "clock_ok (snd (monotonic (check_timeout sm)))"
          using clk by (simp add: advances_clock_ok [OF advances_trans [OF check_timeout_simps(5) monotonic_simps(2)]])
        ultimately have "?t \<le> next_time sm'" by (simp add: advances_next_time [OF _ monotonic_simps(2)])
        with now(2) have "?t \<le> T" by simp
        let ?u = "?t + sa_lockout_duration s"
        have "sa_max_attempts s * \<lfloor>(T - max ?u (next_time sm')) / sa_lockout_duration s\<rfloor>
            \<le> sa_max_attempts s * \<lfloor>(T - ?u) / sa_lockout_duration s\<rfloor>"
          by (rule windows_mono [OF L m]) simp
        moreover have "0 \<le> sa_max_attempts s * \<lfloor>(T - ?t) / sa_lockout_duration s\<rfloor>"
          using m L \<open>?t \<le> T\<close> by (simp add: zero_le_floor)
        ultimately have "budget T (next_time sm') lv s' \<le> sa_max_attempts s * \<lfloor>(T - ?t) / sa_lockout_duration s\<rfloor>"
          using s' cfg' locks windows_shift [OF L, of T ?t]
          by (simp add: budget_def same_config_def distrib_left right_diff_distrib)
        also have "\<dots> \<le> sa_max_attempts s * \<lfloor>(T - next_time sm) / sa_lockout_duration s\<rfloor>"
          using windows_mono [OF L m t] .
        finally show ?thesis using n lo locks by (simp add: budget_def attempt_counter_def)
      qed
    qed
  qed
qed

text \<open>Every step spends what it uses of the budget.\<close>

lemma budget_step:
  assumes inv: "handler_inv x" and clk: "clock_ok (snd x)" and L: "0 < sa_lockout_duration (fst x)"
    and cfg: "map_of (sa_levels (fst x)) ss = Some (SendKeyCfg sess lv rs alg sec)"
    and lim: "next_time (snd (snd (sa_step op x))) \<le> T"
    and no: "successes ss [op] [fst (sa_step op x)] = 0"
  shows "int (failures ss [op] [fst (sa_step op x)]) +
      budget T (next_time (snd (snd (sa_step op x)))) lv (fst (snd (sa_step op x)))
    \<le> budget T (next_time (snd x)) lv (fst x)"
proof -
  obtain s sm where x: "x = (s, sm)" by (cases x) auto
  note inv' = inv [unfolded x handler_inv_def]
  have m: "1 \<le> sa_max_attempts s" using sa_invD(2) inv' by simp
  have now: "next_time sm \<le> next_time (snd (snd (sa_step op x)))"
    using advances_next_time [OF clk advances_sa_step [OF inv]] x by simp
  show ?thesis
  proof (cases op)
    case (RequestSeed sf)
    obtain res s' sm' where eq: "request_seed sf s sm = (res, s', sm')" by (cases "request_seed sf s sm") auto
    with budget_request_seed [OF _ _ m eq] clk L lim now x RequestSeed show ?thesis by simp
  next
    case (SendKey sf key)
    obtain res s' sm' where eq: "send_key sf key s sm = (res, s', sm')" by (cases "send_key sf key s sm") auto
    have "\<nexists>g. res = Inr (True, g, None)" if "sf = ss"
      using no x SendKey eq that by (auto split: if_splits)
    with budget_send_key [OF _ _ _ _ eq, of ss sess lv rs alg sec T] inv' clk L cfg lim now x SendKey eq
    show ?thesis by auto
  next
    case ClearAccess
    then show ?thesis using x budget_cong [of lv "clear_access s" s] by (simp add: clear_access_def same_config_def)
  next
    case (SessionOp sop)
    then show ?thesis using x budget_later [OF _ m now] L by simp
  qed
qed

lemma failures_budget:
  assumes "handler_inv x" "clock_ok (snd x)" "0 < sa_lockout_duration (fst x)"
    "map_of (sa_levels (fst x)) ss = Some (SendKeyCfg sess lv rs alg sec)"
    "next_time (snd (snd (run sa_step ops x))) \<le> T"
    "successes ss ops (fst (run sa_step ops x)) = 0"
  shows "int (failures ss ops (fst (run sa_step ops x))) \<le> budget T (next_time (snd x)) lv (fst x)"
  using assms
proof (induction ops arbitrary: x)
  case Nil
  then show ?case using budget_nonneg by (simp add: handler_inv_def)
next
  case (Cons op ops)
  let ?y = "snd (sa_step op x)"
  have inv: "handler_inv ?y" using sa_machine.inv_step Cons.prems(1) by blast
  have le: "sa_le x ?y" using sa_machine.rel_step Cons.prems(1) by blast
  have clk: "clock_ok (snd ?y)"
    using le Cons.prems(2) advances_clock_ok by (auto simp: sa_le_def session_le_def)
  have later: "next_time (snd ?y) \<le> next_time (snd (snd (run sa_step ops ?y)))"
    using advances_next_time [OF clk advances_run [OF inv]] .
  have "int (failures ss ops (fst (run sa_step ops ?y))) \<le> budget T (next_time (snd ?y)) lv (fst ?y)"
    using Cons.IH [OF inv clk] le Cons.prems by (auto simp: sa_le_def same_config_def)
  moreover have "int (failures ss [op] [fst (sa_step op x)]) + budget T (next_time (snd ?y)) lv (fst ?y)
      \<le> budget T (next_time (snd x)) lv (fst x)"
    using budget_step [OF Cons.prems(1-4), of op T] Cons.prems(5,6) later by (auto split: if_splits)
  ultimately show ?case by (auto split: if_splits)
qed

text \<open>The whole budget: all attempts at once, and again for every lockout that fits; and within one lockout the attempts
  that are left.\<close>

lemma budget_bound:
  assumes "sa_inv s" "0 < sa_lockout_duration s" "now \<le> T"
  shows "budget T now lv s \<le> sa_max_attempts s * (1 + \<lfloor>(T - now) / sa_lockout_duration s\<rfloor>) -
    (if sa_lockout_until s lv = None then attempt_counter lv s else 0)"
proof -
  have m: "1 \<le> sa_max_attempts s" "0 \<le> attempt_counter lv s"
    using sa_invD(2) [OF assms(1)] sa_invD(4) [OF assms(1), of lv]
    by (auto simp: attempt_counter_def split: option.splits)
  have "sa_max_attempts s * \<lfloor>(T - max u now) / sa_lockout_duration s\<rfloor>
      \<le> sa_max_attempts s * \<lfloor>(T - now) / sa_lockout_duration s\<rfloor>" for u
    by (rule windows_mono [OF assms(2) m(1)]) simp
  moreover have "0 \<le> sa_max_attempts s * \<lfloor>(T - now) / sa_lockout_duration s\<rfloor>"
    using m assms(2,3) by (simp add: zero_le_floor)
  ultimately show ?thesis using m by (auto simp: budget_def distrib_left split: option.split)
qed

lemma budget_bound_short:
  assumes "sa_inv s" "now \<le> T" "T < now + sa_lockout_duration s"
  shows "budget T now lv s \<le>
    sa_max_attempts s - (if sa_lockout_until s lv = None then attempt_counter lv s else 0)"
proof -
  have L: "0 < sa_lockout_duration s" using assms(2,3) by simp
  have 0: "\<lfloor>(T - t) / sa_lockout_duration s\<rfloor> = 0" if "t \<le> T" "now \<le> t" for t
    using that assms(3) L by (simp add: floor_eq_iff pos_divide_less_eq)
  with sa_invD(2) [OF assms(1)] assms(2) show ?thesis by (auto simp: budget_def split: option.split)
qed

section \<open>The delay\<close>

text \<open>A level whose seed is outstanding has let the delay after its last failure pass.\<close>

definition delay_inv :: "sa \<times> session_sm \<Rightarrow> bool" where
  "delay_inv x \<longleftrightarrow> handler_inv x \<and> clock_ok (snd x) \<and>
     (\<forall>rs sess lv ss alg sec f.
        map_of (sa_levels (fst x)) rs = Some (RequestSeedCfg sess lv ss alg sec) \<longrightarrow>
        sa_pending_seeds (fst x) rs \<noteq> None \<longrightarrow> sa_last_fail_at (fst x) lv = Some f \<longrightarrow>
        f + sa_required_delay (fst x) \<le> next_time (snd x))"

lemma delay_invD:
  "delay_inv (s, sm) \<Longrightarrow> map_of (sa_levels s) rs = Some (RequestSeedCfg sess lv ss alg sec) \<Longrightarrow>
    sa_pending_seeds s rs \<noteq> None \<Longrightarrow> sa_last_fail_at s lv = Some f \<Longrightarrow>
    f + sa_required_delay s \<le> next_time sm"
  unfolding delay_inv_def by (simp only: fst_conv snd_conv) blast

lemma last_fail_unlock: "sa_last_fail_at (unlock lv s) lv' = Some f \<Longrightarrow> sa_last_fail_at s lv' = Some f"
  by (auto simp: unlock_def split: if_splits)

lemma delay_request_seed:
  assumes inv: "delay_inv (s, sm)" and eq: "request_seed sf s sm = (res, s', sm')"
    and cfg: "map_of (sa_levels s') rs = Some (RequestSeedCfg sess lv ss alg sec)"
    and p: "sa_pending_seeds s' rs \<noteq> None" and f: "sa_last_fail_at s' lv = Some f"
  shows "f + sa_required_delay s' \<le> next_time sm'"
proof -
  have clk: "clock_ok sm" using inv by (simp add: delay_inv_def)
  have fr: "same_config s s'" "session_used sm sm'"
    using request_seed_frame(1) [of s sf sm] request_seed_frame(2) [of sm sf s] eq by auto
  then have m: "map_of (sa_levels s) rs = Some (RequestSeedCfg sess lv ss alg sec)"
    and d: "sa_required_delay s' = sa_required_delay s"
    and le: "next_time sm \<le> next_time sm'"
    using cfg advances_next_time [OF clk] by (auto simp: same_config_def session_used_def session_le_def)
  have old: ?thesis if "sa_pending_seeds s rs \<noteq> None" "sa_last_fail_at s lv = Some f"
    using delay_invD [OF inv m that] d le by simp
  from eq show ?thesis
  proof (cases rule: request_seed_elim)
    case refused
    then show ?thesis using old p f by simp
  next
    case locked_out
    then show ?thesis using old p f by simp
  next
    case (too_early cfg')
    have "sa_last_fail_at s lv = Some f" using f too_early(7) by (auto dest: last_fail_unlock)
    then show ?thesis using old p too_early(7) by simp
  next
    case (issued cfg' seed sm1)
    show ?thesis
    proof (cases "rs = sf")
      case False
      have "sa_last_fail_at s lv = Some f" using f issued(9) by (auto dest: last_fail_unlock)
      then show ?thesis using old p issued(9) False by simp
    next
      case True
      with issued(1,2) m have "lc_access_level cfg' = lv" by auto
      with issued(5,9) f have "sa_required_delay s \<le> next_time (check_timeout sm) - f"
        by (auto simp: delayed_def)
      with request_seed_reading [OF clk eq issued(1-3)] d show ?thesis by simp
    qed
  qed
qed

lemma delay_send_key:
  assumes inv: "delay_inv (s, sm)" and eq: "send_key sf key s sm = (res, s', sm')"
    and cfg: "map_of (sa_levels s') rs = Some (RequestSeedCfg sess lv ss alg sec)"
    and p: "sa_pending_seeds s' rs \<noteq> None" and f: "sa_last_fail_at s' lv = Some f"
  shows "f + sa_required_delay s' \<le> next_time sm'"
proof -
  have clk: "clock_ok sm" and si: "sa_inv s" using inv by (simp_all add: delay_inv_def handler_inv_def)
  have fr: "same_config s s'" "session_used sm sm'"
    using send_key_frame(1) [of s sf key sm] send_key_frame(2) [of sm sf key s] eq by auto
  then have m: "map_of (sa_levels s) rs = Some (RequestSeedCfg sess lv ss alg sec)"
    and d: "sa_required_delay s' = sa_required_delay s"
    and le: "next_time sm \<le> next_time sm'"
    using cfg advances_next_time [OF clk] by (auto simp: same_config_def session_used_def session_le_def)
  have pend: "sa_pending_seeds s rs \<noteq> None" using send_key_pending [OF eq p] p by simp
  have "sa_last_fail_at s lv = Some f"
    using eq
  proof (cases rule: send_key_elim)
    case (failed c seed r)
    then obtain sess' lv' rs' alg' sec' where c: "c = SendKeyCfg sess' lv' rs' alg' sec'" by (cases c) auto
    have "sa_pending_seeds s' rs' = None"
      using record_failure_frame [OF failed(6)] c by simp
    then have "rs' \<noteq> rs" using p by auto
    with wf_levels_level_inj [OF sa_invD(1) [OF si] m]
      wf_levels_send [OF sa_invD(1) [OF si], of sf sess' lv' rs' alg' sec'] failed(1) c
    have "lv' \<noteq> lv" by blast
    with failed(1) c have "level_of s sf \<noteq> Some lv" by (simp add: level_of_def)
    with send_key_other_level [OF eq] f show ?thesis by (simp add: level_state_def)
  next
    case (accepted c seed)
    then show ?thesis using f by (auto simp: record_success_def split: if_splits)
  qed (use f in simp_all)
  from delay_invD [OF inv m pend this] d le show ?thesis by simp
qed

interpretation delay_machine: invariant_machine sa_step delay_inv
proof unfold_locales
  fix x :: "sa \<times> session_sm" and op
  assume inv: "delay_inv x"
  obtain s sm where x: "x = (s, sm)" by (cases x) auto
  have hi: "handler_inv x" and clk: "clock_ok sm" using inv x by (simp_all add: delay_inv_def)
  have le: "sa_le x (snd (sa_step op x))" and hi': "handler_inv (snd (sa_step op x))"
    using sa_machine.rel_step sa_machine.inv_step hi by blast+
  have clk': "clock_ok (snd (snd (sa_step op x)))"
    using le clk advances_clock_ok x by (auto simp: sa_le_def session_le_def)
  have now: "next_time sm \<le> next_time (snd (snd (sa_step op x)))"
    using le advances_next_time [OF clk] x by (auto simp: sa_le_def session_le_def)
  have "f + sa_required_delay (fst (snd (sa_step op x))) \<le> next_time (snd (snd (sa_step op x)))"
    if "map_of (sa_levels (fst (snd (sa_step op x)))) rs = Some (RequestSeedCfg sess lv ss alg sec)"
      "sa_pending_seeds (fst (snd (sa_step op x))) rs \<noteq> None"
      "sa_last_fail_at (fst (snd (sa_step op x))) lv = Some f" for rs sess lv ss alg sec f
  proof (cases op)
    case (RequestSeed sf)
    with that x show ?thesis
      using delay_request_seed [OF inv [unfolded x], of sf] by (cases "request_seed sf s sm") auto
  next
    case (SendKey sf key)
    with that x show ?thesis
      using delay_send_key [OF inv [unfolded x], of sf key] by (cases "send_key sf key s sm") auto
  next
    case ClearAccess
    with that x show ?thesis by (simp add: clear_access_def)
  next
    case (SessionOp sop)
    with that x now show ?thesis using delay_invD [OF inv [unfolded x], of rs sess lv ss alg sec f] by simp
  qed
  with hi' clk' show "delay_inv (snd (sa_step op x))" unfolding delay_inv_def by blast
qed

section \<open>A locked level\<close>

lemma locked_request_seed:
  assumes clk: "clock_ok sm" and eq: "request_seed sf s sm = (res, s', sm')"
    and lo: "sa_lockout_until s lv = Some u" and lim: "next_time sm' < u"
    and lev: "level_of s sf = Some lv"
  shows "s' = s \<and> \<not> fst res"
  using eq
proof (cases rule: request_seed_elim)
  case (too_early cfg)
  with lev lo lim request_seed_reading [OF clk eq too_early(1-3)] show ?thesis
    by (auto simp: level_of_def locked_def)
next
  case (issued cfg seed sm1)
  with lev lo lim request_seed_reading [OF clk eq issued(1-3)] show ?thesis
    by (auto simp: level_of_def locked_def)
qed auto

lemma locked_send_key:
  assumes inv: "sa_inv s" and eq: "send_key sf key s sm = (res, s', sm')"
    and lo: "sa_lockout_until s lv = Some u" and lev: "level_of s sf = Some lv"
  shows "s' = s \<and> (\<exists>nrc. res = Inr (False, None, Some nrc) \<and> nrc \<noteq> 0x35)"
proof -
  have none: "sa_pending_seeds s (lc_request_seed_subfunction cfg) = None"
    if m: "map_of (sa_levels s) sf = Some cfg" and sk: "is_send_key cfg" for cfg
  proof -
    have "lc_access_level cfg = lv" using m lev by (simp add: level_of_def)
    then obtain sess rs alg sec where cfg: "cfg = SendKeyCfg sess lv rs alg sec"
      using sk by (cases cfg) simp_all
    with m have "map_of (sa_levels s) rs = Some (RequestSeedCfg sess lv sf alg sec)"
      using wf_levels_send [OF sa_invD(1) [OF inv]] by simp
    with sa_invD(6) [OF inv] lo cfg show ?thesis by simp
  qed
  from eq show ?thesis
    by (cases rule: send_key_elim) (use none in auto)
qed

lemma locked_step:
  assumes inv: "handler_inv x" and clk: "clock_ok (snd x)"
    and cfg: "map_of (sa_levels (fst x)) ss = Some (SendKeyCfg sess lv rs alg sec)"
    and lo: "sa_lockout_until (fst x) lv = Some u"
    and lim: "next_time (snd (snd (sa_step op x))) < u"
  shows "level_state lv (fst (snd (sa_step op x))) = level_state lv (fst x) \<and>
    seeds_issued rs [op] [fst (sa_step op x)] = 0 \<and>
    failures ss [op] [fst (sa_step op x)] = 0 \<and> successes ss [op] [fst (sa_step op x)] = 0"
proof -
  obtain s sm where x: "x = (s, sm)" by (cases x) auto
  have si: "sa_inv s" using inv x by (simp add: handler_inv_def)
  have lev: "level_of s ss = Some lv" "level_of s rs = Some lv"
    using cfg x wf_levels_send [OF sa_invD(1) [OF si], of ss sess lv rs alg sec] by (auto simp: level_of_def)
  show ?thesis
  proof (cases op)
    case (RequestSeed sf)
    obtain res s' sm' where eq: "request_seed sf s sm = (res, s', sm')" by (cases "request_seed sf s sm") auto
    show ?thesis
    proof (cases "level_of s sf = Some lv")
      case True
      have "s' = s \<and> \<not> fst res"
        using locked_request_seed [OF _ eq _ _ True, of u] clk lo lim x eq RequestSeed by simp
      then show ?thesis using x eq RequestSeed by auto
    next
      case False
      with request_seed_other_level [OF eq False] lev x eq RequestSeed show ?thesis by auto
    qed
  next
    case (SendKey sf key)
    obtain res s' sm' where eq: "send_key sf key s sm = (res, s', sm')" by (cases "send_key sf key s sm") auto
    show ?thesis
    proof (cases "level_of s sf = Some lv")
      case True
      with locked_send_key [OF si eq] lo x eq SendKey show ?thesis by auto
    next
      case False
      with send_key_other_level [OF eq False] lev x eq SendKey show ?thesis by auto
    qed
  qed (use x in auto)
qed

lemma locked_run:
  assumes "handler_inv x" "clock_ok (snd x)"
    "map_of (sa_levels (fst x)) ss = Some (SendKeyCfg sess lv rs alg sec)"
    "sa_lockout_until (fst x) lv = Some u"
    "next_time (snd (snd (run sa_step ops x))) < u"
  shows "level_state lv (fst (snd (run sa_step ops x))) = level_state lv (fst x) \<and>
    seeds_issued rs ops (fst (run sa_step ops x)) = 0 \<and>
    failures ss ops (fst (run sa_step ops x)) = 0 \<and> successes ss ops (fst (run sa_step ops x)) = 0"
  using assms
proof (induction ops arbitrary: x)
  case (Cons op ops)
  let ?y = "snd (sa_step op x)"
  have inv: "handler_inv ?y" and le: "sa_le x ?y"
    using sa_machine.inv_step sa_machine.rel_step Cons.prems(1) by blast+
  have clk: "clock_ok (snd ?y)"
    using le Cons.prems(2) advances_clock_ok by (auto simp: sa_le_def session_le_def)
  have later: "next_time (snd ?y) \<le> next_time (snd (snd (run sa_step ops ?y)))"
    using advances_next_time [OF clk advances_run [OF inv]] .
  have lim: "next_time (snd ?y) < u" using later Cons.prems(5) by simp
  note st = locked_step [OF Cons.prems(1-4) lim]
  have "sa_lockout_until (fst ?y) lv = Some u" using st Cons.prems(4) by (simp add: level_state_def)
  moreover have "map_of (sa_levels (fst ?y)) ss = Some (SendKeyCfg sess lv rs alg sec)"
    using le Cons.prems(3) by (simp add: sa_le_def same_config_def)
  moreover have "next_time (snd (snd (run sa_step ops ?y))) < u" using Cons.prems(5) by simp
  ultimately show ?case using Cons.IH [OF inv clk] st by (auto split: if_splits)
qed simp

section \<open>Properties\<close>

text \<open>brute force is bounded. Take any reachable kind of state and any sequence of operations whose
  clock readings all lie within less than one lockout duration of its start. As long as no
  key of a level has been accepted, at most the policy's number of attempts are rejected
  for it, however the sequence mixes levels, sessions, resets and revocations; if the level is
  not locked at the start, the failures already counted are part of that number.\<close>

theorem guesses_bounded:
  assumes "handler_inv x" and "clock_ok (snd x)"
    and "map_of (sa_levels (fst x)) ss = Some (SendKeyCfg sess lv rs alg sec)"
    and "next_time (snd (snd (run sa_step ops x))) < next_time (snd x) + sa_lockout_duration (fst x)"
    and "successes ss ops (fst (run sa_step ops x)) = 0"
  shows "int (failures ss ops (fst (run sa_step ops x))) \<le>
    sa_max_attempts (fst x) -
      (if sa_lockout_until (fst x) lv = None then attempt_counter lv (fst x) else 0)"
proof -
  let ?T = "next_time (snd (snd (run sa_step ops x)))"
  have now: "next_time (snd x) \<le> ?T"
    using advances_next_time [OF assms(2) advances_run [OF assms(1)]] .
  with assms(4) have "0 < sa_lockout_duration (fst x)" by simp
  from failures_budget [OF assms(1,2) this assms(3) order_refl assms(5)]
    budget_bound_short [OF _ now assms(4), of lv] assms(1) show ?thesis
    unfolding handler_inv_def by linarith
qed

definition sample_handler :: "sa \<times> session_sm" where
  "sample_handler = (sample_sa\<lparr>sa_required_delay := 0\<rparr>, sample_session)"

lemma sample_handler_inv [simp]: "handler_inv sample_handler" "clock_ok (snd sample_handler)"
  using sample_sa_inv by (simp_all add: sample_handler_def handler_inv_def sa_inv_def)

definition sample_guesses :: "sa_op list" where
  "sample_guesses =
     [RequestSeed 1, SendKey 2 [], RequestSeed 1, SendKey 2 [], RequestSeed 1, SendKey 2 [],
      RequestSeed 1, SendKey 2 []]"

lemma sample_guesses_run:
  "failures 2 sample_guesses (fst (run sa_step sample_guesses sample_handler)) = 3"
  "successes 2 sample_guesses (fst (run sa_step sample_guesses sample_handler)) = 0"
  "next_time (snd (snd (run sa_step sample_guesses sample_handler))) < 3000"
  "sa_lockout_until (fst (snd (run sa_step sample_guesses sample_handler))) ''CALIBRATION'' = Some 3625"
  by (simp_all add: sample_guesses_def sample_handler_def sa_eval next_time_def)

theorem guesses_bounded_witness:
  "int (failures 2 sample_guesses (fst (run sa_step sample_guesses sample_handler))) \<le> 3"
proof -
  have "next_time (snd sample_handler) = 10"
    by (simp add: sample_handler_def sample_session_def sample_world_def next_time_def
        world.defs session_sm.defs)
  then show ?thesis
    using guesses_bounded [of sample_handler 2 EXTENDED "''CALIBRATION''" 1 "''HMAC-SHA256''"
      "''sim-calibration-secret-dev-only''" sample_guesses] sample_guesses_run
    by (simp add: sample_handler_def ecu_levels_def attempt_counter_def)
qed

text \<open>C14: while a lockout lasts, nothing opens the level. In every sequence of operations whose
  readings lie before the end of the lockout, no seed of the level is handed out and none of its
  keys is evaluated, correct or not, and neither session changes nor \<open>clear_access\<close> touch its
  counter or shorten the lockout.\<close>

theorem lockout_blocks:
  assumes "handler_inv x" and "clock_ok (snd x)"
    and "map_of (sa_levels (fst x)) ss = Some (SendKeyCfg sess lv rs alg sec)"
    and "sa_lockout_until (fst x) lv = Some u"
    and "next_time (snd (snd (run sa_step ops x))) < u"
  shows "let (outs, y) = run sa_step ops x in
    seeds_issued rs ops outs = 0 \<and> failures ss ops outs = 0 \<and> successes ss ops outs = 0 \<and>
    sa_lockout_until (fst y) lv = Some u \<and>
    sa_attempts (fst y) lv = Some (sa_max_attempts (fst x)) \<and>
    sa_last_fail_at (fst y) lv = sa_last_fail_at (fst x) lv"
proof -
  have "sa_attempts (fst x) lv = Some (sa_max_attempts (fst x))"
    using sa_invD(5) [of "fst x" lv] assms(1,4) by (simp add: handler_inv_def)
  with locked_run [OF assms] assms(4) show ?thesis
    by (simp add: level_state_def case_prod_unfold Let_def)
qed

definition locked_handler :: "sa \<times> session_sm" where
  "locked_handler =
     (sample_sa\<lparr>sa_lockout_until := [''CALIBRATION'' \<mapsto> 3625],
        sa_attempts := [''CALIBRATION'' \<mapsto> 3, ''ECU_PROGRAMMING'' \<mapsto> 0]\<rparr>, sample_session)"

lemma locked_handler_inv [simp]: "handler_inv locked_handler" "clock_ok (snd locked_handler)"
  using wf_ecu_levels
  by (auto simp: locked_handler_def handler_inv_def sa_inv_def ecu_levels_def split: if_splits)

lemma locked_handler_simps [simp]:
  "sa_levels (fst locked_handler) = ecu_levels"
  "sa_lockout_until (fst locked_handler) = [''CALIBRATION'' \<mapsto> 3625]"
  by (simp_all add: locked_handler_def)

definition sample_bypass :: "sa_op list" where
  "sample_bypass =
     [RequestSeed 1, SessionOp (Transition 1), ClearAccess, SessionOp (Transition 3), RequestSeed 1,
      SendKey 2 (compute_key_hmac_sha256 (replicate 32 0) ''sim-calibration-secret-dev-only'')]"

lemma sample_bypass_time: "next_time (snd (snd (run sa_step sample_bypass locked_handler))) < 3625"
  by (simp add: sample_bypass_def locked_handler_def sa_eval next_time_def transition_def VALID_def
      policy_allowed_def)

theorem lockout_blocks_witness:
  "successes 2 sample_bypass (fst (run sa_step sample_bypass locked_handler)) = 0 \<and>
   sa_lockout_until (fst (snd (run sa_step sample_bypass locked_handler))) ''CALIBRATION'' = Some 3625"
  using lockout_blocks [of locked_handler 2 EXTENDED "''CALIBRATION''" 1 "''HMAC-SHA256''"
      "''sim-calibration-secret-dev-only''" 3625 sample_bypass] sample_bypass_time
  by (simp add: ecu_levels_def case_prod_unfold Let_def)

text \<open>C40: a lockout ends. The first requestSeed in the level's session that reads the clock at or
  after the end of the lockout gets a seed, and it resets the level's counter to 0.\<close>

theorem lockout_ends:
  assumes "map_of (sa_levels s) rs = Some (RequestSeedCfg sess lv ss alg sec)"
    and "live_session sm = sess" and "sa_lockout_until s lv = Some u"
    and "u \<le> next_time (check_timeout sm)"
  shows "\<exists>seed s' sm'. request_seed rs s sm = ((True, Some seed, None), s', sm') \<and>
    sa_pending_seeds s' rs = Some seed \<and> sa_lockout_until s' lv = None \<and>
    attempt_counter lv s' = 0 \<and> sa_last_fail_at s' lv = None"
  using assms request_seed_gated [OF assms(1), of sm]
  by (auto simp: Let_def case_prod_unfold locked_def delayed_def unlock_def attempt_counter_def)

theorem lockout_ends_witness:
  "\<exists>seed s' sm'. request_seed 1 (fst locked_handler) (sample_session\<lparr>mono_reads := 3630, sm_last_activity := 3600\<rparr>)
     = ((True, Some seed, None), s', sm') \<and> attempt_counter ''CALIBRATION'' s' = 0"
  using lockout_ends [of "fst locked_handler" 1 EXTENDED "''CALIBRATION''" 2 "''HMAC-SHA256''"
      "''sim-calibration-secret-dev-only''" "sample_session\<lparr>mono_reads := 3630, sm_last_activity := 3600\<rparr>" 3625]
  by (auto simp: locked_handler_def ecu_levels_def sample_session_def sample_world_def world.defs
      session_sm.defs live_session_def expired_def next_time_def session_ids check_timeout_def
      monotonic_def Let_def)

text \<open>two guesses of a level are separated by the required delay. In every state the handler
  reaches, a key that is evaluated (accepted, or rejected as wrong) is evaluated at least the
  delay after the level's last failure.\<close>

theorem delay_between_guesses:
  assumes "security_access_init ecu_policy rd ld = Inr s" and "valid_session sm" and "clock_ok sm"
    and "snd (run sa_step ops (s, sm)) = (s', sm')"
    and "map_of ecu_levels ss = Some (SendKeyCfg sess lv rs alg sec)"
    and "fst (send_key ss key s' sm') = Inr (ok, granted, nrc)" and "ok \<or> nrc = Some 0x35"
    and "sa_last_fail_at s' lv = Some f"
  shows "f + sa_required_delay s \<le> next_time sm'"
proof -
  have hi: "handler_inv (s, sm)" and "delay_inv (s, sm)"
    using security_access_init_simps [OF assms(1)] assms(2,3) by (simp_all add: handler_inv_def delay_inv_def)
  from delay_machine.inv_run [OF this(2), of ops] assms(4) have inv: "delay_inv (s', sm')" by simp
  then have si: "sa_inv s'" by (simp add: delay_inv_def handler_inv_def)
  have "same_config s s'" using sa_machine.rel_run [OF hi, of ops] assms(4) by (simp add: sa_le_def)
  then have lv: "sa_levels s' = ecu_levels" "sa_required_delay s' = sa_required_delay s"
    using security_access_init_simps(1) [OF assms(1)] by (simp_all add: same_config_def)
  obtain t smt where eq: "send_key ss key s' sm' = (Inr (ok, granted, nrc), t, smt)"
    using assms(6) by (cases "send_key ss key s' sm'") auto
  have "sa_pending_seeds s' rs \<noteq> None"
    using eq by (cases rule: send_key_elim) (use assms(5,7) lv in auto)
  with delay_invD [OF inv _ _ assms(8)] wf_levels_send [OF sa_invD(1) [OF si]] assms(5) lv
  show ?thesis by metis
qed

definition fresh_sa :: sa where
  "fresh_sa = sample_sa\<lparr>sa_required_delay := 4\<rparr>"

lemma fresh_sa_init: "security_access_init ecu_policy (Some 4) None = Inr fresh_sa"
  unfolding security_access_init_def parse_ecu_levels sum.case
  by (simp add: fresh_sa_def sample_sa_def ecu_levels_def send_key_access_levels_def ecu_policy_def fun_upd_twist)

definition sample_retry :: "sa_op list" where
  "sample_retry = [RequestSeed 1, SendKey 2 [], RequestSeed 1, RequestSeed 1, RequestSeed 1]"

lemma sample_retry_run:
  "sa_last_fail_at (fst (snd (run sa_step sample_retry (fresh_sa, sample_session)))) ''CALIBRATION'' = Some 14"
  "fst (send_key 2 [] (fst (snd (run sa_step sample_retry (fresh_sa, sample_session))))
     (snd (snd (run sa_step sample_retry (fresh_sa, sample_session))))) = Inr (False, None, Some 0x35)"
  by (simp_all add: sample_retry_def fresh_sa_def sa_eval)

theorem delay_between_guesses_witness:
  "18 \<le> next_time (snd (snd (run sa_step sample_retry (fresh_sa, sample_session))))"
  using delay_between_guesses [OF fresh_sa_init, of sample_session sample_retry
      "fst (snd (run sa_step sample_retry (fresh_sa, sample_session)))"
      "snd (snd (run sa_step sample_retry (fresh_sa, sample_session)))" 2 EXTENDED
      "''CALIBRATION''" 1 "''HMAC-SHA256''" "''sim-calibration-secret-dev-only''" "[]" False None "Some 0x35" 14]
    sample_retry_run
  by (simp add: ecu_levels_def) (simp add: fresh_sa_def)

text \<open>the levels are independent: whatever is requested for other levels, and however sessions
  change and access is revoked, the counter, the lockout and the last failure of a level are
  changed only by requests for its own two subfunctions.\<close>

theorem levels_independent:
  assumes "\<And>sf. op = RequestSeed sf \<Longrightarrow> level_of s sf \<noteq> Some lv"
    and "\<And>sf key. op = SendKey sf key \<Longrightarrow> level_of s sf \<noteq> Some lv"
  shows "level_state lv (fst (snd (sa_step op (s, sm)))) = level_state lv s"
proof (cases op)
  case (RequestSeed sf)
  with request_seed_other_level [OF _ assms(1) [OF RequestSeed]] show ?thesis
    by (cases "request_seed sf s sm") auto
next
  case (SendKey sf key)
  with send_key_other_level [OF _ assms(2) [OF SendKey]] show ?thesis
    by (cases "send_key sf key s sm") auto
qed simp_all

theorem levels_independent_witness:
  "level_state ''CALIBRATION'' (fst (snd (sa_step (SendKey 4 []) (sample_sa, sample_session))))
     = level_state ''CALIBRATION'' sample_sa"
  using levels_independent [of "SendKey 4 []" sample_sa "''CALIBRATION''" sample_session]
  by (simp add: level_of_def ecu_levels_def)

end
