(* ===== verification/Cert_Store.thy ===== *)
theory Cert_Store
  imports Crypto_Backend
begin

text \<open>
  The simulated PKI \<open>sim/hal/cert_store_sim.py\<close>: the store of the root CA, the ECU and the
  tester certificates with their keys, the mutable revocation list, and the factory that
  builds the hierarchy. The factory takes what its library calls return (three private
  keys, three serial numbers and the current time) as arguments.
\<close>

section \<open>The store\<close>

record cert_store =
  cs_root_ca_cert :: certificate
  cs_root_ca_key :: bytes
  cs_ecu_cert :: certificate
  cs_ecu_key :: bytes
  cs_tester_cert :: certificate
  cs_tester_key :: bytes
  cs_revoked :: "string set"

definition tester_cert_pem :: "provider \<Rightarrow> cert_store \<Rightarrow> string" where
  "tester_cert_pem P cs = pem_of_cert P (cs_tester_cert cs)"

definition ecu_cert_pem :: "provider \<Rightarrow> cert_store \<Rightarrow> string" where
  "ecu_cert_pem P cs = pem_of_cert P (cs_ecu_cert cs)"

definition is_revoked :: "cert_store \<Rightarrow> string \<Rightarrow> bool" where
  "is_revoked cs thumbprint_hex \<longleftrightarrow> thumbprint_hex \<in> cs_revoked cs"

definition add_revoked_thumbprint :: "string \<Rightarrow> cert_store \<Rightarrow> cert_store" where
  "add_revoked_thumbprint thumbprint_hex cs =
     cs\<lparr>cs_revoked := insert thumbprint_hex (cs_revoked cs)\<rparr>"

section \<open>The factory\<close>

definition validity_root_ca :: int where "validity_root_ca = 3650"
definition validity_ecu :: int where "validity_ecu = 730"
definition validity_tester :: int where "validity_tester = 365"

definition common_name :: "string \<Rightarrow> x509_name" where
  "common_name cn = [(''commonName'', cn)]"

definition self_signed_ca ::
  "provider \<Rightarrow> string \<Rightarrow> bytes \<Rightarrow> int \<Rightarrow> datetime \<Rightarrow> datetime \<Rightarrow> certificate" where
  "self_signed_ca P cn key serial not_before not_after =
     sign_cert P
       \<lparr>req_subject = common_name cn, req_issuer = common_name cn,
        req_public_key = public_key_of P key, req_serial = serial,
        req_not_before = not_before, req_not_after = not_after, req_ca = True\<rparr> key"

definition signed_leaf ::
  "provider \<Rightarrow> string \<Rightarrow> bytes \<Rightarrow> certificate \<Rightarrow> bytes \<Rightarrow> int \<Rightarrow> datetime \<Rightarrow> datetime \<Rightarrow> certificate"
where
  "signed_leaf P cn signing_key issuer_cert subject_key serial not_before not_after =
     sign_cert P
       \<lparr>req_subject = common_name cn, req_issuer = cert_subject issuer_cert,
        req_public_key = public_key_of P subject_key, req_serial = serial,
        req_not_before = not_before, req_not_after = not_after, req_ca = False\<rparr> signing_key"

definition generate_in_memory ::
  "provider \<Rightarrow> string list \<Rightarrow> datetime \<Rightarrow> bytes \<times> bytes \<times> bytes \<Rightarrow> int \<times> int \<times> int \<Rightarrow> cert_store"
where
  "generate_in_memory P revoked_thumbprints now keys serials =
     (let (root_key, ecu_key, tester_key) = keys;
          (root_serial, ecu_serial, tester_serial) = serials;
          days = (\<lambda>d. plus_micros now (d * micros_per_day));
          root_cert = self_signed_ca P ''SecureAccess-Lab-Root-CA'' root_key root_serial
                        (days (- 1)) (days validity_root_ca);
          ecu_cert = signed_leaf P ''VirtualECU-SAL-001'' root_key root_cert ecu_key ecu_serial
                        (days (- 1)) (days validity_ecu);
          tester_cert = signed_leaf P ''DiagnosticTester-SAL-001'' root_key root_cert tester_key
                        tester_serial (days (- 1)) (days validity_tester)
      in \<lparr>cs_root_ca_cert = root_cert, cs_root_ca_key = root_key,
          cs_ecu_cert = ecu_cert, cs_ecu_key = ecu_key,
          cs_tester_cert = tester_cert, cs_tester_key = tester_key,
          cs_revoked = set revoked_thumbprints\<rparr>)"

section \<open>The documented behaviour of the library\<close>

text \<open>
  What the package documents of the calls above: a certificate that was built carries what
  was put in, with the validity bounds cut to whole seconds; its signature verifies
  under the signer's public key; parsing the PEM text of a certificate gives it back; a
  signature made with a private key verifies under its public key.
\<close>

definition whole_seconds :: "datetime \<Rightarrow> datetime" where
  "whole_seconds t = UTC (micros t div micros_per_second * micros_per_second)"

definition x509_laws :: "provider \<Rightarrow> bool" where
  "x509_laws P \<longleftrightarrow>
     (\<forall>r key.
        cert_subject (sign_cert P r key) = req_subject r \<and>
        cert_issuer (sign_cert P r key) = req_issuer r \<and>
        cert_not_before (sign_cert P r key) = whole_seconds (req_not_before r) \<and>
        cert_not_after (sign_cert P r key) = whole_seconds (req_not_after r) \<and>
        cert_public_key (sign_cert P r key) = req_public_key r \<and>
        ecdsa_verify P (public_key_of P key) (cert_signature (sign_cert P r key))
          (cert_tbs (sign_cert P r key)) = Verified) \<and>
     (\<forall>c. load_pem_x509 P (pem_of_cert P c) = Some c) \<and>
     (\<forall>key k d. ecdsa_verify P (public_key_of P key) (ecdsa_sign P key k d) d = Verified)"

lemma whole_seconds_bounds:
  "whole_seconds t \<le> t" "micros t < micros (whole_seconds t) + micros_per_second"
proof -
  have "0 < micros_per_second" by (simp add: micros_per_second_def)
  then have "0 \<le> micros t mod micros_per_second" "micros t mod micros_per_second < micros_per_second"
    by simp_all
  moreover have "micros t = micros (whole_seconds t) + micros t mod micros_per_second"
    by (simp add: whole_seconds_def)
  ultimately show "whole_seconds t \<le> t" "micros t < micros (whole_seconds t) + micros_per_second"
    unfolding less_eq_datetime_def by linarith+
qed

lemma is_revoked_add [simp]:
  "is_revoked (add_revoked_thumbprint t cs) u \<longleftrightarrow> u = t \<or> is_revoked cs u"
  by (auto simp: is_revoked_def add_revoked_thumbprint_def)

end
