(* ===== verification/Json.thy ===== *)
theory Json
  imports Prelude
begin

text \<open>
  The JSON values the program exchanges and hashes, and the parts of Python's \<open>json\<close> module
  it uses: \<open>json.dumps\<close> (default separators, \<open>ensure_ascii\<close>), \<open>json.dumps(sort_keys=True)\<close>
  and \<open>json.loads\<close>. A \<open>dict\<close> is a list of key/value pairs in insertion order with distinct
  keys. Numbers with a fraction or an exponent, \<open>NaN\<close> and \<open>Infinity\<close> and code points from
  256 on are outside the model: the parser rejects them.

  The main result is that the parser inverts the printer, so equal texts come from equal
  values; the audit chain and the RPC layer rest on it.
\<close>

datatype json =
    JNull
  | JBool bool
  | JInt int
  | JStr string
  | JArr "json list"
  | JObj "(string \<times> json) list"

type_synonym dict = "(string \<times> json) list"

section \<open>Dictionaries\<close>

text \<open>\<open>d.get(k)\<close>, \<open>d[k] = v\<close> and the comprehension that leaves one key out.\<close>

definition dict_get :: "dict \<Rightarrow> string \<Rightarrow> json option" where
  "dict_get d k = map_of d k"

fun dict_set :: "dict \<Rightarrow> string \<Rightarrow> json \<Rightarrow> dict" where
  "dict_set [] k v = [(k, v)]"
| "dict_set ((k', v') # d) k v =
     (if k' = k then (k, v) # d else (k', v') # dict_set d k v)"

definition dict_without :: "dict \<Rightarrow> string \<Rightarrow> dict" where
  "dict_without d k = filter (\<lambda>(k', _). k' \<noteq> k) d"

definition dict_of_pairs :: "(string \<times> json) list \<Rightarrow> dict" where
  "dict_of_pairs ps = foldl (\<lambda>d (k, v). dict_set d k v) [] ps"

lemma dict_set_new: "k \<notin> fst ` set d \<Longrightarrow> dict_set d k v = d @ [(k, v)]"
  by (induction d k v rule: dict_set.induct) auto

lemma foldl_dict_set:
  "distinct (map fst (d @ ps)) \<Longrightarrow> foldl (\<lambda>d (k, v). dict_set d k v) d ps = d @ ps"
proof (induction ps arbitrary: d)
  case (Cons p ps)
  obtain k v where p: "p = (k, v)" by (cases p)
  with Cons.prems have "k \<notin> fst ` set d" by auto
  then have "dict_set d k v = d @ [(k, v)]" by (rule dict_set_new)
  with Cons.IH [of "d @ [p]"] Cons.prems p show ?case by simp
qed simp

lemma dict_of_pairs_distinct [simp]: "distinct (map fst ps) \<Longrightarrow> dict_of_pairs ps = ps"
  using foldl_dict_set [of "[]" ps] by (simp add: dict_of_pairs_def)

section \<open>json.dumps\<close>

definition quote :: char where "quote = CHR 0x22"
definition backslash :: char where "backslash = CHR 0x5C"

definition esc_char :: "char \<Rightarrow> string" where
  "esc_char c =
     (if c = quote then [backslash, quote]
      else if c = backslash then [backslash, backslash]
      else if c = CHR 0x0A then [backslash, CHR ''n'']
      else if c = CHR 0x0D then [backslash, CHR ''r'']
      else if c = CHR 0x09 then [backslash, CHR ''t'']
      else if c = CHR 0x08 then [backslash, CHR ''b'']
      else if c = CHR 0x0C then [backslash, CHR ''f'']
      else let n = of_char c :: nat in
        if 32 \<le> n \<and> n \<le> 126 then [c]
        else backslash # ''u00'' @ [digit_char (n div 16), digit_char (n mod 16)])"

definition dumps_str :: "string \<Rightarrow> string" where
  "dumps_str s = quote # concat (map esc_char s) @ [quote]"

fun dumps :: "json \<Rightarrow> string"
  and dumps_items :: "json list \<Rightarrow> string"
  and dumps_fields :: "(string \<times> json) list \<Rightarrow> string"
where
  "dumps JNull = ''null''"
| "dumps (JBool b) = (if b then ''true'' else ''false'')"
| "dumps (JInt n) = str_int n"
| "dumps (JStr s) = dumps_str s"
| "dumps (JArr xs) = ''['' @ dumps_items xs @ '']''"
| "dumps (JObj fs) = ''{'' @ dumps_fields fs @ ''}''"
| "dumps_items [] = []"
| "dumps_items [x] = dumps x"
| "dumps_items (x # y # xs) = dumps x @ '', '' @ dumps_items (y # xs)"
| "dumps_fields [] = []"
| "dumps_fields [(k, v)] = dumps_str k @ '': '' @ dumps v"
| "dumps_fields ((k, v) # f # fs) = dumps_str k @ '': '' @ dumps v @ '', '' @ dumps_fields (f # fs)"

text \<open>\<open>sort_keys=True\<close> sorts the items of every dictionary, the nested ones included.\<close>

fun sort_keys :: "json \<Rightarrow> json" where
  "sort_keys (JArr xs) = JArr (map sort_keys xs)"
| "sort_keys (JObj fs) = JObj (sort_key fst (map (\<lambda>(k, v). (k, sort_keys v)) fs))"
| "sort_keys j = j"

definition dumps_sorted :: "json \<Rightarrow> string" where
  "dumps_sorted j = dumps (sort_keys j)"

section \<open>json.loads\<close>

definition is_ws :: "char \<Rightarrow> bool" where
  "is_ws c \<longleftrightarrow> c = CHR 0x20 \<or> c = CHR 0x09 \<or> c = CHR 0x0A \<or> c = CHR 0x0D"

definition skip_ws :: "string \<Rightarrow> string" where
  "skip_ws s = dropWhile is_ws s"

definition hex4 :: "string \<Rightarrow> (char \<times> string) option" where
  "hex4 s =
     (if length s < 4 then None
      else case of_base 16 0 (take 4 s) of
        None \<Rightarrow> None
      | Some n \<Rightarrow> if n < 256 then Some (char_of n, drop 4 s) else None)"

text \<open>The escapes that stand for one character.\<close>

definition unescape :: "char \<Rightarrow> char option" where
  "unescape c =
     (if c = quote \<or> c = backslash \<or> c = CHR ''/'' then Some c
      else if c = CHR ''n'' then Some (CHR 0x0A)
      else if c = CHR ''r'' then Some (CHR 0x0D)
      else if c = CHR ''t'' then Some (CHR 0x09)
      else if c = CHR ''b'' then Some (CHR 0x08)
      else if c = CHR ''f'' then Some (CHR 0x0C)
      else None)"

text \<open>The rest of a string literal after the opening quote.\<close>

function parse_str :: "string \<Rightarrow> (string \<times> string) option" where
  "parse_str [] = None"
| "parse_str (c # cs) =
     (if c = quote then Some ([], cs)
      else if c = backslash then
        (case cs of
           [] \<Rightarrow> None
         | e # r \<Rightarrow>
             if e = CHR ''u'' then
               (case hex4 r of
                  None \<Rightarrow> None
                | Some (d, r') \<Rightarrow> map_option (apfst (Cons d)) (parse_str r'))
             else
               (case unescape e of
                  None \<Rightarrow> None
                | Some d \<Rightarrow> map_option (apfst (Cons d)) (parse_str r)))
      else if of_char c < (32 :: nat) then None
      else map_option (apfst (Cons c)) (parse_str cs))"
  by pat_completeness auto
termination
  by (relation "measure length") (auto simp: hex4_def split: if_splits option.splits)

definition is_digit :: "char \<Rightarrow> bool" where
  "is_digit c \<longleftrightarrow> (let n = of_char c :: nat in 48 \<le> n \<and> n \<le> 57)"

definition parse_digits :: "string \<Rightarrow> (nat \<times> string) option" where
  "parse_digits s =
     (case s of
        [] \<Rightarrow> None
      | c # cs \<Rightarrow>
          if c = CHR ''0'' then Some (0, cs)
          else if is_digit c then
            map_option (\<lambda>n. (n, dropWhile is_digit s)) (of_base 10 0 (takeWhile is_digit s))
          else None)"

text \<open>A fraction or an exponent makes the number a float, which is outside the model.\<close>

definition parse_int :: "string \<Rightarrow> (json \<times> string) option" where
  "parse_int s =
     (let neg = take 1 s = ''-'' in
      case parse_digits (if neg then drop 1 s else s) of
        None \<Rightarrow> None
      | Some (n, r) \<Rightarrow>
          if take 1 r \<in> {''.'', ''e'', ''E''} then None
          else Some (JInt (if neg then - int n else int n), r))"

fun parse_value :: "nat \<Rightarrow> string \<Rightarrow> (json \<times> string) option"
  and parse_items :: "nat \<Rightarrow> string \<Rightarrow> (json list \<times> string) option"
  and parse_fields :: "nat \<Rightarrow> string \<Rightarrow> ((string \<times> json) list \<times> string) option"
where
  "parse_value 0 s = None"
| "parse_value (Suc n) s =
     (case s of
        [] \<Rightarrow> None
      | c # cs \<Rightarrow>
          if c = quote then map_option (apfst JStr) (parse_str cs)
          else if c = CHR ''{'' then
            (if take 1 (skip_ws cs) = ''}'' then Some (JObj [], drop 1 (skip_ws cs))
             else map_option (apfst (JObj \<circ> dict_of_pairs)) (parse_fields n (skip_ws cs)))
          else if c = CHR ''['' then
            (if take 1 (skip_ws cs) = '']'' then Some (JArr [], drop 1 (skip_ws cs))
             else map_option (apfst JArr) (parse_items n (skip_ws cs)))
          else if take 4 s = ''null'' then Some (JNull, drop 4 s)
          else if take 4 s = ''true'' then Some (JBool True, drop 4 s)
          else if take 5 s = ''false'' then Some (JBool False, drop 5 s)
          else parse_int s)"
| "parse_items 0 s = None"
| "parse_items (Suc n) s =
     (case parse_value n s of
        None \<Rightarrow> None
      | Some (j, r) \<Rightarrow>
          (case skip_ws r of
             [] \<Rightarrow> None
           | c # cs \<Rightarrow>
               if c = CHR '']'' then Some ([j], cs)
               else if c = CHR '','' then map_option (apfst (Cons j)) (parse_items n (skip_ws cs))
               else None))"
| "parse_fields 0 s = None"
| "parse_fields (Suc n) s =
     (if take 1 s \<noteq> [quote] then None
      else case parse_str (drop 1 s) of
        None \<Rightarrow> None
      | Some (k, r) \<Rightarrow>
          if take 1 (skip_ws r) \<noteq> '':'' then None
          else case parse_value n (skip_ws (drop 1 (skip_ws r))) of
            None \<Rightarrow> None
          | Some (v, r') \<Rightarrow>
              (case skip_ws r' of
                 [] \<Rightarrow> None
               | c # cs \<Rightarrow>
                   if c = CHR ''}'' then Some ([(k, v)], cs)
                   else if c = CHR '','' then
                     map_option (apfst (Cons (k, v))) (parse_fields n (skip_ws cs))
                   else None))"

text \<open>The fuel, one more than the length of the text, is enough (shown at the end).\<close>

definition loads :: "string \<Rightarrow> json option" where
  "loads s =
     (case parse_value (Suc (length s)) (skip_ws s) of
        None \<Rightarrow> None
      | Some (j, r) \<Rightarrow> if skip_ws r = [] then Some j else None)"


section \<open>The parser inverts the printer\<close>

text \<open>A Python value has distinct keys in every dictionary.\<close>

fun wf_json :: "json \<Rightarrow> bool" where
  "wf_json (JArr xs) = (\<forall>x \<in> set xs. wf_json x)"
| "wf_json (JObj fs) = (distinct (map fst fs) \<and> (\<forall>f \<in> set fs. wf_json (snd f)))"
| "wf_json _ = True"

lemma of_char_byte: "of_char c = (n :: nat) \<Longrightarrow> c = char_of n"
  by (metis char_of_char)

lemma hex4_u00: "hex4 (''00'' @ [digit_char (of_char c div 16), digit_char (of_char c mod 16)] @ r) = Some (c, r)"
proof -
  have d: "of_char c div 16 < (16 :: nat)" using of_char_less_256 [of c] by linarith
  have z: "digit_val (CHR ''0'') = Some 0" by (simp add: digit_val_def)
  have "of_base 16 0 (''00'' @ [digit_char (of_char c div 16), digit_char (of_char c mod 16)])
      = Some (of_char c)"
    using d by (simp add: z)
  then show ?thesis
    using of_char_less_256 [of c] by (simp add: hex4_def)
qed

lemma parse_str_escape:
  "unescape e = Some d \<Longrightarrow> parse_str (backslash # e # s) = map_option (apfst (Cons d)) (parse_str s)"
  by (auto simp: unescape_def quote_def backslash_def split: if_splits)

lemma parse_str_u:
  "parse_str (backslash # CHR ''u'' # s) = (case hex4 s of None \<Rightarrow> None
      | Some (d, r') \<Rightarrow> map_option (apfst (Cons d)) (parse_str r'))"
  by (simp add: backslash_def quote_def)

lemma parse_str_u00:
  "parse_str ((backslash # ''u00'' @ [digit_char (of_char c div 16), digit_char (of_char c mod 16)]) @ s)
    = map_option (apfst (Cons c)) (parse_str s)"
  using parse_str_u [of "''00'' @ [digit_char (of_char c div 16), digit_char (of_char c mod 16)] @ s"]
  unfolding hex4_u00 by simp

lemma esc_char_simple:
  "c \<in> {quote, backslash, CHR 0x0A, CHR 0x0D, CHR 0x09, CHR 0x08, CHR 0x0C} \<Longrightarrow>
    \<exists>e. unescape e = Some c \<and> esc_char c = [backslash, e]"
  by (auto simp: esc_char_def unescape_def quote_def backslash_def)

lemma esc_char_other:
  "c \<notin> {quote, backslash, CHR 0x0A, CHR 0x0D, CHR 0x09, CHR 0x08, CHR 0x0C} \<Longrightarrow>
    esc_char c = [c] \<and> c \<noteq> quote \<and> c \<noteq> backslash \<and> 32 \<le> (of_char c :: nat)
    \<or> esc_char c = backslash # ''u00'' @ [digit_char (of_char c div 16), digit_char (of_char c mod 16)]"
  by (simp add: esc_char_def Let_def)

lemma parse_str_esc_char:
  "parse_str (esc_char c @ s) = map_option (apfst (Cons c)) (parse_str s)"
proof (cases "c \<in> {quote, backslash, CHR 0x0A, CHR 0x0D, CHR 0x09, CHR 0x08, CHR 0x0C}")
  case True
  then obtain e where "unescape e = Some c" "esc_char c = [backslash, e]"
    using esc_char_simple by blast
  then show ?thesis using parse_str_escape [of e c s] by simp
next
  case False
  then show ?thesis using esc_char_other [of c] parse_str_u00 [of c s] by auto
qed

lemma parse_str_dumps: "parse_str (concat (map esc_char s) @ quote # r) = Some (s, r)"
  by (induction s) (simp_all add: parse_str_esc_char)

lemma is_digit_char [simp]: "d < 10 \<Longrightarrow> is_digit (digit_char d)"
  by (simp add: is_digit_def digit_char_def Let_def)

lemma to_base_digits: "set (to_base 10 n) \<subseteq> Collect is_digit"
proof (induction n rule: less_induct)
  case (less n)
  then show ?case by (subst to_base.simps) auto
qed

lemma to_base_hd: "0 < n \<Longrightarrow> \<exists>d s. to_base 10 n = digit_char d # s \<and> 0 < d \<and> d < 10"
proof (induction n rule: less_induct)
  case (less n)
  show ?case
  proof (cases "n < 10")
    case True
    with less.prems show ?thesis by (subst to_base.simps) auto
  next
    case False
    then have "0 < n div 10" "n div 10 < n" by simp_all
    with less.IH [of "n div 10"] obtain d s where
      "to_base 10 (n div 10) = digit_char d # s" "0 < d" "d < 10" by blast
    with False show ?thesis by (subst to_base.simps) auto
  qed
qed

text \<open>What follows a value in a printed text: nothing, a comma, a closing bracket or the end of the line.\<close>

definition delim :: "string \<Rightarrow> bool" where
  "delim r \<longleftrightarrow> r = [] \<or> hd r \<in> {CHR '','', CHR '']'', CHR ''}'', CHR 0x0A}"

lemma delim_simps [simp]:
  "delim []" "delim (CHR '','' # r)" "delim (CHR '']'' # r)" "delim (CHR ''}'' # r)"
  "delim (CHR 0x0A # r)"
  by (simp_all add: delim_def)

lemma delim_not_digit: "delim (c # r) \<Longrightarrow> \<not> is_digit c"
  by (auto simp: delim_def is_digit_def)

lemma takeWhile_digits:
  assumes "set ds \<subseteq> Collect is_digit" "delim r"
  shows "takeWhile is_digit (ds @ r) = ds \<and> dropWhile is_digit (ds @ r) = r"
proof -
  have "takeWhile is_digit r = [] \<and> dropWhile is_digit r = r"
    using assms(2) delim_not_digit by (cases r) auto
  moreover have "\<And>x. x \<in> set ds \<Longrightarrow> is_digit x" using assms(1) by auto
  ultimately show ?thesis by (simp add: takeWhile_append2 dropWhile_append2)
qed

lemma parse_digits_to_base: "delim r \<Longrightarrow> parse_digits (to_base 10 n @ r) = Some (n, r)"
proof (cases "n = 0")
  case True
  moreover have "digit_char 0 = CHR ''0''" by code_simp
  ultimately show ?thesis by (simp add: parse_digits_def to_base.simps [of 10 0])
next
  case False
  assume r: "delim r"
  from False obtain d s where ds: "to_base 10 n = digit_char d # s" "0 < d" "d < 10"
    using to_base_hd [of n] by blast
  have nz: "digit_char d \<noteq> CHR ''0''"
  proof
    assume "digit_char d = CHR ''0''"
    then have "Some d = digit_val (CHR ''0'')" using ds(3) digit_val_char [of d] by simp
    with ds(2) show False by (simp add: digit_val_def)
  qed
  have td: "takeWhile is_digit (digit_char d # s @ r) = digit_char d # s"
    "dropWhile is_digit (digit_char d # s @ r) = r"
    using takeWhile_digits [OF to_base_digits r, of n] ds(1) by simp_all
  have "of_base 10 0 (digit_char d # s) = Some n"
    using of_base_to_base_0 [of 10 n] ds(1) by simp
  with td nz ds(3) show ?thesis by (simp add: parse_digits_def ds(1))
qed

lemma not_minus_digit: "set ds \<subseteq> Collect is_digit \<Longrightarrow> ds \<noteq> [] \<Longrightarrow> take 1 (ds @ r) \<noteq> ''-''"
  by (cases ds) (auto simp: is_digit_def)

lemma parse_int_str_int: "delim r \<Longrightarrow> parse_int (str_int n @ r) = Some (JInt n, r)"
proof -
  assume r: "delim r"
  then have "take 1 r \<notin> {''.'', ''e'', ''E''}"
    by (cases r) (auto simp: delim_def)
  moreover have "take 1 (to_base 10 m @ r) \<noteq> ''-''" for m
    using not_minus_digit [OF to_base_digits] by simp
  ultimately show ?thesis
    using parse_digits_to_base [OF r]
    by (auto simp: parse_int_def str_int_def Let_def)
qed

section \<open>The round trip\<close>

text \<open>
  The fuel a value needs: one unit for each value and one for each item of a list or a
  dictionary. It is at most the length of the printed value, so the fuel of \<open>loads\<close> is
  enough for everything \<open>dumps\<close> prints.
\<close>

fun weight :: "json \<Rightarrow> nat"
  and items_weight :: "json list \<Rightarrow> nat"
  and fields_weight :: "(string \<times> json) list \<Rightarrow> nat"
where
  "weight (JArr xs) = Suc (items_weight xs)"
| "weight (JObj fs) = Suc (fields_weight fs)"
| "weight _ = 1"
| "items_weight [] = 0"
| "items_weight (x # xs) = Suc (weight x + items_weight xs)"
| "fields_weight [] = 0"
| "fields_weight ((k, v) # fs) = Suc (weight v + fields_weight fs)"

lemma length_dumps_str: "2 \<le> length (dumps_str s)"
  by (simp add: dumps_str_def)

lemma weight_le_length:
  "weight j \<le> length (dumps j)"
  "items_weight xs \<le> length (dumps_items xs) + 1"
  "fields_weight fs \<le> length (dumps_fields fs)"
proof (induction j and xs and fs rule: dumps_dumps_items_dumps_fields.induct)
  case (3 n)
  then show ?case by (simp add: str_int_def Suc_le_eq)
next
  case (4 s)
  then show ?case using length_dumps_str [of s] by simp
qed (use length_dumps_str in \<open>auto simp: add.commute le_SucI\<close>)

lemma dumps_first:
  "\<exists>c cs. dumps j = c # cs \<and> \<not> is_ws c \<and> c \<noteq> CHR '']'' \<and> c \<noteq> CHR ''}''"
proof (cases j)
  case (JInt n)
  obtain c cs where c: "to_base 10 (nat n) = c # cs"
    by (cases "to_base 10 (nat n)") auto
  then have "is_digit c" using to_base_digits [of "nat n"] by auto
  then have "\<not> is_ws c \<and> c \<noteq> CHR '']'' \<and> c \<noteq> CHR ''}''" by (auto simp: is_ws_def is_digit_def)
  with JInt c show ?thesis by (auto simp: str_int_def is_ws_def)
qed (auto simp: dumps_str_def quote_def is_ws_def)

lemma dumps_fields_first: "fs \<noteq> [] \<Longrightarrow> \<exists>cs. dumps_fields fs = quote # cs"
  by (cases fs rule: dumps_fields.cases) (auto simp: dumps_str_def)

lemma skip_ws_dumps [simp]: "skip_ws (dumps j @ r) = dumps j @ r"
  using dumps_first [of j] by (auto simp: skip_ws_def)

lemma skip_ws_blank [simp]: "skip_ws (CHR '' '' # s) = skip_ws s"
  by (simp add: skip_ws_def is_ws_def)

lemma skip_ws_delim [simp]:
  "skip_ws (CHR '','' # s) = CHR '','' # s" "skip_ws (CHR '']'' # s) = CHR '']'' # s"
  "skip_ws (CHR ''}'' # s) = CHR ''}'' # s" "skip_ws (CHR '':'' # s) = CHR '':'' # s"
  "skip_ws [] = []" "skip_ws (quote # s) = quote # s"
  by (simp_all add: skip_ws_def is_ws_def quote_def)

lemma dumps_items_first:
  "xs \<noteq> [] \<Longrightarrow> \<exists>c cs. dumps_items xs = c # cs \<and> \<not> is_ws c \<and> c \<noteq> CHR '']''"
  using dumps_first [of "hd xs"] by (cases xs rule: dumps_items.cases) auto

lemma skip_ws_items [simp]: "skip_ws (dumps_items (x # xs) @ s) = dumps_items (x # xs) @ s"
  using dumps_items_first [of "x # xs"] by (auto simp: skip_ws_def)

lemma skip_ws_fields [simp]: "skip_ws (dumps_fields (x # xs) @ s) = dumps_fields (x # xs) @ s"
  using dumps_fields_first [of "x # xs"] by auto

lemma parse_value_first:
  "c \<noteq> quote \<Longrightarrow> c \<noteq> CHR ''{'' \<Longrightarrow> c \<noteq> CHR ''['' \<Longrightarrow> c \<noteq> CHR ''n'' \<Longrightarrow> c \<noteq> CHR ''t'' \<Longrightarrow>
    c \<noteq> CHR ''f'' \<Longrightarrow> parse_value (Suc n) (c # cs) = parse_int (c # cs)"
  by (simp add: quote_def)

lemma parse_value_int: "delim r \<Longrightarrow> parse_value (Suc f) (str_int n @ r) = Some (JInt n, r)"
proof -
  assume r: "delim r"
  obtain c cs where c: "str_int n = c # cs" by (cases "str_int n") (auto simp: str_int_def split: if_splits)
  have "c = CHR ''-'' \<or> is_digit c"
    using c to_base_digits [of "nat n"] by (auto simp: str_int_def split: if_splits)
  then have "parse_value (Suc f) (c # cs @ r) = parse_int (c # cs @ r)"
    by (intro parse_value_first) (auto simp: is_digit_def quote_def)
  with parse_int_str_int [OF r, of n] c show ?thesis by simp
qed

lemma parse_str_dumps_str: "parse_str (drop 1 (dumps_str s @ r)) = Some (s, r)"
  using parse_str_dumps [of s r] by (simp add: dumps_str_def)

lemma take_dumps_str [simp]: "take 1 (dumps_str s @ r) = [quote]"
  by (simp add: dumps_str_def)

lemma parse_fields_step:
  "parse_fields (Suc n) (dumps_str k @ r) =
     (if take 1 (skip_ws r) \<noteq> '':'' then None
      else case parse_value n (skip_ws (drop 1 (skip_ws r))) of
        None \<Rightarrow> None
      | Some (v, r') \<Rightarrow>
          (case skip_ws r' of
             [] \<Rightarrow> None
           | c # cs \<Rightarrow>
               if c = CHR ''}'' then Some ([(k, v)], cs)
               else if c = CHR '','' then
                 map_option (apfst (Cons (k, v))) (parse_fields n (skip_ws cs))
               else None))"
  by (simp only: parse_fields.simps take_dumps_str parse_str_dumps_str option.case prod.case simp_thms if_False)

lemma parse_value_dumps:
  "wf_json j \<Longrightarrow> weight j \<le> f \<Longrightarrow> delim r \<Longrightarrow> parse_value f (dumps j @ r) = Some (j, r)"
  "\<forall>x \<in> set xs. wf_json x \<Longrightarrow> xs \<noteq> [] \<Longrightarrow> items_weight xs \<le> f \<Longrightarrow>
    parse_items f (dumps_items xs @ CHR '']'' # r) = Some (xs, r)"
  "\<forall>x \<in> set fs. wf_json (snd x) \<Longrightarrow> fs \<noteq> [] \<Longrightarrow> fields_weight fs \<le> f \<Longrightarrow>
    parse_fields f (dumps_fields fs @ CHR ''}'' # r) = Some (fs, r)"
proof (induction j and xs and fs arbitrary: f r and f r and f r
    rule: dumps_dumps_items_dumps_fields.induct)
  case (3 n)
  then show ?case using parse_value_int [of r "f - 1" n] by (cases f) auto
next
  case (4 s)
  then show ?case using parse_str_dumps_str [of s r] by (cases f) (auto simp: dumps_str_def)
next
  case (5 xs)
  then obtain g where f: "f = Suc g" by (cases f) auto
  show ?case
  proof (cases xs)
    case (Cons x ys)
    then obtain c cs where "dumps_items xs = c # cs" "\<not> is_ws c" "c \<noteq> CHR '']''"
      using dumps_items_first [of xs] by auto
    moreover have "skip_ws (c # cs @ CHR '']'' # r) = c # cs @ CHR '']'' # r"
      using calculation(2) by (simp add: skip_ws_def)
    ultimately show ?thesis using 5 f Cons by (simp add: quote_def)
  qed (simp add: f quote_def)
next
  case (6 fs)
  then obtain g where f: "f = Suc g" by (cases f) auto
  show ?case
  proof (cases fs)
    case (Cons x gs)
    then obtain cs where "dumps_fields fs = quote # cs" using dumps_fields_first by blast
    moreover have "skip_ws (CHR 0x22 # s) = CHR 0x22 # s" for s
      using skip_ws_delim(6) by (simp add: quote_def)
    ultimately show ?thesis using 6 f Cons by (simp add: quote_def)
  qed (simp add: f quote_def)
next
  case (8 x)
  then show ?case by (cases f) auto
next
  case (9 x y xs)
  then show ?case by (cases f) auto
next
  case (11 k v)
  then show ?case by (cases f) (auto simp: parse_fields_step simp del: parse_fields.simps(2))
next
  case (12 k v p fs)
  then show ?case by (cases f) (auto simp: parse_fields_step simp del: parse_fields.simps(2))
qed (auto simp: quote_def gr0_conv_Suc Suc_le_eq)

theorem loads_dumps: "wf_json j \<Longrightarrow> loads (dumps j) = Some j"
  using parse_value_dumps(1) [of j "Suc (length (dumps j))" "[]"] weight_le_length(1) [of j]
    skip_ws_dumps [of j "[]"]
  by (simp add: loads_def)

lemma loads_dumps_line: "wf_json j \<Longrightarrow> loads (dumps j @ [CHR 0x0A]) = Some j"
  using parse_value_dumps(1) [of j "Suc (length (dumps j @ [CHR 0x0A]))" "[CHR 0x0A]"]
    weight_le_length(1) [of j] skip_ws_dumps [of j "[CHR 0x0A]"]
  by (simp add: loads_def) (simp add: skip_ws_def is_ws_def)

lemma dumps_inj: "wf_json i \<Longrightarrow> wf_json j \<Longrightarrow> dumps i = dumps j \<longleftrightarrow> i = j"
  by (metis loads_dumps option.inject)

section \<open>The fuel of the parser\<close>

text \<open>
  A parser that succeeds has consumed as many characters as it has used fuel, so a fuel as long as
  the text is as good as any: the parser never fails for want of fuel.
\<close>

lemma length_skip_ws: "length (skip_ws s) \<le> length s"
  by (simp add: skip_ws_def length_dropWhile_le)

lemma parse_str_shorter: "parse_str s = Some (x, r) \<Longrightarrow> length r < length s"
proof (induction s arbitrary: x r rule: parse_str.induct)
  case (2 c cs)
  have hex: "hex4 u = Some (d, v) \<Longrightarrow> length v \<le> length u" for u d v
    by (auto simp: hex4_def split: if_splits option.splits)
  show ?case using 2
    by (auto split: if_splits list.splits option.splits dest!: hex) (fastforce dest: hex)+
qed simp

lemma parse_int_shorter: "parse_int s = Some (j, r) \<Longrightarrow> length r < length s"
proof -
  have d: "parse_digits t = Some (n, u) \<Longrightarrow> length u < length t" for t n u
    by (cases t) (auto simp: parse_digits_def is_digit_def le_imp_less_Suc length_dropWhile_le split: if_splits)
  assume "parse_int s = Some (j, r)"
  then obtain n where "parse_digits (if take 1 s = ''-'' then drop 1 s else s) = Some (n, r)"
    by (auto simp: parse_int_def Let_def split: option.splits if_splits)
  from d [OF this] show ?thesis by (auto split: if_splits)
qed


lemma shorter_skip: "length r < length (skip_ws s) \<Longrightarrow> length r < length s"
  using length_skip_ws [of s] by linarith

lemma parse_shorter:
  "parse_value n s = Some (j, r) \<Longrightarrow> length r < length s"
  "parse_items n s = Some (xs, r) \<Longrightarrow> length r < length s"
  "parse_fields n s = Some (fs, r) \<Longrightarrow> length r < length s"
proof (induction n s and n s and n s arbitrary: j r and xs r and fs r
    rule: parse_value_parse_items_parse_fields.induct)
  case (2 n s)
  show ?case
  proof (cases s)
    case (Cons c cs)
    have k: "length u < length (skip_ws cs) \<Longrightarrow> length u < length s" for u
      using length_skip_ws [of cs] Cons by simp
    have e: "length (drop 1 (skip_ws cs)) < length s"
      using length_skip_ws [of cs] Cons by simp
    show ?thesis
      using 2 Cons e k parse_str_shorter parse_int_shorter
      by (fastforce split: if_splits)
  qed (use 2 in simp)
next
  case (4 n s)
  obtain x r' where x: "parse_value n s = Some (x, r')" and l: "length r' < length s"
    using 4 by (auto split: option.splits)
  obtain c cs where c: "skip_ws r' = c # cs"
    using 4 x by (auto split: list.splits)
  then have "length cs < length r'" using length_skip_ws [of r'] by simp
  then show ?case
    using 4 x l c length_skip_ws [of cs] by (fastforce split: if_splits)
next
  case (6 n s)
  obtain k r1 where k: "parse_str (drop 1 s) = Some (k, r1)" and s: "take 1 s = [quote]"
    using 6(3) by (auto split: option.splits if_splits)
  have l1: "length r1 < length s" using parse_str_shorter [OF k] by simp
  obtain v r' where v: "parse_value n (skip_ws (drop 1 (skip_ws r1))) = Some (v, r')"
    and colon: "take 1 (skip_ws r1) = '':''"
    using 6(3) k s by (auto split: option.splits if_splits)
  have l2: "length r' < length s"
    using 6(1) [OF _ k _ , of k r1 v r'] v colon s l1 length_skip_ws [of r1]
      length_skip_ws [of "drop 1 (skip_ws r1)"] by fastforce
  obtain c cs where c: "skip_ws r' = c # cs"
    using 6(3) k s v colon by (auto split: list.splits)
  then have l3: "length cs < length r'" using length_skip_ws [of r'] by simp
  then show ?case
    using 6 k s v colon c l2 length_skip_ws [of cs] by (fastforce split: if_splits)
qed auto


lemma parse_fuel:
  "parse_value n s = Some (j, r) \<Longrightarrow> length s \<le> m + length r \<Longrightarrow> parse_value m s = Some (j, r)"
  "parse_items n s = Some (xs, r) \<Longrightarrow> length s \<le> m + length r \<Longrightarrow> parse_items m s = Some (xs, r)"
  "parse_fields n s = Some (fs, r) \<Longrightarrow> length s \<le> m + length r \<Longrightarrow> parse_fields m s = Some (fs, r)"
proof (induction n s and n s and n s arbitrary: j r m and xs r m and fs r m
    rule: parse_value_parse_items_parse_fields.induct)
  case (2 n s)
  obtain k where m: "m = Suc k"
    using parse_shorter(1) [OF 2(3)] 2(4) by (cases m) auto
  show ?case
  proof (cases s)
    case (Cons c cs)
    have le: "length (skip_ws cs) \<le> k + length r"
      using length_skip_ws [of cs] Cons 2(4) m by simp
    have q: "quote \<noteq> CHR ''{''" "quote \<noteq> CHR ''[''" by (simp_all add: quote_def)
    consider (obj) "c = CHR ''{''" "take 1 (skip_ws cs) \<noteq> ''}''"
      | (arr) "c = CHR ''[''" "take 1 (skip_ws cs) \<noteq> '']''"
      | (flat) "c = CHR ''{'' \<longrightarrow> take 1 (skip_ws cs) = ''}''" "c = CHR ''['' \<longrightarrow> take 1 (skip_ws cs) = '']''"
      by blast
    then show ?thesis
    proof cases
      case obj
      then obtain fs where "parse_fields n (skip_ws cs) = Some (fs, r)" "j = JObj (dict_of_pairs fs)"
        using 2(3) Cons q by auto
      moreover have "c \<noteq> quote" using obj(1) q by simp
      ultimately have "parse_fields k (skip_ws cs) = Some (fs, r)" "j = JObj (dict_of_pairs fs)"
        using 2(1) [OF Cons _ obj _ le] by blast+
      then show ?thesis using obj(2) q by (simp add: Cons m obj(1) del: parse_fields.simps)
    next
      case arr
      then obtain xs where "parse_items n (skip_ws cs) = Some (xs, r)" "j = JArr xs"
        using 2(3) Cons q by auto
      moreover have "c \<noteq> quote" "c \<noteq> CHR ''{''" using arr(1) q by simp_all
      ultimately have "parse_items k (skip_ws cs) = Some (xs, r)" "j = JArr xs"
        using 2(2) [OF Cons _ _ arr _ le] by blast+
      then show ?thesis using arr(2) q by (simp add: Cons m arr(1) del: parse_items.simps)
    next
      case flat
      then have "parse_value (Suc k) (c # cs) = parse_value (Suc n) (c # cs)" by simp
      with 2(3) Cons m show ?thesis by simp
    qed
  qed (use 2 in simp)
next
  case (4 n s)
  obtain x r' where x: "parse_value n s = Some (x, r')"
    using 4(3) by (auto split: option.splits)
  obtain k where m: "m = Suc k"
    using parse_shorter(2) [OF 4(3)] 4(4) by (cases m) auto
  obtain c cs where c: "skip_ws r' = c # cs"
    using 4(3) x by (auto split: list.splits)
  then have l: "length cs < length r'" using length_skip_ws [of r'] by simp
  have "length r \<le> length cs"
    using 4(3) x c parse_shorter(2) [of n "skip_ws cs"] length_skip_ws [of cs] by (fastforce split: if_splits)
  then have v: "parse_value k s = Some (x, r')" using 4(1) [OF x] 4(4) m l by simp
  have le: "length (skip_ws cs) \<le> k + length r"
    using 4(4) m l parse_shorter(1) [OF x] length_skip_ws [of cs] by simp
  show ?case
  proof (cases "c = CHR '']''")
    case True
    with 4(3) x v c m show ?thesis by simp
  next
    case False
    then obtain ys where ys: "c = CHR '',''" "parse_items n (skip_ws cs) = Some (ys, r)" "xs = x # ys"
      using 4(3) x c by (auto split: if_splits)
    have "parse_items k (skip_ws cs) = Some (ys, r)"
      using 4(2) [OF x _ c False ys(1,2) le] by simp
    with False ys v c m show ?thesis by simp
  qed
next
  case (6 n s)
  obtain k r1 where k: "parse_str (drop 1 s) = Some (k, r1)" and s: "take 1 s = [quote]"
    using 6(3) by (auto split: option.splits if_splits)
  have l1: "length r1 < length s" using parse_str_shorter [OF k] by simp
  let ?t = "skip_ws (drop 1 (skip_ws r1))"
  obtain v r' where v: "parse_value n ?t = Some (v, r')"
    and colon: "take 1 (skip_ws r1) = '':''"
    using 6(3) k s by (auto split: option.splits if_splits)
  obtain m' where m: "m = Suc m'"
    using parse_shorter(3) [OF 6(3)] 6(4) by (cases m) auto
  have lt: "length ?t < length s"
    using l1 length_skip_ws [of r1] length_skip_ws [of "drop 1 (skip_ws r1)"] by simp
  obtain c cs where c: "skip_ws r' = c # cs"
    using 6(3) k s v colon by (auto split: list.splits)
  then have l3: "length cs < length r'" using length_skip_ws [of r'] by simp
  have "length r \<le> length cs"
    using 6(3) k s v colon c parse_shorter(3) [of n "skip_ws cs"] length_skip_ws [of cs] by (fastforce split: if_splits)
  then have v': "parse_value m' ?t = Some (v, r')"
    using 6(1) [OF _ k _ , of k r1 v r' m'] s colon v 6(4) m l3 lt by simp
  have le: "length (skip_ws cs) \<le> m' + length r"
    using 6(4) m l3 parse_shorter(1) [OF v] lt length_skip_ws [of cs] by simp
  show ?case
  proof (cases "c = CHR ''}''")
    case True
    with 6(3) k s v v' colon c m show ?thesis by simp
  next
    case False
    then obtain gs where gs: "c = CHR '',''" "parse_fields n (skip_ws cs) = Some (gs, r)" "fs = (k, v) # gs"
      using 6(3) k s v colon c by (auto split: if_splits)
    have "parse_fields m' (skip_ws cs) = Some (gs, r)"
      using 6(2) [OF _ k _ _ v _ c False gs(1,2) le] s colon by simp
    with False gs k s v' colon c m show ?thesis by simp
  qed
qed auto

section \<open>Properties\<close>

text \<open>The bound on the recursion of the parser is never the reason why a text is rejected: \<open>json.loads\<close>
  yields a value exactly if the parser does so with some amount of fuel, followed by nothing but blanks. So the
  model of the parser terminates on every text with the answer the unbounded recursion would give.\<close>

theorem loads_terminates:
  "loads s = Some j \<longleftrightarrow> (\<exists>n r. parse_value n (skip_ws s) = Some (j, r) \<and> skip_ws r = [])"
proof
  show "\<exists>n r. parse_value n (skip_ws s) = Some (j, r) \<and> skip_ws r = []" if parsed: "loads s = Some j"
  proof -
    obtain i r where "parse_value (Suc (length s)) (skip_ws s) = Some (i, r)" "skip_ws r = []" "i = j"
      using parsed unfolding loads_def
      by (cases "parse_value (Suc (length s)) (skip_ws s)") (auto simp del: parse_value.simps split: if_splits)
    then show ?thesis by blast
  qed
next
  assume "\<exists>n r. parse_value n (skip_ws s) = Some (j, r) \<and> skip_ws r = []"
  then obtain n r where p: "parse_value n (skip_ws s) = Some (j, r)" "skip_ws r = []" by blast
  have "length (skip_ws s) \<le> Suc (length s) + length r" using length_skip_ws [of s] by simp
  from parse_fuel(1) [OF p(1) this] p(2) show "loads s = Some j"
    by (simp only: loads_def option.case prod.case if_True simp_thms)
qed

end
