(* ===== verification/Sample_Provider.thy ===== *)
theory Sample_Provider
  imports Cert_Store Json
begin

text \<open>
  A concrete instance of the external library that satisfies its documented behaviour
  \<open>x509_laws\<close>. It shows that the hypotheses of the theorems about certificates can hold; it has none of
  the security of the real one. A certificate's PEM text is the JSON text of its fields, and a
  signature is the key followed by the data.
\<close>

definition name_json :: "x509_name \<Rightarrow> json" where
  "name_json n = JArr (map (\<lambda>(k, v). JArr [JStr k, JStr v]) n)"

fun name_of_json :: "json \<Rightarrow> x509_name" where
  "name_of_json (JArr xs) = concat (map (\<lambda>x. case x of JArr [JStr k, JStr v] \<Rightarrow> [(k, v)] | _ \<Rightarrow> []) xs)"
| "name_of_json _ = []"

definition bytes_json :: "bytes \<Rightarrow> json" where
  "bytes_json bs = JArr (map (\<lambda>b. JInt (uint b)) bs)"

fun bytes_of_json :: "json \<Rightarrow> bytes" where
  "bytes_of_json (JArr xs) = concat (map (\<lambda>x. case x of JInt n \<Rightarrow> [word_of_int n] | _ \<Rightarrow> []) xs)"
| "bytes_of_json _ = []"

lemma name_of_json_inv [simp]: "name_of_json (name_json n) = n"
  by (induction n) (auto simp: name_json_def)

lemma bytes_of_json_inv [simp]: "bytes_of_json (bytes_json bs) = bs"
  by (induction bs) (auto simp: bytes_json_def)

definition cert_json :: "certificate \<Rightarrow> json" where
  "cert_json c =
     JArr [name_json (cert_subject c), name_json (cert_issuer c), JInt (micros (cert_not_before c)),
       JInt (micros (cert_not_after c)), bytes_json (cert_public_key c), bytes_json (cert_signature c),
       bytes_json (cert_tbs c), bytes_json (cert_der c)]"

fun cert_of_json :: "json \<Rightarrow> certificate option" where
  "cert_of_json (JArr [s, i, JInt nb, JInt na, pk, sig, tbs, der]) =
     Some \<lparr>cert_subject = name_of_json s, cert_issuer = name_of_json i, cert_not_before = UTC nb,
           cert_not_after = UTC na, cert_public_key = bytes_of_json pk,
           cert_signature = bytes_of_json sig, cert_tbs = bytes_of_json tbs, cert_der = bytes_of_json der\<rparr>"
| "cert_of_json _ = None"

lemma cert_of_json_inv [simp]: "cert_of_json (cert_json c) = Some c"
  by (simp add: cert_json_def)

lemma wf_cert_json [simp]: "wf_json (cert_json c)"
  by (auto simp: cert_json_def name_json_def bytes_json_def)

definition sample_tbs :: "cert_request \<Rightarrow> bytes" where
  "sample_tbs r = encode (dumps (JArr [name_json (req_subject r), name_json (req_issuer r),
     bytes_json (req_public_key r), JInt (req_serial r), JInt (micros (req_not_before r)),
     JInt (micros (req_not_after r)), JBool (req_ca r)]))"

definition sample_provider :: provider where
  "sample_provider =
     \<lparr>load_pem_x509 = (\<lambda>s. Option.bind (loads s) cert_of_json),
      pem_of_cert = (\<lambda>c. dumps (cert_json c)),
      ecdsa_verify = (\<lambda>pk sig d. if sig = pk @ d then Verified else InvalidSignature),
      ecdsa_sign = (\<lambda>key k d. key @ d),
      public_key_of = (\<lambda>key. key),
      sign_cert = (\<lambda>r key.
        \<lparr>cert_subject = req_subject r, cert_issuer = req_issuer r,
         cert_not_before = whole_seconds (req_not_before r),
         cert_not_after = whole_seconds (req_not_after r),
         cert_public_key = req_public_key r,
         cert_signature = key @ sample_tbs r, cert_tbs = sample_tbs r,
         cert_der = sample_tbs r @ key\<rparr>)\<rparr>"

lemma x509_laws_sample [simp]: "x509_laws sample_provider"
  by (simp add: x509_laws_def sample_provider_def loads_dumps)

text \<open>A hierarchy built on 1970-01-03 with three keys and serial numbers.\<close>

definition sample_now :: datetime where
  "sample_now = UTC 172800000000"

definition sample_store :: cert_store where
  "sample_store = generate_in_memory sample_provider [] sample_now ([1], [2], [3]) (11, 12, 13)"

end
