(* ===== verification/Authentication.thy ===== *)
theory Authentication
  imports Session Sample_Provider Challenge_Response
begin

text \<open>
  Service 0x29, \<open>sim/core/authentication.py\<close>: validation of the tester's certificate, the
  challenge, the proof of possession and the nonce history.

  The handler is the record \<open>auth\<close>; the session machine it shares with the ECU is passed and returned
  next to it. The certificate store is optional, as in the source; reading an attribute
  of \<open>None\<close> raises \<open>AttributeError\<close>. The results are sums, \<open>Inl\<close> for an exception
  that leaves the handler: the state next to it is what had been assigned by then.
\<close>

section \<open>State\<close>

record auth =
  au_cert_store :: "cert_store option"
  au_nonce_size :: nat
  au_pending_challenge :: "bytes option"
  au_pending_tester_cert :: "certificate option"
  au_granted :: "string option"
  au_used_nonces :: "bytes set"

text \<open>The dictionary that \<open>communicate_certificate\<close> returns.\<close>

record challenge_data =
  cd_challenge :: "int list"
  cd_ecu_cert :: "string option"

definition authentication_init :: "policy \<Rightarrow> cert_store option \<Rightarrow> auth" where
  "authentication_init policy cs =
     \<lparr>au_cert_store = cs, au_nonce_size = pol_nonce_size_bytes policy,
      au_pending_challenge = None, au_pending_tester_cert = None, au_granted = None,
      au_used_nonces = {}\<rparr>"

section \<open>Operations\<close>

definition auth_clear_access :: "auth \<Rightarrow> auth" where
  "auth_clear_access a =
     a\<lparr>au_granted := None, au_pending_challenge := None, au_pending_tester_cert := None\<rparr>"

definition validate_cert ::
  "provider \<Rightarrow> string \<Rightarrow> auth \<Rightarrow> session_sm \<Rightarrow> (exn + (bool \<times> int option)) \<times> session_sm" where
  "validate_cert P cert_pem a sm =
     (case parse_certificate P cert_pem of
        None \<Rightarrow> (Inr (False, Some 0x73), sm)
      | Some cert \<Rightarrow>
          let (now, sm) = utcnow sm in
          if \<not> is_cert_time_valid cert now then (Inr (False, Some 0x75), sm)
          else (case au_cert_store a of
              None \<Rightarrow> (Inl (AttributeError ''root_ca_cert''), sm)
            | Some cs \<Rightarrow>
                let root_ca = cs_root_ca_cert cs in
                if \<not> cert_issuer_matches cert root_ca then (Inr (False, Some 0x78), sm)
                else (case verify_cert_signed_by P cert root_ca of
                    Inl e \<Rightarrow> (Inl e, sm)
                  | Inr ok \<Rightarrow>
                      if \<not> ok then (Inr (False, Some 0x76), sm)
                      else if is_revoked cs (cert_fingerprint_sha256 cert)
                      then (Inr (False, Some 0x74), sm)
                      else (Inr (True, None), sm))))"

definition communicate_certificate ::
  "provider \<Rightarrow> string \<Rightarrow> int \<Rightarrow> auth \<Rightarrow> session_sm \<Rightarrow>
    (exn + (bool \<times> challenge_data option \<times> int option)) \<times> auth \<times> session_sm" where
  "communicate_certificate P cert_pem session_id a sm =
     (case validate_cert P cert_pem a sm of
        (Inl e, sm) \<Rightarrow> (Inl e, a, sm)
      | (Inr (ok, nrc), sm) \<Rightarrow>
          if \<not> ok then (Inr (False, None, nrc), a, sm)
          else
            let a = a\<lparr>au_pending_tester_cert := parse_certificate P cert_pem\<rparr>;
                (challenge, sm) = generate_seed (au_nonce_size a) sm;
                a = a\<lparr>au_pending_challenge := Some challenge\<rparr> in
            (case (if session_id = PROGRAMMING
                   then (case au_cert_store a of
                           None \<Rightarrow> Inl (AttributeError ''ecu_cert_pem'')
                         | Some cs \<Rightarrow> Inr (Some (ecu_cert_pem P cs)))
                   else Inr None) of
               Inl e \<Rightarrow> (Inl e, a, sm)
             | Inr ecu_cert \<Rightarrow>
                 (Inr (True, Some \<lparr>cd_challenge = list_of_bytes challenge, cd_ecu_cert = ecu_cert\<rparr>, None),
                  a, touch sm)))"

definition inject_pending_nonce_for_test :: "bytes \<Rightarrow> auth \<Rightarrow> auth" where
  "inject_pending_nonce_for_test nonce a = a\<lparr>au_pending_challenge := Some nonce\<rparr>"

definition verify_proof ::
  "provider \<Rightarrow> bytes \<Rightarrow> int \<Rightarrow> auth \<Rightarrow> session_sm \<Rightarrow>
    (exn + (bool \<times> string option \<times> int option)) \<times> auth \<times> session_sm" where
  "verify_proof P proof_bytes session_id a sm =
     (case (au_pending_challenge a, au_pending_tester_cert a) of
        (Some challenge, Some tester_cert) \<Rightarrow>
          if challenge \<in> au_used_nonces a then
            (Inr (False, None, Some 0x24),
             a\<lparr>au_pending_challenge := None, au_pending_tester_cert := None\<rparr>, sm)
          else
            let a = a\<lparr>au_pending_challenge := None, au_pending_tester_cert := None\<rparr> in
            (case verify_proof_signature P tester_cert proof_bytes challenge of
               Inl e \<Rightarrow> (Inl e, a, sm)
             | Inr ok \<Rightarrow>
                 if \<not> ok then (Inr (False, None, Some 0x76), a, sm)
                 else
                   let a = a\<lparr>au_used_nonces := insert challenge (au_used_nonces a)\<rparr>;
                       access_level =
                         (if session_id = PROGRAMMING then ''FULL_ACCESS'' else ''ENGINEERING'');
                       a = a\<lparr>au_granted := Some access_level\<rparr>
                   in (Inr (True, Some access_level, None), a, touch sm))
      | _ \<Rightarrow> (Inr (False, None, Some 0x24), a, sm))"

definition deauthenticate :: "auth \<Rightarrow> bool \<times> auth" where
  "deauthenticate a =
     (True, a\<lparr>au_granted := None, au_pending_challenge := None, au_pending_tester_cert := None\<rparr>)"

lemmas auth_defs [handler_defs] = auth_clear_access_def communicate_certificate_def
  inject_pending_nonce_for_test_def verify_proof_def deauthenticate_def validate_cert_def

section \<open>The branches of the operations\<close>

text \<open>
  A certificate the store's root has issued: the conditions of the validation that depend neither on
  the time nor on the revocation list.
\<close>

definition issued_by_root :: "provider \<Rightarrow> cert_store \<Rightarrow> certificate \<Rightarrow> bool" where
  "issued_by_root P cs c \<longleftrightarrow>
     cert_issuer c = cert_subject (cs_root_ca_cert cs) \<and>
     ecdsa_verify P (cert_public_key (cs_root_ca_cert cs)) (cert_signature c) (cert_tbs c) = Verified"

definition cert_valid_at :: "provider \<Rightarrow> cert_store \<Rightarrow> certificate \<Rightarrow> datetime \<Rightarrow> bool" where
  "cert_valid_at P cs c t \<longleftrightarrow>
     cert_not_before c \<le> t \<and> t \<le> cert_not_after c \<and> issued_by_root P cs c \<and>
     hex_bytes (sha256 (cert_der c)) \<notin> cs_revoked cs"

lemma validate_cert_clock: "snd (validate_cert P pem a sm) = sm \<or> snd (validate_cert P pem a sm) = snd (utcnow sm)"
  by (auto simp: validate_cert_def Let_def case_prod_unfold split: option.splits sum.splits)

lemma fst_utcnow: "fst (utcnow w) = wall_clock w (wall_reads w)"
  by (simp add: utcnow_def)

lemma validate_cert_ok_iff:
  "(\<exists>nrc. fst (validate_cert P pem a sm) = Inr (True, nrc)) \<longleftrightarrow>
    (\<exists>c cs. load_pem_x509 P pem = Some c \<and> au_cert_store a = Some cs \<and>
       cert_valid_at P cs c (wall_clock sm (wall_reads sm)))"
  by (auto simp: validate_cert_def crypto_defs cert_valid_at_def issued_by_root_def is_revoked_def
      Let_def case_prod_unfold fst_utcnow split: option.splits verify_outcome.splits)

lemma communicate_certificate_valid:
  assumes "load_pem_x509 P pem = Some c" "au_cert_store a = Some cs"
    "cert_valid_at P cs c (wall_clock sm (wall_reads sm))"
  shows "communicate_certificate P pem sid a sm =
    (let (n, smn) = os_urandom (au_nonce_size a) (snd (utcnow sm)) in
     (Inr (True, Some \<lparr>cd_challenge = list_of_bytes n,
         cd_ecu_cert = (if sid = PROGRAMMING then Some (ecu_cert_pem P cs) else None)\<rparr>, None),
      a\<lparr>au_pending_tester_cert := Some c, au_pending_challenge := Some n\<rparr>, touch smn))"
proof -
  have "validate_cert P pem a sm = (Inr (True, None), snd (utcnow sm))"
    using assms
    by (auto simp: validate_cert_def crypto_defs cert_valid_at_def issued_by_root_def is_revoked_def
        Let_def case_prod_unfold fst_utcnow)
  with assms(1,2) show ?thesis
    by (simp add: communicate_certificate_def generate_seed_def parse_certificate_def Let_def
        case_prod_unfold)
qed

lemma communicate_certificate_elim:
  assumes "communicate_certificate P pem sid a sm = (res, a', sm')"
  obtains
    (raised) e where "res = Inl e" "a' = a" "sm' = sm \<or> sm' = snd (utcnow sm)"
  | (refused) nrc where "res = Inr (False, None, nrc)" "a' = a" "sm' = sm \<or> sm' = snd (utcnow sm)"
  | (challenged) c cs n smn where "load_pem_x509 P pem = Some c" "au_cert_store a = Some cs"
      "cert_valid_at P cs c (wall_clock sm (wall_reads sm))"
      "os_urandom (au_nonce_size a) (snd (utcnow sm)) = (n, smn)"
      "a' = a\<lparr>au_pending_tester_cert := Some c, au_pending_challenge := Some n\<rparr>"
      "res = Inr (True, Some \<lparr>cd_challenge = list_of_bytes n,
         cd_ecu_cert = (if sid = PROGRAMMING then Some (ecu_cert_pem P cs) else None)\<rparr>, None)"
      "sm' = touch smn"
proof (cases "\<exists>nrc. fst (validate_cert P pem a sm) = Inr (True, nrc)")
  case True
  then obtain c cs where c: "load_pem_x509 P pem = Some c" "au_cert_store a = Some cs"
    "cert_valid_at P cs c (wall_clock sm (wall_reads sm))"
    unfolding validate_cert_ok_iff by blast
  obtain n smn where n: "os_urandom (au_nonce_size a) (snd (utcnow sm)) = (n, smn)" by fastforce
  show ?thesis
    using assms communicate_certificate_valid [OF c, of sid] n by (intro challenged [OF c n]) simp_all
next
  case False
  obtain r smv where v: "validate_cert P pem a sm = (r, smv)" by fastforce
  with validate_cert_clock [of P pem a sm] have "smv = sm \<or> smv = snd (utcnow sm)" by simp
  with False v assms raised refused show ?thesis
    by (cases r) (auto simp: communicate_certificate_def)
qed

lemma verify_proof_elim:
  assumes "verify_proof P proof sid a sm = (res, a', sm')"
  obtains
    (none) "au_pending_challenge a = None \<or> au_pending_tester_cert a = None"
      "res = Inr (False, None, Some 0x24)" "a' = a" "sm' = sm"
  | (replayed) n c where "au_pending_challenge a = Some n" "au_pending_tester_cert a = Some c"
      "n \<in> au_used_nonces a" "res = Inr (False, None, Some 0x24)"
      "a' = a\<lparr>au_pending_challenge := None, au_pending_tester_cert := None\<rparr>" "sm' = sm"
  | (invalid) n c where "au_pending_challenge a = Some n" "au_pending_tester_cert a = Some c"
      "n \<notin> au_used_nonces a" "ecdsa_verify P (cert_public_key c) proof n \<noteq> Verified"
      "res = (case ecdsa_verify P (cert_public_key c) proof n of
                VerifyRaises m \<Rightarrow> Inl (LibraryError m) | _ \<Rightarrow> Inr (False, None, Some 0x76))"
      "a' = a\<lparr>au_pending_challenge := None, au_pending_tester_cert := None\<rparr>" "sm' = sm"
  | (accepted) n c lv where "au_pending_challenge a = Some n" "au_pending_tester_cert a = Some c"
      "n \<notin> au_used_nonces a" "ecdsa_verify P (cert_public_key c) proof n = Verified"
      "lv = (if sid = PROGRAMMING then ''FULL_ACCESS'' else ''ENGINEERING'')"
      "res = Inr (True, Some lv, None)"
      "a' = a\<lparr>au_pending_challenge := None, au_pending_tester_cert := None,
               au_used_nonces := insert n (au_used_nonces a), au_granted := Some lv\<rparr>"
      "sm' = touch sm"
proof (cases "au_pending_challenge a = None \<or> au_pending_tester_cert a = None")
  case True
  with assms none show ?thesis by (auto simp: verify_proof_def split: option.splits)
next
  case False
  then obtain n c where p: "au_pending_challenge a = Some n" "au_pending_tester_cert a = Some c" by auto
  show ?thesis
  proof (cases "n \<in> au_used_nonces a")
    case True
    with assms p replayed show ?thesis by (auto simp: verify_proof_def)
  next
    case fresh: False
    show ?thesis
    proof (cases "ecdsa_verify P (cert_public_key c) proof n")
      case Verified
      then show ?thesis using assms p fresh
        by (intro accepted [OF p fresh]) (auto simp: verify_proof_def verify_proof_signature_def Let_def)
    next
      case InvalidSignature
      then show ?thesis using assms p fresh
        by (intro invalid [OF p fresh]) (auto simp: verify_proof_def verify_proof_signature_def Let_def)
    next
      case (VerifyRaises m)
      then show ?thesis using assms p fresh
        by (intro invalid [OF p fresh]) (auto simp: verify_proof_def verify_proof_signature_def Let_def)
    qed
  qed
qed

section \<open>What the operations leave alone\<close>

text \<open>The certificate store and the nonce size are fixed, the nonce history only grows, and the
  session is read and its timer restarted, never changed.\<close>

definition auth_le :: "auth \<Rightarrow> auth \<Rightarrow> bool" where
  "auth_le a a' \<longleftrightarrow> au_cert_store a' = au_cert_store a \<and> au_nonce_size a' = au_nonce_size a \<and>
     au_used_nonces a \<subseteq> au_used_nonces a'"

definition session_kept :: "session_sm \<Rightarrow> session_sm \<Rightarrow> bool" where
  "session_kept sm sm' \<longleftrightarrow> session_le sm sm' \<and> sm_session sm' = sm_session sm"

lemma session_kept_simps [simp]:
  "session_kept sm sm" "session_kept sm (touch sm)" "session_kept sm (snd (utcnow sm))"
  by (simp_all add: session_kept_def session_le_def)

lemma session_kept_valid [intro]: "session_kept sm sm' \<Longrightarrow> valid_session sm \<Longrightarrow> valid_session sm'"
  by (simp add: session_kept_def valid_session_def)

lemma communicate_certificate_frame:
  assumes "communicate_certificate P pem sid a sm = (res, a', sm')"
  shows "auth_le a a'" "session_kept sm sm'" "au_granted a' = au_granted a"
    "au_used_nonces a' = au_used_nonces a"
proof -
  from assms have "auth_le a a' \<and> session_kept sm sm' \<and> au_granted a' = au_granted a \<and>
    au_used_nonces a' = au_used_nonces a"
  proof (cases rule: communicate_certificate_elim)
    case (challenged c cs n smn)
    have "smn = snd (os_urandom (au_nonce_size a) (snd (utcnow sm)))" using challenged(4) by simp
    then have "session_kept sm smn"
      using advances_trans [OF utcnow_simps(1) os_urandom_simps(1)]
      by (simp add: session_kept_def session_le_def)
    then show ?thesis using challenged(5,7) by (auto simp: auth_le_def session_kept_def session_le_def)
  qed (auto simp: auth_le_def)
  then show "auth_le a a'" "session_kept sm sm'" "au_granted a' = au_granted a"
    "au_used_nonces a' = au_used_nonces a" by simp_all
qed

lemma verify_proof_frame:
  assumes "verify_proof P proof sid a sm = (res, a', sm')"
  shows "auth_le a a'" "session_kept sm sm'"
proof -
  from assms have "auth_le a a' \<and> session_kept sm sm'"
    by (cases rule: verify_proof_elim) (auto simp: auth_le_def)
  then show "auth_le a a'" "session_kept sm sm'" by simp_all
qed

lemma session_kept_handlers:
  "session_kept sm (snd (snd (communicate_certificate P pem sid a sm)))"
  "session_kept sm (snd (snd (verify_proof P proof sid a sm)))"
  by (metis communicate_certificate_frame(2) prod.collapse) (metis verify_proof_frame(2) prod.collapse)

lemma verify_proof_granted:
  assumes "verify_proof P proof sid a sm = (res, a', sm')"
  shows "au_granted a' = (case res of Inr (True, lv, _) \<Rightarrow> lv | _ \<Rightarrow> au_granted a)"
  using assms
  by (cases rule: verify_proof_elim) (auto split: verify_outcome.splits)

lemma verify_proof_pending_cert:
  assumes "verify_proof P proof sid a sm = (res, a', sm')" "au_pending_tester_cert a' \<noteq> None"
  shows "au_pending_challenge a = None \<and> a' = a \<and> res = Inr (False, None, Some 0x24)"
  using assms(1) by (cases rule: verify_proof_elim) (use assms(2) in auto)

section \<open>The handler as a machine\<close>

text \<open>\<open>Revoke\<close> of a thumbprint is what the tests do through the store they share with the ECU.\<close>

datatype auth_op =
    Communicate string int
  | InjectNonce bytes
  | VerifyProof bytes int
  | Deauthenticate
  | AuthClear
  | RevokeThumbprint string
  | AuthSession session_op

datatype auth_out =
    ChallengeOut "exn + (bool \<times> challenge_data option \<times> int option)"
  | ProofOut "exn + (bool \<times> string option \<times> int option)"
  | AuthDone

definition revoke_thumbprint :: "string \<Rightarrow> auth \<Rightarrow> auth" where
  "revoke_thumbprint t a = a\<lparr>au_cert_store := map_option (add_revoked_thumbprint t) (au_cert_store a)\<rparr>"

fun auth_step :: "provider \<Rightarrow> auth_op \<Rightarrow> auth \<times> session_sm \<Rightarrow> auth_out \<times> (auth \<times> session_sm)" where
  "auth_step P (Communicate pem sid) (a, sm) = apfst ChallengeOut (communicate_certificate P pem sid a sm)"
| "auth_step P (InjectNonce n) (a, sm) = (AuthDone, inject_pending_nonce_for_test n a, sm)"
| "auth_step P (VerifyProof proof sid) (a, sm) = apfst ProofOut (verify_proof P proof sid a sm)"
| "auth_step P Deauthenticate (a, sm) = (AuthDone, snd (deauthenticate a), sm)"
| "auth_step P AuthClear (a, sm) = (AuthDone, auth_clear_access a, sm)"
| "auth_step P (RevokeThumbprint t) (a, sm) = (AuthDone, revoke_thumbprint t a, sm)"
| "auth_step P (AuthSession op) (a, sm) = (AuthDone, a, snd (session_step op sm))"

text \<open>
  The invariant: a pending certificate was issued by the root of the store, and its challenge
  is pending with it; the granted level is one of the two that 0x29 grants.
\<close>

definition auth_inv :: "provider \<Rightarrow> auth \<Rightarrow> bool" where
  "auth_inv P a \<longleftrightarrow>
     (\<forall>c. au_pending_tester_cert a = Some c \<longrightarrow>
        au_pending_challenge a \<noteq> None \<and> (\<exists>cs. au_cert_store a = Some cs \<and> issued_by_root P cs c)) \<and>
     au_granted a \<in> {None, Some ''ENGINEERING'', Some ''FULL_ACCESS''}"

lemma auth_inv_ops:
  assumes "auth_inv P a"
  shows "auth_inv P (auth_clear_access a)" "auth_inv P (inject_pending_nonce_for_test n a)"
    "auth_inv P (snd (deauthenticate a))" "auth_inv P (revoke_thumbprint t a)"
    "auth_inv P (fst (snd (communicate_certificate P pem sid a sm)))"
    "auth_inv P (fst (snd (verify_proof P proof sid a sm)))"
proof -
  show "auth_inv P (fst (snd (communicate_certificate P pem sid a sm)))"
  proof (cases "communicate_certificate P pem sid a sm")
    case (fields res a' sm')
    then show ?thesis
      by (cases rule: communicate_certificate_elim)
        (use assms in \<open>auto simp: fields auth_inv_def cert_valid_at_def\<close>)
  qed
  show "auth_inv P (fst (snd (verify_proof P proof sid a sm)))"
  proof (cases "verify_proof P proof sid a sm")
    case (fields res a' sm')
    then show ?thesis
      by (cases rule: verify_proof_elim) (use assms in \<open>auto simp: fields auth_inv_def\<close>)
  qed
  show "auth_inv P (revoke_thumbprint t a)"
    using assms by (auto simp: auth_inv_def revoke_thumbprint_def issued_by_root_def add_revoked_thumbprint_def)
qed (use assms in \<open>auto simp: auth_inv_def auth_clear_access_def inject_pending_nonce_for_test_def deauthenticate_def\<close>)

definition auth_machine_inv :: "provider \<Rightarrow> auth \<times> session_sm \<Rightarrow> bool" where
  "auth_machine_inv P x \<longleftrightarrow> auth_inv P (fst x) \<and> valid_session (snd x)"

definition nonces_grow :: "auth \<times> session_sm \<Rightarrow> auth \<times> session_sm \<Rightarrow> bool" where
  "nonces_grow x y \<longleftrightarrow> au_used_nonces (fst x) \<subseteq> au_used_nonces (fst y) \<and>
     au_nonce_size (fst y) = au_nonce_size (fst x) \<and> session_le (snd x) (snd y)"

interpretation auth_machine: monotone_machine "auth_step P" "auth_machine_inv P" nonces_grow for P
proof unfold_locales
  fix x op
  assume inv: "auth_machine_inv P x"
  obtain a sm where x: "x = (a, sm)" by (cases x) auto
  have v: "valid_session (snd (snd (communicate_certificate P pem sid a sm)))"
    "valid_session (snd (snd (verify_proof P proof sid a sm)))" for pem sid "proof"
    using inv session_kept_valid [OF session_kept_handlers(1)] session_kept_valid [OF session_kept_handlers(2)]
    by (simp_all add: x auth_machine_inv_def)
  show "auth_machine_inv P (snd (auth_step P op x))"
    using inv v auth_inv_ops sess.inv_step
    by (cases op) (simp_all add: x auth_machine_inv_def)
next
  fix x op
  assume inv: "auth_machine_inv P x"
  obtain a sm where x: "x = (a, sm)" by (cases x) auto
  show "nonces_grow x (snd (auth_step P op x))"
  proof (cases op)
    case (Communicate pem sid)
    then show ?thesis using communicate_certificate_frame [of P pem sid a sm]
      by (cases "communicate_certificate P pem sid a sm")
        (auto simp: x nonces_grow_def auth_le_def session_kept_def)
  next
    case (VerifyProof "proof" sid)
    then show ?thesis using verify_proof_frame [of P "proof" sid a sm]
      by (cases "verify_proof P proof sid a sm")
        (auto simp: x nonces_grow_def auth_le_def session_kept_def)
  next
    case (AuthSession sop)
    then show ?thesis using sess.rel_step inv by (simp add: x nonces_grow_def auth_machine_inv_def)
  qed (auto simp: x nonces_grow_def session_le_def auth_clear_access_def deauthenticate_def
      inject_pending_nonce_for_test_def revoke_thumbprint_def)
qed (auto simp: nonces_grow_def session_le_def intro: advances_trans)

section \<open>The exchange as a challenge slot\<close>

datatype auth_env = EnvInject bytes | EnvRevoke string | EnvSession session_op

definition auth_issue ::
  "provider \<Rightarrow> string \<times> int \<Rightarrow> auth \<times> session_sm \<Rightarrow> bool \<times> (auth \<times> session_sm)" where
  "auth_issue P i x =
     (let (res, x') = communicate_certificate P (fst i) (snd i) (fst x) (snd x)
      in (case res of Inr (ok, _) \<Rightarrow> ok | Inl _ \<Rightarrow> False, x'))"

definition auth_respond ::
  "provider \<Rightarrow> bytes \<times> int \<Rightarrow> auth \<times> session_sm \<Rightarrow> bool \<times> (auth \<times> session_sm)" where
  "auth_respond P r x =
     (let (res, x') = verify_proof P (fst r) (snd r) (fst x) (snd x)
      in (case res of Inr (ok, _) \<Rightarrow> ok | Inl _ \<Rightarrow> False, x'))"

definition auth_revoke :: "auth \<times> session_sm \<Rightarrow> auth \<times> session_sm" where
  "auth_revoke x = apfst auth_clear_access x"

fun auth_other :: "auth_env \<Rightarrow> auth \<times> session_sm \<Rightarrow> auth \<times> session_sm" where
  "auth_other (EnvInject n) (a, sm) = (inject_pending_nonce_for_test n a, sm)"
| "auth_other (EnvRevoke t) (a, sm) = (revoke_thumbprint t a, sm)"
| "auth_other (EnvSession op) (a, sm) = (a, snd (session_step op sm))"

definition auth_pending :: "auth \<times> session_sm \<Rightarrow> bool" where
  "auth_pending x \<longleftrightarrow> au_pending_tester_cert (fst x) \<noteq> None"

definition auth_granted :: "auth \<times> session_sm \<Rightarrow> bool" where
  "auth_granted x \<longleftrightarrow> au_granted (fst x) \<noteq> None"

interpretation auth_slot: challenge_response "auth_issue P" "auth_respond P" auth_revoke auth_other
  auth_pending auth_granted "\<lambda>x :: auth \<times> session_sm. auth_inv P (fst x)" for P
proof unfold_locales
  fix x :: "auth \<times> session_sm" and i :: "string \<times> int"
  assume inv: "auth_inv P (fst x)"
  obtain res a' sm' where eq: "communicate_certificate P (fst i) (snd i) (fst x) (snd x) = (res, a', sm')"
    by (cases "communicate_certificate P (fst i) (snd i) (fst x) (snd x)") auto
  note step = auth_issue_def eq Let_def
  show "auth_inv P (fst (snd (auth_issue P i x)))"
    using auth_inv_ops(5) [OF inv, of "fst i" "snd i" "snd x"] by (simp add: step)
  show "fst (auth_issue P i x) \<or> auth_pending x" if "auth_pending (snd (auth_issue P i x))"
    using eq by (cases rule: communicate_certificate_elim) (use that in \<open>auto simp: step auth_pending_def\<close>)
  show "auth_granted x" if "auth_granted (snd (auth_issue P i x))"
    using that communicate_certificate_frame(3) [OF eq] by (simp add: step auth_granted_def)
next
  fix x :: "auth \<times> session_sm" and r :: "bytes \<times> int"
  assume inv: "auth_inv P (fst x)"
  obtain res a' sm' where eq: "verify_proof P (fst r) (snd r) (fst x) (snd x) = (res, a', sm')"
    by (cases "verify_proof P (fst r) (snd r) (fst x) (snd x)") auto
  note step = auth_respond_def eq Let_def
  show "auth_inv P (fst (snd (auth_respond P r x)))"
    using auth_inv_ops(6) [OF inv, of "fst r" "snd r" "snd x"] by (simp add: step)
  show "auth_pending x" "\<not> auth_pending (snd (auth_respond P r x))" if "fst (auth_respond P r x)"
    using eq
    by (cases rule: verify_proof_elim; use that in \<open>auto simp: step auth_pending_def split: verify_outcome.splits\<close>)+
  show "auth_pending x" if "auth_pending (snd (auth_respond P r x))"
    using that verify_proof_pending_cert [OF eq] by (auto simp: step auth_pending_def)
  show "auth_granted x" if "\<not> fst (auth_respond P r x)" "auth_granted (snd (auth_respond P r x))"
    using that verify_proof_granted [OF eq]
    by (auto simp: step auth_granted_def split: sum.splits bool.splits)
next
  fix x :: "auth \<times> session_sm" and e :: auth_env
  assume inv: "auth_inv P (fst x)"
  obtain a sm where x: "x = (a, sm)" by (cases x) auto
  show "auth_inv P (fst (auth_revoke x))" using auth_inv_ops(1) inv by (simp add: auth_revoke_def)
  show "\<not> auth_pending (auth_revoke x)" "\<not> auth_granted (auth_revoke x)"
    by (simp_all add: auth_revoke_def auth_pending_def auth_granted_def auth_clear_access_def)
  show "auth_inv P (fst (auth_other e x))" using auth_inv_ops inv by (cases e) (simp_all add: x)
  show "auth_pending x" if "auth_pending (auth_other e x)"
    using that by (cases e) (simp_all add: x auth_pending_def inject_pending_nonce_for_test_def revoke_thumbprint_def)
  show "auth_granted x" if "auth_granted (auth_other e x)"
    using that by (cases e) (simp_all add: x auth_granted_def inject_pending_nonce_for_test_def revoke_thumbprint_def)
qed

section \<open>The nonces accepted in a run\<close>

fun accepted_nonces :: "provider \<Rightarrow> auth_op list \<Rightarrow> auth \<times> session_sm \<Rightarrow> bytes list" where
  "accepted_nonces P [] x = []"
| "accepted_nonces P (op # ops) x =
     (let (out, y) = auth_step P op x in
      (case out of
         ProofOut (Inr (True, _, _)) \<Rightarrow> [the (au_pending_challenge (fst x))]
       | _ \<Rightarrow> []) @ accepted_nonces P ops y)"

lemma auth_step_nonces:
  "(case fst (auth_step P op x) of
      ProofOut (Inr (True, _, _)) \<Rightarrow>
        (\<exists>n. au_pending_challenge (fst x) = Some n \<and> n \<notin> au_used_nonces (fst x) \<and>
           au_used_nonces (fst (snd (auth_step P op x))) = insert n (au_used_nonces (fst x)))
    | _ \<Rightarrow> au_used_nonces (fst (snd (auth_step P op x))) = au_used_nonces (fst x))"
proof -
  obtain a sm where x: "x = (a, sm)" by (cases x) auto
  show ?thesis
  proof (cases op)
    case (Communicate pem sid)
    then show ?thesis using communicate_certificate_frame(4) [of P pem sid a sm]
      by (cases "communicate_certificate P pem sid a sm") (simp add: x)
  next
    case (VerifyProof "proof" sid)
    obtain res a' sm' where eq: "verify_proof P proof sid a sm = (res, a', sm')"
      by (cases "verify_proof P proof sid a sm") auto
    then show ?thesis
      by (cases rule: verify_proof_elim)
        (auto simp: x VerifyProof eq split: verify_outcome.splits sum.splits bool.splits)
  qed (simp_all add: x auth_clear_access_def deauthenticate_def inject_pending_nonce_for_test_def
      revoke_thumbprint_def)
qed

lemma accepted_nonces_fresh:
  "distinct (accepted_nonces P ops x) \<and>
    set (accepted_nonces P ops x) \<inter> au_used_nonces (fst x) = {} \<and>
    au_used_nonces (fst (snd (run (auth_step P) ops x)))
      = au_used_nonces (fst x) \<union> set (accepted_nonces P ops x)"
proof (induction ops arbitrary: x)
  case (Cons op ops)
  from Cons.IH [of "snd (auth_step P op x)"] auth_step_nonces [of P op x] show ?case
    by (auto simp: Let_def case_prod_unfold split: auth_out.splits sum.splits prod.splits bool.splits)
qed simp

section \<open>Properties\<close>

definition sample_auth :: auth where
  "sample_auth =
     \<lparr>au_cert_store = Some sample_store, au_nonce_size = 16, au_pending_challenge = None,
      au_pending_tester_cert = None, au_granted = None, au_used_nonces = {}\<rparr>"

definition sample_pem :: string where
  "sample_pem = tester_cert_pem sample_provider sample_store"

definition sample_auth_session :: session_sm where
  "sample_auth_session = sample_session\<lparr>sm_session := PROGRAMMING, wall_clock := (\<lambda>_. sample_now)\<rparr>"

text \<open>a certificate passes the validation exactly when it parses, the clock reading made for it
  lies between its validity bounds, its issuer is the subject of the root, its signature
  verifies under the root's key and its fingerprint is not on the revocation list of the store.\<close>

theorem validate_cert_accepts_iff:
  "fst (validate_cert P pem a sm) = Inr (True, None) \<longleftrightarrow>
    (\<exists>c cs. load_pem_x509 P pem = Some c \<and> au_cert_store a = Some cs \<and>
       (let t = wall_clock sm (wall_reads sm); root = cs_root_ca_cert cs in
        cert_not_before c \<le> t \<and> t \<le> cert_not_after c \<and>
        cert_issuer c = cert_subject root \<and>
        ecdsa_verify P (cert_public_key root) (cert_signature c) (cert_tbs c) = Verified \<and>
        hex_bytes (sha256 (cert_der c)) \<notin> cs_revoked cs))"
  by (auto simp: validate_cert_def crypto_defs is_revoked_def Let_def case_prod_unfold fst_utcnow
      split: option.splits verify_outcome.splits)

text \<open>the five checks are made in the order format, time, issuer, signature, revocation, and
  the NRC is that of the first one that fails: 0x73, 0x75, 0x78, 0x76, 0x74. A signature check
  that raises anything but \<open>InvalidSignature\<close> leaves the handler as an exception, and so does a
  certificate that is well formed and in time when the handler has no certificate store.\<close>

lemma validate_cert_order:
  "fst (validate_cert P pem a sm) =
    (case load_pem_x509 P pem of
       None \<Rightarrow> Inr (False, Some 0x73)
     | Some c \<Rightarrow>
         let t = wall_clock sm (wall_reads sm) in
         if t < cert_not_before c \<or> cert_not_after c < t then Inr (False, Some 0x75)
         else if au_cert_store a = None then Inl (AttributeError ''root_ca_cert'')
         else
           let cs = the (au_cert_store a); root = cs_root_ca_cert cs in
           if cert_issuer c \<noteq> cert_subject root then Inr (False, Some 0x78)
           else (case ecdsa_verify P (cert_public_key root) (cert_signature c) (cert_tbs c) of
               VerifyRaises m \<Rightarrow> Inl (LibraryError m)
             | InvalidSignature \<Rightarrow> Inr (False, Some 0x76)
             | Verified \<Rightarrow>
                 if hex_bytes (sha256 (cert_der c)) \<in> cs_revoked cs then Inr (False, Some 0x74)
                 else Inr (True, None)))"
  by (auto simp: validate_cert_def crypto_defs is_revoked_def Let_def case_prod_unfold fst_utcnow
      not_le split: option.splits verify_outcome.splits)

text \<open>C22: the proof of possession is accepted exactly when a certificate and a challenge are pending,
  the challenge has never been accepted before, and the signature over it verifies under the
  pending certificate's key. The level is FULL_ACCESS in the Programming session and
  ENGINEERING in any other. Whatever the outcome, an exception included, the pending exchange is over
  after it unless there was none.\<close>

theorem verify_proof_accepts_iff:
  "let (res, a', sm') = verify_proof P proof sid a sm;
       lv = (if sid = PROGRAMMING then ''FULL_ACCESS'' else ''ENGINEERING'') in
    (res = Inr (True, Some lv, None) \<longleftrightarrow>
      (\<exists>c n. au_pending_tester_cert a = Some c \<and> au_pending_challenge a = Some n \<and>
         n \<notin> au_used_nonces a \<and> ecdsa_verify P (cert_public_key c) proof n = Verified)) \<and>
    au_granted a' = (if res = Inr (True, Some lv, None) then Some lv else au_granted a) \<and>
    (au_pending_tester_cert a' = None \<or> au_pending_challenge a = None)"
proof -
  obtain res a' sm' where eq: "verify_proof P proof sid a sm = (res, a', sm')"
    by (cases "verify_proof P proof sid a sm") auto
  from eq show ?thesis
    by (cases rule: verify_proof_elim) (auto simp: eq split: verify_outcome.splits)
qed

text \<open>a nonce is accepted at most once. In every run of the handler, with any order of exchanges,
  injected challenges, session changes, deauthentications and resets, the nonces of the accepted
  proofs are pairwise distinct, none of them had been accepted before the run, and the
  history after the run is the history before it with exactly these added.\<close>

theorem nonces_never_reused:
  "let used = au_used_nonces (fst x); accepted = accepted_nonces P ops x in
    distinct accepted \<and> set accepted \<inter> used = {} \<and>
    au_used_nonces (fst (snd (run (auth_step P) ops x))) = used \<union> set accepted"
  using accepted_nonces_fresh [of P ops x] by (simp add: Let_def)

text \<open>The certificate of the tester of the generated PKI, whatever has been revoked since.\<close>

lemma own_certificate:
  assumes laws: "x509_laws P"
    and cs: "cs = (generate_in_memory P revoked now keys serials)\<lparr>cs_revoked := R\<rparr>"
    and lo: "plus_micros now (- micros_per_day) \<le> t"
    and hi: "micros t + micros_per_second \<le> micros (plus_micros now (365 * micros_per_day))"
    and fine: "cert_fingerprint_sha256 (cs_tester_cert cs) \<notin> R"
  shows "load_pem_x509 P (tester_cert_pem P cs) = Some (cs_tester_cert cs)"
    and "cert_valid_at P cs (cs_tester_cert cs) t"
    and "ecdsa_verify P (cert_public_key (cs_tester_cert cs)) (sign_ecdsa P (cs_tester_key cs) k n) n = Verified"
proof -
  obtain rk ek tk s1 s2 s3 where ks: "keys = (rk, ek, tk)" "serials = (s1, s2, s3)"
    by (cases keys; cases serials) auto
  let ?c = "cs_tester_cert cs"
  show "load_pem_x509 P (tester_cert_pem P cs) = Some ?c"
    using laws by (simp add: x509_laws_def tester_cert_pem_def)
  have "cert_not_before ?c = whole_seconds (plus_micros now (- micros_per_day))"
    "cert_not_after ?c = whole_seconds (plus_micros now (365 * micros_per_day))"
    and key: "cert_public_key ?c = public_key_of P (cs_tester_key cs)"
    and root: "issued_by_root P cs ?c"
    using laws by (simp_all add: cs ks generate_in_memory_def Let_def signed_leaf_def self_signed_ca_def
        x509_laws_def issued_by_root_def validity_tester_def)
  then have "cert_not_before ?c \<le> t \<and> t \<le> cert_not_after ?c"
    using whole_seconds_bounds(1) [of "plus_micros now (- micros_per_day)"]
      whole_seconds_bounds(2) [of "plus_micros now (365 * micros_per_day)"] lo hi
    by (simp add: less_eq_datetime_def)
  then show "cert_valid_at P cs ?c t"
    using root fine by (simp add: cert_valid_at_def cert_fingerprint_sha256_def cs)
  show "ecdsa_verify P (cert_public_key ?c) (sign_ecdsa P (cs_tester_key cs) k n) n = Verified"
    using laws by (simp add: key sign_ecdsa_def x509_laws_def)
qed

text \<open>a tester with the generated PKI is let in. With a library that behaves as documented, a
  certificate store made by \<open>generate_in_memory\<close>, the tester's own certificate not revoked and the clock
  within its 365 days, \<open>communicate_certificate\<close> answers with a challenge of fresh bytes,
  accompanied by the ECU's certificate exactly in the Programming session, and the challenge signed
  with the tester's key is accepted, unless the random source repeats an accepted nonce.\<close>

theorem honest_tester_granted:
  assumes laws: "x509_laws P"
    and cs: "cs = generate_in_memory P revoked now keys serials" and store: "au_cert_store a = Some cs"
    and lo: "plus_micros now (- micros_per_day) \<le> wall_clock sm (wall_reads sm)"
    and hi: "micros (wall_clock sm (wall_reads sm)) + micros_per_second
      \<le> micros (plus_micros now (365 * micros_per_day))"
    and fine: "cert_fingerprint_sha256 (cs_tester_cert cs) \<notin> cs_revoked cs"
    and fresh: "n = rand_source sm (rand_reads sm) (au_nonce_size a)" "n \<notin> au_used_nonces a"
  shows "\<exists>a1 sm1 a2 sm2.
    communicate_certificate P (tester_cert_pem P cs) sid a sm =
      (Inr (True, Some \<lparr>cd_challenge = list_of_bytes n,
         cd_ecu_cert = (if sid = PROGRAMMING then Some (ecu_cert_pem P cs) else None)\<rparr>, None), a1, sm1) \<and>
    verify_proof P (sign_ecdsa P (cs_tester_key cs) k n) sid a1 sm1 =
      (Inr (True, Some (if sid = PROGRAMMING then ''FULL_ACCESS'' else ''ENGINEERING''), None), a2, sm2)"
proof -
  let ?c = "cs_tester_cert cs"
  have "cs = (generate_in_memory P revoked now keys serials)\<lparr>cs_revoked := cs_revoked cs\<rparr>" by (simp add: cs)
  note own = own_certificate [OF laws this lo hi fine]
  let ?n = "os_urandom (au_nonce_size a) (snd (utcnow sm))"
  let ?a1 = "a\<lparr>au_pending_tester_cert := Some ?c, au_pending_challenge := Some n\<rparr>"
  have n: "fst ?n = n" by (simp add: fresh(1) os_urandom_def utcnow_def)
  have "communicate_certificate P (tester_cert_pem P cs) sid a sm =
      (Inr (True, Some \<lparr>cd_challenge = list_of_bytes n,
         cd_ecu_cert = (if sid = PROGRAMMING then Some (ecu_cert_pem P cs) else None)\<rparr>, None),
       ?a1, touch (snd ?n))"
    using communicate_certificate_valid [OF own(1) store own(2), of sid] n by (simp add: case_prod_unfold)
  moreover have "verify_proof P (sign_ecdsa P (cs_tester_key cs) k n) sid ?a1 (touch (snd ?n)) =
      (Inr (True, Some (if sid = PROGRAMMING then ''FULL_ACCESS'' else ''ENGINEERING''), None),
       ?a1\<lparr>au_pending_challenge := None, au_pending_tester_cert := None,
           au_used_nonces := insert n (au_used_nonces a),
           au_granted := Some (if sid = PROGRAMMING then ''FULL_ACCESS'' else ''ENGINEERING'')\<rparr>,
       touch (touch (snd ?n)))"
    using fresh(2) own(3) by (simp add: verify_proof_def verify_proof_signature_def Let_def)
  ultimately show ?thesis by blast
qed

lemma sample_store_simps:
  "cs_revoked sample_store = {}" "cs_tester_key sample_store = [3]"
  by (simp_all add: sample_store_def generate_in_memory_def Let_def)

theorem honest_tester_granted_witness:
  "\<exists>a1 sm1 a2 sm2.
    communicate_certificate sample_provider sample_pem PROGRAMMING sample_auth sample_auth_session =
      (Inr (True, Some \<lparr>cd_challenge = replicate 16 0,
         cd_ecu_cert = Some (ecu_cert_pem sample_provider sample_store)\<rparr>, None), a1, sm1) \<and>
    verify_proof sample_provider (3 # replicate 16 0) PROGRAMMING a1 sm1 =
      (Inr (True, Some ''FULL_ACCESS'', None), a2, sm2)"
proof -
  have sess: "wall_clock sample_auth_session (wall_reads sample_auth_session) = sample_now"
    "rand_source sample_auth_session (rand_reads sample_auth_session) 16 = replicate 16 0"
    by (simp_all add: sample_auth_session_def sample_session_def sample_world_def world.defs session_sm.defs)
  from honest_tester_granted [OF x509_laws_sample sample_store_def, of sample_auth sample_auth_session
      "replicate 16 0" PROGRAMMING "[]"]
  show ?thesis
    by (simp add: sess sample_auth_def sample_pem_def sample_store_simps sign_ecdsa_def sample_provider_def
        list_of_bytes_def date_simps sample_now_def)
qed

lemma sample_pem_loads [simp]:
  "load_pem_x509 sample_provider sample_pem = Some (cs_tester_cert sample_store)"
  using x509_laws_sample by (simp add: x509_laws_def sample_pem_def tester_cert_pem_def)

lemma sample_cert_valid: "cert_valid_at sample_provider sample_store (cs_tester_cert sample_store) sample_now"
  by (simp add: cert_valid_at_def issued_by_root_def sample_store_def generate_in_memory_def Let_def
      signed_leaf_def self_signed_ca_def sample_provider_def whole_seconds_def date_simps sample_now_def
      validity_tester_def)

lemma sample_communicate:
  assumes "wall_clock sm (wall_reads sm) = sample_now" "au_cert_store a = Some sample_store"
  shows "communicate_certificate sample_provider sample_pem sid a sm =
    (let (n, smn) = os_urandom (au_nonce_size a) (snd (utcnow sm)) in
     (Inr (True, Some \<lparr>cd_challenge = list_of_bytes n,
         cd_ecu_cert = (if sid = PROGRAMMING then Some (ecu_cert_pem sample_provider sample_store) else None)\<rparr>, None),
      a\<lparr>au_pending_tester_cert := Some (cs_tester_cert sample_store), au_pending_challenge := Some n\<rparr>, touch smn))"
  using communicate_certificate_valid [OF sample_pem_loads assms(2)] sample_cert_valid assms(1) by simp

text \<open>revocation takes effect at once: a certificate whose fingerprint was put on the list, in the
  store the handler shares, is never challenged again, whatever text it is presented as.\<close>

theorem revoked_certificate_refused:
  assumes "load_pem_x509 P pem = Some c"
  shows "let a' = revoke_thumbprint (cert_fingerprint_sha256 c) a in
    \<not> (\<exists>d nrc. fst (communicate_certificate P pem sid a' sm) = Inr (True, d, nrc)) \<and>
    fst (snd (communicate_certificate P pem sid a' sm)) = a'"
proof -
  let ?a' = "revoke_thumbprint (cert_fingerprint_sha256 c) a"
  obtain res a1 sm1 where eq: "communicate_certificate P pem sid ?a' sm = (res, a1, sm1)"
    by (cases "communicate_certificate P pem sid ?a' sm") auto
  from eq have "\<not> (\<exists>d nrc. res = Inr (True, d, nrc)) \<and> a1 = ?a'"
  proof (cases rule: communicate_certificate_elim)
    case (challenged c' cs n smn)
    then show ?thesis using assms
      by (auto simp: revoke_thumbprint_def cert_valid_at_def cert_fingerprint_sha256_def add_revoked_thumbprint_def)
  qed auto
  with eq show ?thesis by (simp add: Let_def)
qed

theorem revoked_certificate_refused_witness:
  "\<not> (\<exists>d nrc. fst (communicate_certificate sample_provider sample_pem 2
     (revoke_thumbprint (cert_fingerprint_sha256 (cs_tester_cert sample_store)) sample_auth)
     sample_auth_session) = Inr (True, d, nrc))"
proof -
  have "load_pem_x509 sample_provider sample_pem = Some (cs_tester_cert sample_store)"
    using x509_laws_sample by (simp add: x509_laws_def sample_pem_def tester_cert_pem_def)
  from revoked_certificate_refused [OF this, of sample_auth 2 sample_auth_session]
  show ?thesis by (simp add: Let_def)
qed

text \<open>access by 0x29 is always earned. From a state without a grant and after a reset by
  \<open>clear_access\<close>, the handler holds a level again only if a certificate was challenged in
  between, and the accepted proofs never outnumber the challenges: also with injected challenges and
  with revocations and session changes in between.\<close>

theorem auth_grant_needs_challenge:
  assumes "auth_inv P (fst x)"
  shows "let outs = fst (run (cr_step (auth_issue P) (auth_respond P) auth_revoke auth_other) inps (auth_revoke x)) in
    accepts inps outs \<le> issues inps outs \<and>
    (auth_granted (snd (run (cr_step (auth_issue P) (auth_respond P) auth_revoke auth_other) inps (auth_revoke x)))
      \<longrightarrow> 0 < accepts inps outs)"
proof -
  have inv: "auth_inv P (fst (auth_revoke x))" using auth_slot.invar_revoke [OF assms] .
  from auth_slot.accepts_le_issues [OF inv, of inps] auth_slot.granted_needs_accept [OF inv, of inps]
    auth_slot.revoke_pending [OF assms] auth_slot.revoke_granted [OF assms]
  show ?thesis by (simp add: Let_def)
qed

theorem auth_grant_needs_challenge_witness:
  "accepts [Respond ([1], 2)] (fst (run (cr_step (auth_issue sample_provider) (auth_respond sample_provider)
     auth_revoke auth_other) [Respond ([1], 2)] (auth_revoke (sample_auth, sample_session)))) = 0"
proof -
  have "auth_inv sample_provider (fst (sample_auth, sample_session))"
    by (simp add: auth_inv_def sample_auth_def)
  from auth_grant_needs_challenge [OF this, of "[Respond ([1], 2)]"]
  show ?thesis by (auto simp: Let_def issues_def)
qed

text \<open>what the handler trusts. In every state it reaches from its construction, a pending
  certificate carries the issuer and a verifying signature of the root of its store, a challenge is
  pending with it, and a granted level is ENGINEERING or FULL_ACCESS.\<close>

theorem auth_run_invariant:
  assumes "valid_session sm"
  shows "let (a, sm') = snd (run (auth_step P) ops (authentication_init policy cs, sm)) in
    auth_inv P a \<and> valid_session sm'"
proof -
  have "auth_machine_inv P (authentication_init policy cs, sm)"
    using assms by (simp add: auth_machine_inv_def auth_inv_def authentication_init_def)
  from auth_machine.inv_run [OF this, of ops] show ?thesis
    by (simp add: auth_machine_inv_def case_prod_unfold)
qed

theorem auth_run_invariant_witness:
  "auth_inv sample_provider (fst (snd (run (auth_step sample_provider)
     [Communicate sample_pem 2, InjectNonce [7], VerifyProof [3, 7] 2]
     (authentication_init ecu_policy (Some sample_store), sample_auth_session))))"
proof -
  have "valid_session sample_auth_session"
    by (simp add: sample_auth_session_def valid_session_def VALID_def)
  from auth_run_invariant [OF this, of sample_provider "[Communicate sample_pem 2, InjectNonce [7], VerifyProof [3, 7] 2]"
      ecu_policy "Some sample_store"]
  show ?thesis by (simp add: case_prod_unfold Let_def)
qed

end
