(* ===== verification/Audit_Logger.thy ===== *)
theory Audit_Logger
  imports Json Sha256 Session
begin

text \<open>
  The audit log \<open>sim/core/audit_logger.py\<close>: an append-only list of JSON dictionaries chained by SHA-256,
  and the check of the chain. What \<open>datetime.isoformat\<close> prints is defined here. The
  argument why a chain commits to its entries is a locale over an abstract digest, interpreted
  for the entries of the log.
\<close>

section \<open>Timestamps\<close>

text \<open>The proleptic Gregorian date of a day number, day 0 being 1970-01-01.\<close>

definition civil_from_days :: "int \<Rightarrow> int \<times> int \<times> int" where
  "civil_from_days n =
     (let z = n + 719468;
          era = z div 146097;
          doe = z mod 146097;
          yoe = (doe - doe div 1460 + doe div 36524 - doe div 146096) div 365;
          doy = doe - (365 * yoe + yoe div 4 - yoe div 100);
          mp = (5 * doy + 2) div 153;
          d = doy - (153 * mp + 2) div 5 + 1;
          m = (if mp < 10 then mp + 3 else mp - 9)
      in (yoe + era * 400 + (if m \<le> 2 then 1 else 0), m, d))"

definition zfill :: "nat \<Rightarrow> int \<Rightarrow> string" where
  "zfill k n = (let s = str_int n in replicate (k - length s) (CHR ''0'') @ s)"

definition isoformat :: "datetime \<Rightarrow> string" where
  "isoformat t =
     (let (y, m, d) = civil_from_days (micros t div micros_per_day);
          us = micros t mod micros_per_day;
          s = us div micros_per_second;
          f = us mod micros_per_second
      in zfill 4 y @ ''-'' @ zfill 2 m @ ''-'' @ zfill 2 d @ ''T'' @
         zfill 2 (s div 3600) @ '':'' @ zfill 2 (s div 60 mod 60) @ '':'' @ zfill 2 (s mod 60) @
         (if f = 0 then '''' else ''.'' @ zfill 6 f) @ ''+00:00'')"

section \<open>The log\<close>

definition GENESIS_HASH :: string where
  "GENESIS_HASH = replicate 64 (CHR ''0'')"

definition hash_entry :: "dict \<Rightarrow> string" where
  "hash_entry entry_without_hash = hex_bytes (sha256 (encode (dumps_sorted (JObj entry_without_hash))))"

record audit_logger =
  al_entries :: "dict list"
  al_prev_hash :: string

definition audit_init :: "string \<Rightarrow> audit_logger" where
  "audit_init genesis_hash = \<lparr>al_entries = [], al_prev_hash = genesis_hash\<rparr>"

text \<open>\<open>None\<close> is JSON's \<open>null\<close>.\<close>

definition opt_json :: "('a \<Rightarrow> json) \<Rightarrow> 'a option \<Rightarrow> json" where
  "opt_json f x = (case x of None \<Rightarrow> JNull | Some v \<Rightarrow> f v)"

lemma opt_json_simps [simp]: "opt_json f None = JNull" "opt_json f (Some v) = f v"
  by (simp_all add: opt_json_def)

text \<open>The arguments of \<open>emit\<close>; the parameters that the caller leaves out are \<open>None\<close>.\<close>

record audit_event =
  ev_event_type :: string
  ev_service_id :: "int option"
  ev_access_level :: "string option"
  ev_client_id :: "int option"
  ev_result :: "string option"
  ev_nrc_code :: "int option"

definition entry_body :: "datetime \<Rightarrow> audit_event \<Rightarrow> string \<Rightarrow> dict" where
  "entry_body now ev prev_hash =
     [(''timestamp'', JStr (isoformat now)),
      (''event_type'', JStr (ev_event_type ev)),
      (''service_id'', opt_json JInt (ev_service_id ev)),
      (''access_level'', opt_json JStr (ev_access_level ev)),
      (''client_id'', opt_json (\<lambda>n. JStr (str_int n)) (ev_client_id ev)),
      (''result'', opt_json JStr (ev_result ev)),
      (''nrc_code'', opt_json (\<lambda>n. JStr (hex_int n)) (ev_nrc_code ev)),
      (''prev_hash'', JStr prev_hash)]"

definition emit :: "audit_event \<Rightarrow> audit_logger \<Rightarrow> 'a world_scheme \<Rightarrow> audit_logger \<times> 'a world_scheme" where
  "emit ev al w =
     (let (now, w) = utcnow w;
          entry = entry_body now ev (al_prev_hash al);
          entry_hash = hash_entry entry;
          entry = dict_set entry ''entry_hash'' (JStr entry_hash)
      in (al\<lparr>al_prev_hash := entry_hash, al_entries := al_entries al @ [entry]\<rparr>, w))"

definition entries :: "audit_logger \<Rightarrow> dict list" where
  "entries al = al_entries al"

fun verify_chain :: "dict list \<Rightarrow> string \<Rightarrow> bool" where
  "verify_chain [] prev = True"
| "verify_chain (e # es) prev =
     (if dict_get e ''prev_hash'' \<noteq> Some (JStr prev) then False
      else let body = dict_without e ''entry_hash'' in
        if dict_get e ''entry_hash'' \<noteq> Some (JStr (hash_entry body)) then False
        else verify_chain es (hash_entry body))"

lemmas audit_defs [handler_defs] = emit_def entries_def audit_init_def

section \<open>Hash chains\<close>

text \<open>
  The contract of a chain: every element names the digest of its predecessor and carries its own. Two
  elements with the same digest are the same up to \<open>same\<close> or are a \<open>clash\<close>, that is, show a
  collision of the hash function; elements that are the same name the same predecessor.
\<close>

locale hash_chain =
  fixes prev_of :: "'e \<Rightarrow> 'h option"
    and stored :: "'e \<Rightarrow> 'h option"
    and digest :: "'e \<Rightarrow> 'h"
    and same :: "'e \<Rightarrow> 'e \<Rightarrow> bool"
    and clash :: "'e \<Rightarrow> 'e \<Rightarrow> bool"
    and good :: "'e \<Rightarrow> bool"
    and chain :: "'e list \<Rightarrow> 'h \<Rightarrow> bool"
  assumes chain_Nil: "chain [] g"
    and chain_Cons: "chain (e # es) g \<longleftrightarrow>
      prev_of e = Some g \<and> stored e = Some (digest e) \<and> chain es (digest e)"
    and digest_binds: "good e \<Longrightarrow> good e' \<Longrightarrow> digest e = digest e' \<Longrightarrow> same e e' \<or> clash e e'"
    and same_prev: "good e \<Longrightarrow> good e' \<Longrightarrow> same e e' \<Longrightarrow> prev_of e = prev_of e'"
begin

definition tip :: "'e list \<Rightarrow> 'h \<Rightarrow> 'h" where
  "tip es g = (if es = [] then g else digest (last es))"

lemma tip_snoc: "tip (es @ [e]) g = digest e"
  by (simp add: tip_def)

lemma chain_append: "chain (es @ fs) g \<longleftrightarrow> chain es g \<and> chain fs (tip es g)"
  by (induction es arbitrary: g) (auto simp: chain_Nil chain_Cons tip_def)

lemma chain_snoc:
  "chain (es @ [e]) g \<longleftrightarrow> chain es g \<and> prev_of e = Some (tip es g) \<and> stored e = Some (digest e)"
  by (simp add: chain_append chain_Nil chain_Cons)

text \<open>The last digest of a chain commits to the whole chain.\<close>

lemma tip_commits:
  assumes "length es = length fs" "chain es g" "chain fs g" "tip es g = tip fs g"
    "\<forall>e \<in> set es. good e" "\<forall>f \<in> set fs. good f"
  shows "list_all2 same es fs \<or> (\<exists>(e, f) \<in> set (zip es fs). clash e f)"
  using assms
proof (induction es arbitrary: fs rule: rev_induct)
  case (snoc e es)
  from snoc.prems(1) obtain f fs' where fs: "fs = fs' @ [f]" "length es = length fs'"
    by (cases fs rule: rev_cases) auto
  have good: "good e" "good f" using snoc.prems(5,6) fs by auto
  have "digest e = digest f" using snoc.prems(4) fs by (simp add: tip_snoc)
  then consider "same e f" | "clash e f" using digest_binds good by blast
  then show ?case
  proof cases
    case 1
    have "tip es g = tip fs' g"
      using snoc.prems(2,3) fs same_prev [OF good 1] by (auto simp: chain_snoc)
    with snoc.IH [OF fs(2)] snoc.prems fs have
      "list_all2 same es fs' \<or> (\<exists>(e, f) \<in> set (zip es fs'). clash e f)"
      by (auto simp: chain_snoc)
    with 1 fs show ?thesis by (auto simp: list_all2_appendI)
  next
    case 2
    with fs show ?thesis by auto
  qed
qed simp

text \<open>An element that is replaced below the end of a chain breaks the chain.\<close>

lemma replace_detected:
  assumes "chain es g" "chain (es[i := e']) g" "Suc i < length es" "good (es ! i)" "good e'"
  shows "same (es ! i) e' \<or> clash (es ! i) e'"
proof -
  let ?h = "take i es" and ?t = "drop (Suc (Suc i)) es"
  have es: "es = ?h @ es ! i # es ! Suc i # ?t"
    using assms(3) by (metis Cons_nth_drop_Suc Suc_lessD append_take_drop_id)
  have len: "length ?h = i" using assms(3) by simp
  have es': "es[i := e'] = ?h @ e' # es ! Suc i # ?t"
    using assms(3) by (simp add: upd_conv_take_nth_drop Cons_nth_drop_Suc)
  have "prev_of (es ! Suc i) = Some (digest (es ! i))"
    using assms(1) by (subst (asm) es) (simp add: chain_append chain_Cons)
  moreover have "prev_of (es ! Suc i) = Some (digest e')"
    using assms(2) by (simp add: es' chain_append chain_Cons)
  ultimately show ?thesis using digest_binds [OF assms(4,5)] by simp
qed

end

section \<open>Canonical texts\<close>

text \<open>
  The text that is hashed determines a dictionary as Python compares it: the same keys with
  the same values, where nested dictionaries are compared without regard to order too.
\<close>

definition same_dict :: "dict \<Rightarrow> dict \<Rightarrow> bool" where
  "same_dict d d' \<longleftrightarrow>
     (\<forall>k. map_option sort_keys (map_of d k) = map_option sort_keys (map_of d' k))"

lemma wf_sort_keys: "wf_json j \<Longrightarrow> wf_json (sort_keys j)"
proof (induction j rule: sort_keys.induct)
  case (2 fs)
  let ?g = "map (\<lambda>(k, v). (k, sort_keys v)) fs"
  have k: "map fst ?g = map fst fs" by (auto simp: comp_def case_prod_unfold)
  have "distinct (map fst (sort_key fst ?g))"
    using 2(2) k by (metis (no_types, lifting) distinct_map distinct_sort inj_on_def set_sort wf_json.simps(2))
  moreover have "\<forall>f \<in> set ?g. wf_json (snd f)" using 2 by force
  ultimately show ?case by simp
qed simp_all

lemma map_of_sort_keys:
  assumes "distinct (map fst d)"
  shows "map_of (sort_key fst (map (\<lambda>(k, v). (k, sort_keys v)) d)) k = map_option sort_keys (map_of d k)"
proof -
  let ?g = "map (\<lambda>(k, v). (k, sort_keys v)) d"
  have k: "map fst ?g = map fst d" by (auto simp: comp_def case_prod_unfold)
  then have dg: "distinct (map fst ?g)" using assms by (simp only:)
  then have "distinct (map fst (sort_key fst ?g))"
    by (metis (no_types, lifting) distinct_map distinct_sort set_sort)
  then have "map_of (sort_key fst ?g) = map_of ?g"
    using map_of_inject_set [OF _ dg] by (simp only: set_sort)
  then show ?thesis by (simp add: map_of_map)
qed

definition canonical :: "dict \<Rightarrow> bytes" where
  "canonical e = encode (dumps_sorted (JObj (dict_without e ''entry_hash'')))"

lemma dict_without_get: "map_of (dict_without d k) = (map_of d)(k := None)"
  by (induction d) (auto simp: dict_without_def)

lemma wf_dict_without: "wf_json (JObj d) \<Longrightarrow> wf_json (JObj (dict_without d k))"
  by (auto simp: dict_without_def distinct_map_filter)

lemma canonical_binds:
  assumes "wf_json (JObj e)" "wf_json (JObj e')" "canonical e = canonical e'"
  shows "same_dict (dict_without e ''entry_hash'') (dict_without e' ''entry_hash'')"
proof -
  let ?d = "dict_without e ''entry_hash''" and ?d' = "dict_without e' ''entry_hash''"
  have wf: "wf_json (JObj ?d)" "wf_json (JObj ?d')" using assms(1,2) wf_dict_without by blast+
  have "dumps (sort_keys (JObj ?d)) = dumps (sort_keys (JObj ?d'))"
    using assms(3) by (simp only: canonical_def dumps_sorted_def encode_inj)
  then have "sort_keys (JObj ?d) = sort_keys (JObj ?d')"
    using dumps_inj [OF wf_sort_keys [OF wf(1)] wf_sort_keys [OF wf(2)]] by blast
  then have "map_of (sort_key fst (map (\<lambda>(k, v). (k, sort_keys v)) ?d))
      = map_of (sort_key fst (map (\<lambda>(k, v). (k, sort_keys v)) ?d'))" by simp
  moreover have "distinct (map fst ?d)" "distinct (map fst ?d')" using wf by simp_all
  ultimately show ?thesis by (simp add: same_dict_def map_of_sort_keys fun_eq_iff)
qed

section \<open>The log as a hash chain\<close>

definition entry_str :: "string \<Rightarrow> dict \<Rightarrow> string option" where
  "entry_str k e = (case dict_get e k of Some (JStr s) \<Rightarrow> Some s | _ \<Rightarrow> None)"

definition entry_digest :: "dict \<Rightarrow> string" where
  "entry_digest e = hash_entry (dict_without e ''entry_hash'')"

definition same_entry :: "dict \<Rightarrow> dict \<Rightarrow> bool" where
  "same_entry e e' \<longleftrightarrow> same_dict (dict_without e ''entry_hash'') (dict_without e' ''entry_hash'')"

text \<open>The two texts hashed for the entries are a collision of SHA-256.\<close>

definition entries_collide :: "dict \<Rightarrow> dict \<Rightarrow> bool" where
  "entries_collide e e' \<longleftrightarrow> collides sha256 (canonical e) (canonical e')"

definition wf_entry :: "dict \<Rightarrow> bool" where
  "wf_entry e \<longleftrightarrow> wf_json (JObj e)"

lemma entry_str_iff: "entry_str k e = Some s \<longleftrightarrow> dict_get e k = Some (JStr s)"
  by (auto simp: entry_str_def split: option.splits json.splits)

lemma same_entry_str:
  assumes "same_entry e e'" "k \<noteq> ''entry_hash''"
  shows "entry_str k e = entry_str k e'"
proof -
  have eq: "map_option sort_keys (map_of e k) = map_option sort_keys (map_of e' k)"
    using assms spec [OF assms(1) [unfolded same_entry_def same_dict_def], of k]
    by (simp add: dict_without_get)
  have "(case x of Some (JStr s) \<Rightarrow> Some s | _ \<Rightarrow> None)
      = (case map_option sort_keys x of Some (JStr s) \<Rightarrow> Some s | _ \<Rightarrow> None)" for x
    by (auto split: option.splits json.splits)
  with eq show ?thesis unfolding entry_str_def dict_get_def by metis
qed

interpretation audit_chain: hash_chain "entry_str ''prev_hash''" "entry_str ''entry_hash''" entry_digest
  same_entry entries_collide wf_entry verify_chain
proof unfold_locales
  fix e es g
  show "verify_chain (e # es) g \<longleftrightarrow>
      entry_str ''prev_hash'' e = Some g \<and> entry_str ''entry_hash'' e = Some (entry_digest e) \<and>
      verify_chain es (entry_digest e)"
    by (simp add: entry_str_iff entry_digest_def Let_def)
next
  fix e e'
  assume "wf_entry e" "wf_entry e'" "entry_digest e = entry_digest e'"
  then show "same_entry e e' \<or> entries_collide e e'"
    using canonical_binds [of e e']
    by (auto simp: entry_digest_def hash_entry_def wf_entry_def same_entry_def entries_collide_def
        collides_def canonical_def)
qed (simp_all add: same_entry_str)

section \<open>What \<open>emit\<close> keeps\<close>

definition new_entry :: "datetime \<Rightarrow> audit_event \<Rightarrow> string \<Rightarrow> dict" where
  "new_entry now ev prev = entry_body now ev prev @ [(''entry_hash'', JStr (hash_entry (entry_body now ev prev)))]"

lemma emit_eq:
  "emit ev al w =
    (let e = new_entry (wall_clock w (wall_reads w)) ev (al_prev_hash al) in
     (\<lparr>al_entries = al_entries al @ [e], al_prev_hash = entry_digest e\<rparr>, snd (utcnow w)))"
proof -
  have "dict_without (entry_body now ev p) ''entry_hash'' = entry_body now ev p" for now p
    by (simp add: entry_body_def dict_without_def)
  then have "dict_without (new_entry now ev p) ''entry_hash'' = entry_body now ev p" for now p
    by (simp add: new_entry_def dict_without_def)
  moreover have "dict_set (entry_body now ev p) ''entry_hash'' v = entry_body now ev p @ [(''entry_hash'', v)]"
    for now p v by (intro dict_set_new) (simp add: entry_body_def)
  ultimately show ?thesis
    by (simp add: emit_def new_entry_def entry_digest_def utcnow_def Let_def)
qed

lemma wf_opt_json: "(\<And>v. wf_json (f v)) \<Longrightarrow> wf_json (opt_json f x)"
  by (simp add: opt_json_def split: option.split)

lemma wf_new_entry [simp]: "wf_entry (new_entry now ev p)"
  by (simp add: wf_entry_def new_entry_def entry_body_def wf_opt_json)

lemma new_entry_get:
  "dict_get (new_entry now ev p) ''prev_hash'' = Some (JStr p)"
  "dict_get (new_entry now ev p) ''event_type'' = Some (JStr (ev_event_type ev))"
  "dict_get (new_entry now ev p) ''client_id'' = Some (opt_json (\<lambda>n. JStr (str_int n)) (ev_client_id ev))"
  "dict_get (new_entry now ev p) ''access_level'' = Some (opt_json JStr (ev_access_level ev))"
  "dict_get (new_entry now ev p) ''timestamp'' = Some (JStr (isoformat now))"
  by (simp_all add: new_entry_def entry_body_def dict_get_def)

lemma new_entry_hash:
  "dict_get (new_entry now ev p) ''entry_hash'' = Some (JStr (entry_digest (new_entry now ev p)))"
proof -
  have "dict_without (new_entry now ev p) ''entry_hash'' = entry_body now ev p"
    by (simp add: new_entry_def entry_body_def dict_without_def)
  then show ?thesis by (simp add: entry_digest_def new_entry_def entry_body_def dict_get_def)
qed

text \<open>The log verifies from its genesis hash, and the next entry will link to its last one.\<close>

definition audit_inv :: "string \<Rightarrow> audit_logger \<Rightarrow> bool" where
  "audit_inv g al \<longleftrightarrow> verify_chain (al_entries al) g \<and>
     al_prev_hash al = audit_chain.tip (al_entries al) g \<and> (\<forall>e \<in> set (al_entries al). wf_entry e)"

definition audit_le :: "audit_logger \<Rightarrow> audit_logger \<Rightarrow> bool" where
  "audit_le al al' \<longleftrightarrow> (\<exists>es. al_entries al' = al_entries al @ es)"

lemma audit_inv_init [simp]: "audit_inv g (audit_init g)"
  by (simp add: audit_inv_def audit_init_def audit_chain.tip_def)

lemma audit_inv_emit: "audit_inv g al \<Longrightarrow> audit_inv g (fst (emit ev al w))"
  by (auto simp: audit_inv_def emit_eq Let_def audit_chain.chain_snoc audit_chain.tip_snoc
      entry_str_iff new_entry_get new_entry_hash)

lemma audit_le_emit [simp]: "audit_le al (fst (emit ev al w))"
  by (simp add: audit_le_def emit_eq Let_def)

lemma audit_le_refl [simp]: "audit_le al al"
  by (simp add: audit_le_def)

lemma audit_le_trans [trans]: "audit_le a b \<Longrightarrow> audit_le b c \<Longrightarrow> audit_le a c"
  by (auto simp: audit_le_def)

lemma snd_emit [simp]: "snd (emit ev al w) = snd (utcnow w)"
  by (simp add: emit_eq Let_def)

definition audit_step :: "audit_event \<Rightarrow> audit_logger \<times> world \<Rightarrow> unit \<times> (audit_logger \<times> world)" where
  "audit_step ev x = ((), emit ev (fst x) (snd x))"

interpretation audit_machine: monotone_machine audit_step "\<lambda>x. audit_inv g (fst x)"
  "\<lambda>x y. audit_le (fst x) (fst y)" for g
  by unfold_locales (auto simp: audit_step_def audit_inv_emit intro: audit_le_trans)

section \<open>Properties\<close>

text \<open>a log that is only written by \<open>emit\<close> always verifies. After any sequence of events the
  chain checks from the genesis hash the log was built with, every event has added one
  entry, and what was there before is a prefix of what is there now.\<close>

theorem emitted_log_verifies:
  "let x = snd (run audit_step evs (audit_init g, w));
       y = snd (run audit_step evs' x) in
    verify_chain (entries (fst y)) g \<and>
    length (entries (fst x)) = length evs \<and>
    take (length evs) (entries (fst y)) = entries (fst x)"
proof -
  let ?x = "snd (run audit_step evs (audit_init g, w))"
  have "audit_inv g (fst ?x)" using audit_machine.inv_run [of g "(audit_init g, w)" evs] by simp
  then have inv: "audit_inv g (fst (snd (run audit_step evs' ?x)))" by (rule audit_machine.inv_run)
  have len: "length (al_entries (fst (snd (run audit_step evs z)))) = length (al_entries (fst z)) + length evs" for z
    by (induction evs arbitrary: z) (simp_all add: audit_step_def emit_eq Let_def)
  have "audit_le (fst ?x) (fst (snd (run audit_step evs' ?x)))"
    using audit_machine.rel_run [of g ?x evs'] \<open>audit_inv g (fst ?x)\<close> by simp
  with inv len [of "(audit_init g, w)"] show ?thesis
    by (auto simp: Let_def entries_def audit_inv_def audit_le_def audit_init_def)
qed

text \<open>C17: the chain commits to the log. If two logs of the same length verify from the same genesis hash
  and end in the same entry hash, then they agree entry by entry, as Python compares
  dictionaries, or at some position the two texts that were hashed are a collision of SHA-256.\<close>

theorem chain_commits:
  assumes "verify_chain es g" and "verify_chain fs g" and "length es = length fs"
    and "dict_get (last es) ''entry_hash'' = dict_get (last fs) ''entry_hash''"
    and "\<forall>e \<in> set (es @ fs). wf_json (JObj e)"
  shows "list_all2 same_entry es fs \<or> (\<exists>i < length es. entries_collide (es ! i) (fs ! i))"
proof (cases "es = []")
  case True
  then show ?thesis using assms(3) by simp
next
  case False
  then have fs: "fs \<noteq> []" using assms(3) by auto
  have stored: "dict_get (last xs) ''entry_hash'' = Some (JStr (entry_digest (last xs)))"
    if "verify_chain xs g" "xs \<noteq> []" for xs
    using that audit_chain.chain_snoc [of "butlast xs" "last xs" g] by (simp add: entry_str_iff)
  have "audit_chain.tip es g = audit_chain.tip fs g"
    using stored [OF assms(1) False] stored [OF assms(2) fs] assms(4) False fs
    by (simp add: audit_chain.tip_def)
  moreover have "\<forall>e \<in> set es. wf_entry e" "\<forall>e \<in> set fs. wf_entry e"
    using assms(5) unfolding wf_entry_def set_append by blast+
  ultimately have "list_all2 same_entry es fs \<or> (\<exists>(e, f) \<in> set (zip es fs). entries_collide e f)"
    using audit_chain.tip_commits [OF assms(3,1,2)] by blast
  then show ?thesis
    by (auto simp: set_zip assms(3))
qed

text \<open>an entry replaced inside the log is found. If any entry but the last is replaced by one that differs
  from it, hash fields recomputed or not, the check of the chain fails, or the two texts that were
  hashed are a collision of SHA-256.\<close>

theorem modification_detected:
  assumes "verify_chain es g" and "Suc i < length es"
    and "wf_json (JObj (es ! i))" and "wf_json (JObj e')" and "\<not> same_entry (es ! i) e'"
  shows "\<not> verify_chain (es[i := e']) g \<or> entries_collide (es ! i) e'"
  using audit_chain.replace_detected [OF assms(1) _ assms(2), of e'] assms(3-5)
  by (auto simp: wf_entry_def)

text \<open>what the chain does not show. Cutting entries off the end of a log that verifies
  leaves a log that verifies, so the check alone cannot tell a shortened log from a short one.\<close>

theorem truncation_verifies:
  assumes "verify_chain es g"
  shows "verify_chain (take n es) g"
proof -
  have "verify_chain (take n es @ drop n es) g" using assms by simp
  then show ?thesis by (simp only: audit_chain.chain_append)
qed

definition sample_events :: "audit_event list" where
  "sample_events =
     [\<lparr>ev_event_type = ''SESSION_START'', ev_service_id = Some 16, ev_access_level = None,
       ev_client_id = Some 7, ev_result = Some ''success'', ev_nrc_code = None\<rparr>,
      \<lparr>ev_event_type = ''SESSION_END'', ev_service_id = Some 16, ev_access_level = None,
       ev_client_id = Some 7, ev_result = Some ''success'', ev_nrc_code = None\<rparr>]"

definition sample_log :: "dict list" where
  "sample_log = entries (fst (snd (run audit_step sample_events (audit_init GENESIS_HASH, sample_world))))"

lemma sample_log_facts:
  "verify_chain sample_log GENESIS_HASH" "length sample_log = 2" "\<forall>e \<in> set sample_log. wf_json (JObj e)"
  "dict_get (sample_log ! 0) ''event_type'' = Some (JStr ''SESSION_START'')"
proof -
  have "\<exists>t u p q. sample_log = [new_entry t (sample_events ! 0) p, new_entry u (sample_events ! 1) q]"
    by (simp add: sample_log_def sample_events_def entries_def audit_init_def audit_step_def emit_eq Let_def) blast
  then obtain t u p q where
    eq: "sample_log = [new_entry t (sample_events ! 0) p, new_entry u (sample_events ! 1) q]" by blast
  show "length sample_log = 2" by (simp add: eq)
  show "dict_get (sample_log ! 0) ''event_type'' = Some (JStr ''SESSION_START'')"
    by (simp add: eq new_entry_get) (simp add: sample_events_def)
  have "\<forall>e \<in> set sample_log. wf_entry e" by (simp add: eq)
  then show "\<forall>e \<in> set sample_log. wf_json (JObj e)" unfolding wf_entry_def .
  show "verify_chain sample_log GENESIS_HASH"
  proof -
    have "audit_inv GENESIS_HASH (fst (snd (run audit_step sample_events (audit_init GENESIS_HASH, sample_world))))"
      by (rule audit_machine.inv_run) simp
    then show ?thesis by (simp add: sample_log_def entries_def audit_inv_def)
  qed
qed

theorem chain_commits_witness:
  "list_all2 same_entry sample_log sample_log \<or>
   (\<exists>i < length sample_log. entries_collide (sample_log ! i) (sample_log ! i))"
  using chain_commits [of sample_log GENESIS_HASH sample_log] sample_log_facts by auto

theorem modification_detected_witness:
  "\<not> (verify_chain (sample_log[0 := []]) GENESIS_HASH \<and> \<not> entries_collide (sample_log ! 0) [])"
proof -
  have "\<not> same_entry (sample_log ! 0) []"
    using same_entry_str [of "sample_log ! 0" "[]" "''event_type''"] sample_log_facts(4)
    by (auto simp: entry_str_def dict_get_def)
  moreover have "wf_json (JObj (sample_log ! 0))"
    using bspec [OF sample_log_facts(3), of "sample_log ! 0"] nth_mem [of 0 sample_log] sample_log_facts(2)
    by linarith
  ultimately show ?thesis
    using modification_detected [of sample_log GENESIS_HASH 0 "[]"] sample_log_facts(1,2) by simp
qed

theorem truncation_verifies_witness: "verify_chain (take 1 sample_log) GENESIS_HASH"
  using truncation_verifies [OF sample_log_facts(1)] .

end
