(* ===== verification/ECU.thy ===== *)
theory ECU
  imports Lockout Authentication Audit_Logger
begin

text \<open>
  The virtual ECU, \<open>sim/core/ecu.py\<close>: the object that owns the session machine, the 0x27 and 0x29
  handlers and the audit log, and the RPC handlers, the only entry points of the diagnostic client.

  Every handler runs under the ECU's lock, so a handler is a function on the whole state and
  a concurrent execution is some sequence of handler calls. The connection that makes the call is
  an argument (\<open>get_current_conn_id\<close>). The components share the session machine and, through it, the
  environment: each call passes \<open>e_sm\<close> on. A result \<open>Inl\<close> is an exception that leaves the
  handler, which the RPC layer turns into an error response; the state next to it is what had been
  assigned by then. Responses are the JSON dictionaries of the source.
\<close>

section \<open>State\<close>

record ecu =
  e_policy :: policy
  e_sm :: session_sm
  e_sa :: sa
  e_auth :: auth
  e_audit :: audit_logger
  e_owner :: "int option"
  e_mechanism :: "string option"

text \<open>\<open>__init__\<close> followed by \<open>start\<close>.\<close>

definition ecu_start ::
  "policy \<Rightarrow> seconds option \<Rightarrow> cert_store option \<Rightarrow> seconds option \<Rightarrow> seconds option \<Rightarrow> world \<Rightarrow> exn + ecu"
where
  "ecu_start policy session_timeout cs required_delay lockout_duration w =
     (case session_init policy session_timeout w of
        Inl ex \<Rightarrow> Inl ex
      | Inr sm \<Rightarrow>
     (case security_access_init policy required_delay lockout_duration of
        Inl ex \<Rightarrow> Inl ex
      | Inr sa \<Rightarrow>
          Inr \<lparr>e_policy = policy, e_sm = sm, e_sa = sa,
               e_auth = authentication_init policy cs,
               e_audit = audit_init (pol_genesis_hash policy),
               e_owner = None, e_mechanism = None\<rparr>))"

section \<open>Responses and events\<close>

definition negative :: "int option \<Rightarrow> dict" where
  "negative nrc = [(''positive'', JBool False), (''nrc'', opt_json JInt nrc)]"

definition positive :: "dict \<Rightarrow> dict" where
  "positive kvs = (''positive'', JBool True) # kvs"

definition json_of_ints :: "int list \<Rightarrow> json" where
  "json_of_ints ns = JArr (map JInt ns)"

definition audit_event_of ::
  "string \<Rightarrow> int \<Rightarrow> string option \<Rightarrow> int \<Rightarrow> string \<Rightarrow> int option \<Rightarrow> audit_event" where
  "audit_event_of event_type service_id access_level client_id result nrc_code =
     \<lparr>ev_event_type = event_type, ev_service_id = Some service_id, ev_access_level = access_level,
      ev_client_id = Some client_id, ev_result = Some result, ev_nrc_code = nrc_code\<rparr>"

definition emit_event :: "audit_event \<Rightarrow> ecu \<Rightarrow> ecu" where
  "emit_event ev e = (let (al, sm) = emit ev (e_audit e) (e_sm e) in e\<lparr>e_audit := al, e_sm := sm\<rparr>)"

text \<open>\<open>self._session_sm.current()\<close> inside a handler.\<close>

definition ecu_current :: "ecu \<Rightarrow> int \<times> ecu" where
  "ecu_current e = (let (cur, sm) = current (e_sm e) in (cur, e\<lparr>e_sm := sm\<rparr>))"

section \<open>Helpers\<close>

definition clear_access_levels :: "ecu \<Rightarrow> ecu" where
  "clear_access_levels e =
     e\<lparr>e_sa := clear_access (e_sa e), e_auth := auth_clear_access (e_auth e),
       e_owner := None, e_mechanism := None\<rparr>"

definition is_access_granted :: "string \<Rightarrow> int \<Rightarrow> ecu \<Rightarrow> bool" where
  "is_access_granted access_level session_id e =
     (let sa = sa_granted (e_sa e); auth = au_granted (e_auth e) in
      if access_level = ''READ_ONLY'' then True
      else if access_level = ''CALIBRATION'' then session_id = EXTENDED \<and> sa = Some ''CALIBRATION''
      else if access_level = ''ECU_PROGRAMMING''
        then session_id = PROGRAMMING \<and> sa = Some ''ECU_PROGRAMMING''
      else if access_level = ''ENGINEERING'' then session_id = EXTENDED \<and> auth = Some ''ENGINEERING''
      else if access_level = ''FULL_ACCESS'' then session_id = PROGRAMMING \<and> auth = Some ''FULL_ACCESS''
      else False)"

section \<open>The RPC handlers\<close>

definition rpc_session_control :: "int \<Rightarrow> int \<Rightarrow> ecu \<Rightarrow> (exn + dict) \<times> ecu" where
  "rpc_session_control conn_id session_id e =
     (let (cur, e) = ecu_current e in
      if cur \<noteq> DEFAULT \<and> e_owner e \<noteq> Some conn_id then (Inr (negative (Some 0x22)), e)
      else
        let ((ok, nrc), sm) = transition session_id (e_sm e);
            e = e\<lparr>e_sm := sm\<rparr> in
        if ok then
          let (new_session, e) = ecu_current e;
              e = (if new_session \<noteq> DEFAULT
                   then emit_event (audit_event_of ''SESSION_START'' 0x10 None conn_id ''success'' None)
                          (e\<lparr>e_owner := Some conn_id\<rparr>)
                   else emit_event (audit_event_of ''SESSION_END'' 0x10 None conn_id ''success'' None)
                          (clear_access_levels e))
          in (Inr (positive [(''session_id'', JInt session_id)]), e)
        else (Inr (negative nrc), e))"

definition rpc_get_session_state :: "int \<Rightarrow> ecu \<Rightarrow> (exn + dict) \<times> ecu" where
  "rpc_get_session_state conn_id e =
     (let (cur, e) = ecu_current e;
          e = (if cur \<noteq> DEFAULT \<and> e_owner e = Some conn_id then e\<lparr>e_sm := touch (e_sm e)\<rparr> else e);
          e = (if cur = DEFAULT then e\<lparr>e_owner := None\<rparr> else e)
      in (Inr [(''session_id'', JInt cur)], e))"

definition rpc_inject_tamper :: "int \<Rightarrow> ecu \<Rightarrow> (exn + dict) \<times> ecu" where
  "rpc_inject_tamper conn_id e =
     (let e = e\<lparr>e_sm := reset (e_sm e)\<rparr>;
          e = clear_access_levels e;
          e = emit_event (audit_event_of ''SESSION_TAMPER_RESET'' 0x10 None conn_id ''tamper'' None) e
      in (Inr [(''ok'', JBool True)], e))"

definition rpc_request_seed :: "int \<Rightarrow> int \<Rightarrow> ecu \<Rightarrow> (exn + dict) \<times> ecu" where
  "rpc_request_seed conn_id subfunction e =
     (let (cur, e) = ecu_current e in
      if cur \<noteq> DEFAULT \<and> e_owner e \<noteq> Some conn_id then (Inr (negative (Some 0x22)), e)
      else if e_mechanism e = Some ''0x29'' then (Inr (negative (Some 0x24)), e)
      else
        let ((ok, seed, nrc), sa, sm) = request_seed subfunction (e_sa e) (e_sm e);
            e = e\<lparr>e_sa := sa, e_sm := sm\<rparr> in
        if ok then
          (Inr (positive [(''seed'', json_of_ints (list_of_bytes (the seed)))]),
           e\<lparr>e_mechanism := Some ''0x27''\<rparr>)
        else (Inr (negative nrc), e))"

definition rpc_send_key :: "int \<Rightarrow> int \<Rightarrow> int list \<Rightarrow> ecu \<Rightarrow> (exn + dict) \<times> ecu" where
  "rpc_send_key conn_id subfunction key e =
     (let (cur, e) = ecu_current e in
      if cur \<noteq> DEFAULT \<and> e_owner e \<noteq> Some conn_id then (Inr (negative (Some 0x22)), e)
      else (case py_bytes key of
          Inl ex \<Rightarrow> (Inl ex, e)
        | Inr key_bytes \<Rightarrow>
            let (res, sa, sm) = send_key subfunction key_bytes (e_sa e) (e_sm e);
                e = e\<lparr>e_sa := sa, e_sm := sm\<rparr> in
            (case res of
               Inl ex \<Rightarrow> (Inl ex, e)
             | Inr (ok, access_level, nrc) \<Rightarrow>
                 if ok then
                   (Inr (positive [(''access_level'', opt_json JStr access_level)]),
                    emit_event (audit_event_of ''AUTH_SUCCESS'' 0x27 access_level conn_id ''success'' None) e)
                 else
                   (Inr (negative nrc),
                    if nrc = Some 0x35
                    then emit_event (audit_event_of ''AUTH_FAILURE'' 0x27 None conn_id ''failure'' nrc) e
                    else e))))"

definition rpc_get_access_level :: "ecu \<Rightarrow> (exn + dict) \<times> ecu" where
  "rpc_get_access_level e = (Inr [(''access_level'', opt_json JStr (sa_granted (e_sa e)))], e)"

definition rpc_get_attempt_counter :: "string \<Rightarrow> ecu \<Rightarrow> (exn + dict) \<times> ecu" where
  "rpc_get_attempt_counter access_level e =
     (Inr [(''count'', JInt (attempt_counter access_level (e_sa e)))], e)"

definition rpc_communicate_certificate ::
  "provider \<Rightarrow> int \<Rightarrow> string \<Rightarrow> ecu \<Rightarrow> (exn + dict) \<times> ecu" where
  "rpc_communicate_certificate P conn_id cert_pem e =
     (let (cur, e) = ecu_current e in
      if cur \<noteq> DEFAULT \<and> e_owner e \<noteq> Some conn_id then (Inr (negative (Some 0x22)), e)
      else if cur = DEFAULT then (Inr (negative (Some 0x22)), e)
      else if e_mechanism e = Some ''0x27'' then (Inr (negative (Some 0x24)), e)
      else
        let (res, auth, sm) = communicate_certificate P cert_pem cur (e_auth e) (e_sm e);
            e = e\<lparr>e_auth := auth, e_sm := sm\<rparr> in
        (case res of
           Inl ex \<Rightarrow> (Inl ex, e)
         | Inr (ok, data, nrc) \<Rightarrow>
             if ok then
               (Inr (positive [(''challenge'', json_of_ints (cd_challenge (the data))),
                               (''ecu_cert'', opt_json JStr (cd_ecu_cert (the data)))]),
                e\<lparr>e_mechanism := Some ''0x29''\<rparr>)
             else (Inr (negative nrc), e)))"

definition rpc_verify_proof :: "provider \<Rightarrow> int \<Rightarrow> int list \<Rightarrow> ecu \<Rightarrow> (exn + dict) \<times> ecu" where
  "rpc_verify_proof P conn_id proof_ints e =
     (let (cur, e) = ecu_current e in
      if cur \<noteq> DEFAULT \<and> e_owner e \<noteq> Some conn_id then (Inr (negative (Some 0x22)), e)
      else if cur = DEFAULT then (Inr (negative (Some 0x22)), e)
      else (case py_bytes proof_ints of
          Inl ex \<Rightarrow> (Inl ex, e)
        | Inr proof_bytes \<Rightarrow>
            let (res, auth, sm) = verify_proof P proof_bytes cur (e_auth e) (e_sm e);
                e = e\<lparr>e_auth := auth, e_sm := sm\<rparr> in
            (case res of
               Inl ex \<Rightarrow> (Inl ex, e)
             | Inr (ok, access_level, nrc) \<Rightarrow>
                 if ok then
                   (Inr (positive [(''access_level'', opt_json JStr access_level)]),
                    emit_event (audit_event_of ''AUTH_SUCCESS'' 0x29 access_level conn_id ''success'' None) e)
                 else
                   (Inr (negative nrc),
                    emit_event (audit_event_of ''AUTH_FAILURE'' 0x29 None conn_id ''failure'' nrc) e))))"

definition rpc_deauthenticate :: "int \<Rightarrow> ecu \<Rightarrow> (exn + dict) \<times> ecu" where
  "rpc_deauthenticate conn_id e =
     (let (cur, e) = ecu_current e in
      if cur \<noteq> DEFAULT \<and> e_owner e \<noteq> Some conn_id then (Inr (negative (Some 0x22)), e)
      else let (p, auth) = deauthenticate (e_auth e) in
        (Inr [(''positive'', JBool p)], e\<lparr>e_auth := auth\<rparr>))"

definition rpc_get_auth_access_level :: "ecu \<Rightarrow> (exn + dict) \<times> ecu" where
  "rpc_get_auth_access_level e = (Inr [(''access_level'', opt_json JStr (au_granted (e_auth e)))], e)"

definition rpc_get_audit_log :: "ecu \<Rightarrow> (exn + dict) \<times> ecu" where
  "rpc_get_audit_log e = (Inr [(''entries'', JArr (map JObj (entries (e_audit e))))], e)"

definition rpc_inject_replay_nonce :: "int list \<Rightarrow> ecu \<Rightarrow> (exn + dict) \<times> ecu" where
  "rpc_inject_replay_nonce nonce e =
     (case py_bytes nonce of
        Inl ex \<Rightarrow> (Inl ex, e)
      | Inr n \<Rightarrow> (Inr [(''ok'', JBool True)], e\<lparr>e_auth := inject_pending_nonce_for_test n (e_auth e)\<rparr>))"

definition rpc_send_uds_pdu :: "int \<Rightarrow> int \<Rightarrow> int list \<Rightarrow> ecu \<Rightarrow> (exn + dict) \<times> ecu" where
  "rpc_send_uds_pdu conn_id service_id payload e =
     (if service_id = 0x10 then
        if length payload \<noteq> 1 then (Inr (negative (Some 0x13)), e)
        else rpc_session_control conn_id (payload ! 0) e
      else if service_id = 0x27 then
        if length payload < 1 then (Inr (negative (Some 0x13)), e)
        else rpc_request_seed conn_id (payload ! 0) e
      else (Inr (negative (Some 0x13)), e))"

definition rpc_check_access :: "string \<Rightarrow> ecu \<Rightarrow> (exn + dict) \<times> ecu" where
  "rpc_check_access access_level e =
     (let (cur, e) = ecu_current e;
          e = (if cur = DEFAULT then clear_access_levels e else e)
      in (Inr [(''granted'', JBool (is_access_granted access_level cur e))], e))"

section \<open>The dispatch table\<close>

text \<open>The methods that \<open>start\<close> registers.\<close>

datatype request =
    DiagnosticSessionControl int
  | GetSessionState
  | InjectTamper
  | SecurityAccessRequestSeed int
  | SecurityAccessSendKey int "int list"
  | GetAccessLevel
  | GetAttemptCounter string
  | AuthenticateCommunicateCertificate string
  | CheckAccess string
  | SendUdsPdu int "int list"
  | AuthenticateVerifyProof "int list"
  | AuthenticateDeauthenticate
  | GetAuthAccessLevel
  | InjectReplayNonce "int list"
  | GetAuditLog

fun handle :: "provider \<Rightarrow> int \<Rightarrow> request \<Rightarrow> ecu \<Rightarrow> (exn + dict) \<times> ecu" where
  "handle P c (DiagnosticSessionControl s) e = rpc_session_control c s e"
| "handle P c GetSessionState e = rpc_get_session_state c e"
| "handle P c InjectTamper e = rpc_inject_tamper c e"
| "handle P c (SecurityAccessRequestSeed sf) e = rpc_request_seed c sf e"
| "handle P c (SecurityAccessSendKey sf key) e = rpc_send_key c sf key e"
| "handle P c GetAccessLevel e = rpc_get_access_level e"
| "handle P c (GetAttemptCounter lv) e = rpc_get_attempt_counter lv e"
| "handle P c (AuthenticateCommunicateCertificate pem) e = rpc_communicate_certificate P c pem e"
| "handle P c (CheckAccess lv) e = rpc_check_access lv e"
| "handle P c (SendUdsPdu sid payload) e = rpc_send_uds_pdu c sid payload e"
| "handle P c (AuthenticateVerifyProof p) e = rpc_verify_proof P c p e"
| "handle P c AuthenticateDeauthenticate e = rpc_deauthenticate c e"
| "handle P c GetAuthAccessLevel e = rpc_get_auth_access_level e"
| "handle P c (InjectReplayNonce n) e = rpc_inject_replay_nonce n e"
| "handle P c GetAuditLog e = rpc_get_audit_log e"

text \<open>
  The machine: calls of the handlers by connections, the revocation of certificates through the
  store that the ECU shares with whoever built it, and readings of the clocks and the random source
  made by other code of the process.
\<close>

datatype ecu_input = Call int request | StoreRevoke string | OtherReadings nat nat nat

definition other_readings :: "nat \<Rightarrow> nat \<Rightarrow> nat \<Rightarrow> 'a world_scheme \<Rightarrow> 'a world_scheme" where
  "other_readings k n m w =
     w\<lparr>mono_reads := mono_reads w + k, wall_reads := wall_reads w + n, rand_reads := rand_reads w + m\<rparr>"

fun ecu_step :: "provider \<Rightarrow> ecu_input \<Rightarrow> ecu \<Rightarrow> (exn + dict) \<times> ecu" where
  "ecu_step P (Call c req) e = handle P c req e"
| "ecu_step P (StoreRevoke t) e = (Inr [], e\<lparr>e_auth := revoke_thumbprint t (e_auth e)\<rparr>)"
| "ecu_step P (OtherReadings k n m) e = (Inr [], e\<lparr>e_sm := other_readings k n m (e_sm e)\<rparr>)"

lemmas rpc_defs [handler_defs] = rpc_session_control_def rpc_get_session_state_def rpc_inject_tamper_def
  rpc_request_seed_def rpc_send_key_def rpc_get_access_level_def rpc_get_attempt_counter_def
  rpc_communicate_certificate_def rpc_verify_proof_def rpc_deauthenticate_def
  rpc_get_auth_access_level_def rpc_get_audit_log_def rpc_inject_replay_nonce_def rpc_check_access_def

end
