(* ===== verification/ECU_Simulation.thy ===== *)
theory ECU_Simulation
  imports ECU
begin

text \<open>
  Every call of the ECU acts on its components through their own operations only: what a call does to
  the 0x27 handler and the session machine is a run of \<open>sa_step\<close>, and what it does to the 0x29
  handler is a run of \<open>auth_step\<close>. So a run of the ECU projects to a run of each component,
  with the same rejected and accepted keys and the same accepted nonces, and the theorems about
  the components hold for the ECU, whatever connections call whatever handlers in whatever order.
\<close>

section \<open>Paths of the session machine\<close>

definition session_reach :: "session_sm \<Rightarrow> session_sm \<Rightarrow> bool" where
  "session_reach sm sm' \<longleftrightarrow> (\<exists>ops. sm' = snd (run session_step ops sm))"

lemma session_reach_refl [simp, intro]: "session_reach sm sm"
  unfolding session_reach_def by (rule exI [of _ "[]"]) simp

lemma session_reach_trans [trans]: "session_reach a b \<Longrightarrow> session_reach b c \<Longrightarrow> session_reach a c"
  unfolding session_reach_def by (metis snd_run_append)

lemma session_reach_step: "session_reach sm (snd (session_step op sm))"
  unfolding session_reach_def by (rule exI [of _ "[op]"]) simp

lemma session_reach_check_timeout [simp, intro]: "session_reach sm (check_timeout sm)"
  using session_reach_step [of sm Current] by simp

lemma session_reach_touch [simp, intro]: "session_reach sm (touch sm)"
  using session_reach_step [of sm Touch] by simp

lemma session_reach_reset [simp, intro]: "session_reach sm (reset sm)"
  using session_reach_step [of sm Reset] by simp

lemma session_reach_transition [simp, intro]: "session_reach sm (snd (transition t sm))"
  using session_reach_step [of sm "Transition t"] by simp

lemma session_reach_elsewhere:
  "session_reach sm (sm\<lparr>mono_reads := mono_reads sm + k, wall_reads := wall_reads sm + n,
     rand_reads := rand_reads sm + m\<rparr>)"
  using session_reach_step [of sm "Elsewhere k n m"] by simp

lemma session_reach_readings [simp, intro]:
  "session_reach sm (snd (monotonic sm))"
  "session_reach sm (snd (utcnow sm))"
  "session_reach sm (snd (os_urandom sz sm))"
proof -
  show "session_reach sm (snd (monotonic sm))"
    using session_reach_elsewhere [where sm = sm and k = 1 and n = 0 and m = 0] by (cases sm) (simp add: monotonic_def)
  show "session_reach sm (snd (utcnow sm))"
    using session_reach_elsewhere [where sm = sm and k = 0 and n = 1 and m = 0] by (cases sm) (simp add: utcnow_def)
  show "session_reach sm (snd (os_urandom sz sm))"
    using session_reach_elsewhere [where sm = sm and k = 0 and n = 0 and m = 1] by (cases sm) (simp add: os_urandom_def)
qed

lemmas session_reach_steps = session_reach_trans [OF _ session_reach_check_timeout]
  session_reach_trans [OF _ session_reach_touch] session_reach_trans [OF _ session_reach_reset]
  session_reach_trans [OF _ session_reach_transition] session_reach_trans [OF _ session_reach_readings(1)]
  session_reach_trans [OF _ session_reach_readings(2)] session_reach_trans [OF _ session_reach_readings(3)]

lemma session_reach_request_seed: "session_reach sm (snd (snd (request_seed sf s sm)))"
proof -
  obtain res s' sm' where eq: "request_seed sf s sm = (res, s', sm')" by (cases "request_seed sf s sm") auto
  from eq have "session_reach sm sm'"
  proof (cases rule: request_seed_elim)
    case (issued cfg seed sm1)
    then have "sm1 = snd (os_urandom (sa_challenge_size s) (snd (monotonic (check_timeout sm))))" by simp
    with issued(8) show ?thesis by (auto intro: session_reach_steps)
  qed (auto intro: session_reach_steps)
  with eq show ?thesis by simp
qed

lemma session_reach_send_key: "session_reach sm (snd (snd (send_key sf key s sm)))"
proof -
  obtain res s' sm' where eq: "send_key sf key s sm = (res, s', sm')" by (cases "send_key sf key s sm") auto
  have rf: "session_reach sm0 sm1" if "record_failure lv s0 sm0 = (r, s1, sm1)" for lv s0 sm0 r s1 sm1
    using that by (auto simp: record_failure_def Let_def case_prod_unfold split: option.splits if_splits
        intro: session_reach_steps)
  from eq have "session_reach sm sm'"
    by (cases rule: send_key_elim) (auto intro: session_reach_steps session_reach_trans dest: rf)
  with eq show ?thesis by simp
qed

lemma session_reach_communicate: "session_reach sm (snd (snd (communicate_certificate P pem sid a sm)))"
proof -
  obtain res a' sm' where eq: "communicate_certificate P pem sid a sm = (res, a', sm')"
    by (cases "communicate_certificate P pem sid a sm") auto
  from eq have "session_reach sm sm'"
  proof (cases rule: communicate_certificate_elim)
    case (challenged c cs n smn)
    then have "smn = snd (os_urandom (au_nonce_size a) (snd (utcnow sm)))" by simp
    with challenged(7) show ?thesis by (auto intro: session_reach_steps)
  qed auto
  with eq show ?thesis by simp
qed

lemma session_reach_verify_proof: "session_reach sm (snd (snd (verify_proof P proof sid a sm)))"
proof -
  obtain res a' sm' where eq: "verify_proof P proof sid a sm = (res, a', sm')"
    by (cases "verify_proof P proof sid a sm") auto
  from eq have "session_reach sm sm'" by (cases rule: verify_proof_elim) auto
  with eq show ?thesis by simp
qed

section \<open>Paths of the 0x27 handler\<close>

text \<open>\<open>sa_path f g x y\<close>: some run leads from \<open>x\<close> to \<open>y\<close> in which \<open>f ss\<close> keys are rejected and
  \<open>g ss\<close> accepted on the sendKey subfunction \<open>ss\<close>.\<close>

definition sa_path ::
  "(int \<Rightarrow> nat) \<Rightarrow> (int \<Rightarrow> nat) \<Rightarrow> sa \<times> session_sm \<Rightarrow> sa \<times> session_sm \<Rightarrow> bool" where
  "sa_path f g x y \<longleftrightarrow> (\<exists>ops. snd (run sa_step ops x) = y \<and>
     (\<forall>ss. failures ss ops (fst (run sa_step ops x)) = f ss \<and>
           successes ss ops (fst (run sa_step ops x)) = g ss))"

abbreviation quiet :: "int \<Rightarrow> nat" where "quiet \<equiv> \<lambda>_. 0"

lemma counts_append:
  "length ops = length outs \<Longrightarrow>
    failures ss (ops @ ops') (outs @ outs') = failures ss ops outs + failures ss ops' outs' \<and>
    successes ss (ops @ ops') (outs @ outs') = successes ss ops outs + successes ss ops' outs'"
  by (simp add: failures_def successes_def)

lemma sa_path_refl [simp, intro]: "sa_path quiet quiet x x"
  unfolding sa_path_def by (rule exI [of _ "[]"]) simp

lemma sa_path_trans:
  assumes "sa_path f g x y" "sa_path f' g' y z"
  shows "sa_path (\<lambda>ss. f ss + f' ss) (\<lambda>ss. g ss + g' ss) x z"
proof -
  obtain ops where 1: "snd (run sa_step ops x) = y"
    "\<And>ss. failures ss ops (fst (run sa_step ops x)) = f ss \<and> successes ss ops (fst (run sa_step ops x)) = g ss"
    using assms(1) unfolding sa_path_def by blast
  obtain ops' where 2: "snd (run sa_step ops' y) = z"
    "\<And>ss. failures ss ops' (fst (run sa_step ops' y)) = f' ss \<and> successes ss ops' (fst (run sa_step ops' y)) = g' ss"
    using assms(2) unfolding sa_path_def by blast
  show ?thesis
    unfolding sa_path_def using 1 2
    by (intro exI [of _ "ops @ ops'"]) (simp add: counts_append)
qed

lemma sa_path_quiet_left: "sa_path quiet quiet x y \<Longrightarrow> sa_path f g y z \<Longrightarrow> sa_path f g x z"
  using sa_path_trans [of quiet quiet x y f g z] by simp

lemma sa_path_quiet_right: "sa_path f g x y \<Longrightarrow> sa_path quiet quiet y z \<Longrightarrow> sa_path f g x z"
  using sa_path_trans [of f g x y quiet quiet z] by simp

lemma sa_path_session:
  assumes "session_reach sm sm'"
  shows "sa_path quiet quiet (s, sm) (s, sm')"
proof -
  obtain ops where ops: "sm' = snd (run session_step ops sm)"
    using assms unfolding session_reach_def by blast
  have "snd (run sa_step (map SessionOp ops) (s, sm)) = (s, snd (run session_step ops sm)) \<and>
      failures ss (map SessionOp ops) (fst (run sa_step (map SessionOp ops) (s, sm))) = 0 \<and>
      successes ss (map SessionOp ops) (fst (run sa_step (map SessionOp ops) (s, sm))) = 0" for ss
    by (induction ops arbitrary: sm) simp_all
  with ops show ?thesis unfolding sa_path_def by blast
qed

lemma sa_path_clear: "sa_path quiet quiet (s, sm) (clear_access s, sm)"
  unfolding sa_path_def by (rule exI [of _ "[ClearAccess]"]) simp

lemma sa_path_request_seed:
  "request_seed sf s sm = (res, s', sm') \<Longrightarrow> sa_path quiet quiet (s, sm) (s', sm')"
  unfolding sa_path_def by (rule exI [of _ "[RequestSeed sf]"]) simp

lemma sa_path_send_key:
  "send_key sf key s sm = (res, s', sm') \<Longrightarrow>
    sa_path (\<lambda>ss. if ss = sf \<and> res = Inr (False, None, Some 0x35) then 1 else 0)
      (\<lambda>ss. if ss = sf \<and> (\<exists>lv. res = Inr (True, lv, None)) then 1 else 0) (s, sm) (s', sm')"
  unfolding sa_path_def by (rule exI [of _ "[SendKey sf key]"]) auto

section \<open>Paths of the 0x29 handler\<close>

definition auth_path ::
  "provider \<Rightarrow> bytes list \<Rightarrow> auth \<times> session_sm \<Rightarrow> auth \<times> session_sm \<Rightarrow> bool" where
  "auth_path P ns x y \<longleftrightarrow> (\<exists>ops. snd (run (auth_step P) ops x) = y \<and> accepted_nonces P ops x = ns)"

lemma accepted_nonces_append:
  "accepted_nonces P (ops @ ops') x
    = accepted_nonces P ops x @ accepted_nonces P ops' (snd (run (auth_step P) ops x))"
  by (induction ops arbitrary: x) (simp_all add: case_prod_unfold Let_def)

lemma auth_path_refl [simp, intro]: "auth_path P [] x x"
  unfolding auth_path_def by (rule exI [of _ "[]"]) simp

lemma auth_path_trans:
  assumes "auth_path P ns x y" "auth_path P ms y z"
  shows "auth_path P (ns @ ms) x z"
proof -
  obtain ops ops' where "snd (run (auth_step P) ops x) = y" "accepted_nonces P ops x = ns"
    "snd (run (auth_step P) ops' y) = z" "accepted_nonces P ops' y = ms"
    using assms unfolding auth_path_def by blast
  then show ?thesis unfolding auth_path_def
    by (intro exI [of _ "ops @ ops'"]) (simp add: accepted_nonces_append)
qed

lemma auth_path_quiet_left: "auth_path P [] x y \<Longrightarrow> auth_path P ns y z \<Longrightarrow> auth_path P ns x z"
  using auth_path_trans [of P "[]" x y ns z] by simp

lemma auth_path_quiet_right: "auth_path P ns x y \<Longrightarrow> auth_path P [] y z \<Longrightarrow> auth_path P ns x z"
  using auth_path_trans [of P ns x y "[]" z] by simp

lemma auth_path_session:
  assumes "session_reach sm sm'"
  shows "auth_path P [] (a, sm) (a, sm')"
proof -
  obtain ops where ops: "sm' = snd (run session_step ops sm)"
    using assms unfolding session_reach_def by blast
  have "snd (run (auth_step P) (map AuthSession ops) (a, sm)) = (a, snd (run session_step ops sm)) \<and>
      accepted_nonces P (map AuthSession ops) (a, sm) = []"
    by (induction ops arbitrary: sm) simp_all
  with ops show ?thesis unfolding auth_path_def by blast
qed

lemma auth_path_quiet_ops:
  "auth_path P [] (a, sm) (auth_clear_access a, sm)"
  "auth_path P [] (a, sm) (snd (deauthenticate a), sm)"
  "auth_path P [] (a, sm) (inject_pending_nonce_for_test n a, sm)"
  "auth_path P [] (a, sm) (revoke_thumbprint t a, sm)"
  unfolding auth_path_def
  subgoal by (rule exI [of _ "[AuthClear]"]) simp
  subgoal by (rule exI [of _ "[Deauthenticate]"]) simp
  subgoal by (rule exI [of _ "[InjectNonce n]"]) simp
  subgoal by (rule exI [of _ "[RevokeThumbprint t]"]) simp
  done

lemma auth_path_communicate:
  "communicate_certificate P pem sid a sm = (res, a', sm') \<Longrightarrow> auth_path P [] (a, sm) (a', sm')"
  unfolding auth_path_def by (rule exI [of _ "[Communicate pem sid]"]) simp

lemma auth_path_verify_proof:
  "verify_proof P proof sid a sm = (res, a', sm') \<Longrightarrow>
    auth_path P (case res of Inr (True, _, _) \<Rightarrow> [the (au_pending_challenge a)] | _ \<Rightarrow> []) (a, sm) (a', sm')"
  unfolding auth_path_def by (rule exI [of _ "[VerifyProof proof sid]"]) (simp split: sum.split prod.split bool.split)

section \<open>The calls of the ECU\<close>

text \<open>What a call reports about keys and proofs.\<close>

definition key_rejected :: "int \<Rightarrow> ecu_input \<Rightarrow> exn + dict \<Rightarrow> bool" where
  "key_rejected ss inp out \<longleftrightarrow>
     (\<exists>c key. inp = Call c (SecurityAccessSendKey ss key)) \<and> out = Inr (negative (Some 0x35))"

definition key_accepted :: "int \<Rightarrow> ecu_input \<Rightarrow> exn + dict \<Rightarrow> bool" where
  "key_accepted ss inp out \<longleftrightarrow>
     (\<exists>c key. inp = Call c (SecurityAccessSendKey ss key)) \<and>
     (\<exists>lv. out = Inr (positive [(''access_level'', opt_json JStr lv)]))"

definition proof_accepted :: "ecu_input \<Rightarrow> exn + dict \<Rightarrow> bool" where
  "proof_accepted inp out \<longleftrightarrow>
     (\<exists>c p. inp = Call c (AuthenticateVerifyProof p)) \<and>
     (\<exists>lv. out = Inr (positive [(''access_level'', opt_json JStr lv)]))"

lemma negative_inj [simp]: "negative a = negative b \<longleftrightarrow> a = b"
  by (auto simp: negative_def opt_json_def split: option.splits)

lemma positive_inj [simp]: "positive a = positive b \<longleftrightarrow> a = b"
  by (simp add: positive_def)

lemma negative_positive [simp]: "negative a \<noteq> positive kvs" "positive kvs \<noteq> negative a"
  by (auto simp: negative_def positive_def)

lemma opt_JStr_inj [simp]: "opt_json JStr a = opt_json JStr b \<longleftrightarrow> a = b"
  by (auto simp: opt_json_def split: option.splits)

lemma emit_event_simps [simp]:
  "e_policy (emit_event ev e) = e_policy e" "e_sa (emit_event ev e) = e_sa e"
  "e_auth (emit_event ev e) = e_auth e" "e_owner (emit_event ev e) = e_owner e"
  "e_mechanism (emit_event ev e) = e_mechanism e" "e_sm (emit_event ev e) = snd (utcnow (e_sm e))"
  "e_audit (emit_event ev e) = fst (emit ev (e_audit e) (e_sm e))"
  by (simp_all add: emit_event_def Let_def case_prod_unfold)

lemma ecu_current_eq [simp]:
  "fst (ecu_current e) = live_session (e_sm e)"
  "snd (ecu_current e) = e\<lparr>e_sm := check_timeout (e_sm e)\<rparr>"
  by (simp_all add: ecu_current_def Let_def current_def)

lemma ecu_current_pair: "ecu_current e = (live_session (e_sm e), e\<lparr>e_sm := check_timeout (e_sm e)\<rparr>)"
  by (simp add: prod_eq_iff)

lemma clear_access_levels_simps [simp]:
  "e_policy (clear_access_levels e) = e_policy e" "e_sm (clear_access_levels e) = e_sm e"
  "e_sa (clear_access_levels e) = clear_access (e_sa e)"
  "e_auth (clear_access_levels e) = auth_clear_access (e_auth e)"
  "e_owner (clear_access_levels e) = None" "e_mechanism (clear_access_levels e) = None"
  "e_audit (clear_access_levels e) = e_audit e"
  by (simp_all add: clear_access_levels_def)

text \<open>The calls that reach neither handler's own operations act on the session, and clear both or none.\<close>

definition calm :: "ecu \<Rightarrow> ecu \<Rightarrow> bool" where
  "calm e e' \<longleftrightarrow> session_reach (e_sm e) (e_sm e') \<and>
     (e_sa e' = e_sa e \<and> e_auth e' = e_auth e \<or>
      e_sa e' = clear_access (e_sa e) \<and> e_auth e' = auth_clear_access (e_auth e))"

lemma calm_session_control: "calm e (snd (rpc_session_control c t e))"
  by (auto simp: rpc_session_control_def calm_def ecu_current_pair Let_def case_prod_unfold
      intro: session_reach_steps)

lemma calm_others:
  "calm e (snd (rpc_get_session_state c e))" "calm e (snd (rpc_inject_tamper c e))"
  "calm e (snd (rpc_check_access lv e))"
  by (auto simp: rpc_get_session_state_def rpc_inject_tamper_def rpc_check_access_def calm_def
      ecu_current_pair Let_def case_prod_unfold intro: session_reach_steps)

lemma calm_sa_path: "calm e e' \<Longrightarrow> sa_path quiet quiet (e_sa e, e_sm e) (e_sa e', e_sm e')"
  by (auto simp: calm_def intro: sa_path_session sa_path_quiet_left [OF sa_path_session sa_path_clear])

lemma calm_auth_path: "calm e e' \<Longrightarrow> auth_path P [] (e_auth e, e_sm e) (e_auth e', e_sm e')"
  by (auto simp: calm_def
      intro: auth_path_session auth_path_quiet_left [OF auth_path_session auth_path_quiet_ops(1)])

lemma request_seed_paths:
  "sa_path quiet quiet (e_sa e, e_sm e)
     (e_sa (snd (rpc_request_seed c sf e)), e_sm (snd (rpc_request_seed c sf e)))"
  "session_reach (e_sm e) (e_sm (snd (rpc_request_seed c sf e)))"
  "e_auth (snd (rpc_request_seed c sf e)) = e_auth e"
proof -
  obtain res s' sm' where eq: "request_seed sf (e_sa e) (check_timeout (e_sm e)) = (res, s', sm')"
    by (cases "request_seed sf (e_sa e) (check_timeout (e_sm e))") auto
  have ct: "sa_path quiet quiet (e_sa e, e_sm e) (e_sa e, check_timeout (e_sm e))"
    by (intro sa_path_session session_reach_check_timeout)
  have path: "sa_path quiet quiet (e_sa e, e_sm e) (s', sm')"
    using sa_path_quiet_left [OF ct sa_path_request_seed [OF eq]] .
  have reach: "session_reach (e_sm e) sm'"
    using session_reach_trans [OF session_reach_check_timeout session_reach_request_seed, of "e_sm e" sf "e_sa e"] eq
    by simp
  show "sa_path quiet quiet (e_sa e, e_sm e)
     (e_sa (snd (rpc_request_seed c sf e)), e_sm (snd (rpc_request_seed c sf e)))"
    "session_reach (e_sm e) (e_sm (snd (rpc_request_seed c sf e)))"
    "e_auth (snd (rpc_request_seed c sf e)) = e_auth e"
    using eq path reach ct
    by (auto simp: rpc_request_seed_def ecu_current_pair Let_def case_prod_unfold)
qed

lemma verify_proof_paths:
  assumes eq: "rpc_verify_proof P c p e = (out, e')"
  shows "session_reach (e_sm e) (e_sm e')" "e_sa e' = e_sa e"
    "auth_path P (if proof_accepted (Call c (AuthenticateVerifyProof p)) out
       then [the (au_pending_challenge (e_auth e))] else []) (e_auth e, e_sm e) (e_auth e', e_sm e')"
proof -
  let ?sm = "check_timeout (e_sm e)"
  have ct: "auth_path P [] (e_auth e, e_sm e) (e_auth e, ?sm)"
    by (intro auth_path_session session_reach_check_timeout)
  have "session_reach (e_sm e) (e_sm e') \<and> e_sa e' = e_sa e \<and>
    auth_path P (if proof_accepted (Call c (AuthenticateVerifyProof p)) out
       then [the (au_pending_challenge (e_auth e))] else []) (e_auth e, e_sm e) (e_auth e', e_sm e')"
  proof (cases "(\<exists>nrc. out = Inr (negative nrc) \<and> e' = e\<lparr>e_sm := ?sm\<rparr>) \<or>
      (\<exists>ex. out = Inl ex \<and> e' = e\<lparr>e_sm := ?sm\<rparr>)")
    case True
    then show ?thesis using ct by (auto simp: proof_accepted_def)
  next
    case False
    then obtain bs where bs: "py_bytes p = Inr bs"
      using eq by (auto simp: rpc_verify_proof_def ecu_current_pair Let_def split: if_splits sum.splits)
    obtain res a' sm' where v: "verify_proof P bs (live_session (e_sm e)) (e_auth e) ?sm = (res, a', sm')"
      by (cases "verify_proof P bs (live_session (e_sm e)) (e_auth e) ?sm") auto
    have reach: "session_reach (e_sm e) sm'"
      using session_reach_trans [OF session_reach_check_timeout session_reach_verify_proof,
          of "e_sm e" P bs "live_session (e_sm e)" "e_auth e"] v by simp
    have path: "auth_path P (case res of Inr (True, _, _) \<Rightarrow> [the (au_pending_challenge (e_auth e))] | _ \<Rightarrow> [])
        (e_auth e, e_sm e) (a', sm')"
      using auth_path_quiet_left [OF ct auth_path_verify_proof [OF v]] .
    have ut: "auth_path P [] (a', sm') (a', snd (utcnow sm'))"
      by (intro auth_path_session session_reach_readings)
    show ?thesis
    proof (cases res)
      case (Inl ex)
      with eq v bs False reach path show ?thesis
        by (auto simp: rpc_verify_proof_def ecu_current_pair Let_def proof_accepted_def split: if_splits)
    next
      case (Inr r)
      then obtain ok lv nrc where r: "res = Inr (ok, lv, nrc)" by (cases r) auto
      have e': "e_sm e' = snd (utcnow sm')" "e_auth e' = a'" "e_sa e' = e_sa e"
        and out: "out = (if ok then Inr (positive [(''access_level'', opt_json JStr lv)]) else Inr (negative nrc))"
        using eq v bs False r
        by (auto simp: rpc_verify_proof_def ecu_current_pair Let_def split: if_splits)
      have "auth_path P (if ok then [the (au_pending_challenge (e_auth e))] else [])
          (e_auth e, e_sm e) (e_auth e', e_sm e')"
        using auth_path_quiet_right [OF path ut] r e' by (cases ok) auto
      moreover have "proof_accepted (Call c (AuthenticateVerifyProof p)) out = ok"
        using out by (auto simp: proof_accepted_def)
      ultimately show ?thesis using e' reach by (auto intro: session_reach_steps)
    qed
  qed
  then show "session_reach (e_sm e) (e_sm e')" "e_sa e' = e_sa e"
    "auth_path P (if proof_accepted (Call c (AuthenticateVerifyProof p)) out
       then [the (au_pending_challenge (e_auth e))] else []) (e_auth e, e_sm e) (e_auth e', e_sm e')" by blast+
qed

lemma communicate_paths:
  assumes eq: "rpc_communicate_certificate P c pem e = (out, e')"
  shows "session_reach (e_sm e) (e_sm e')" "e_sa e' = e_sa e"
    "auth_path P [] (e_auth e, e_sm e) (e_auth e', e_sm e')"
proof -
  let ?sm = "check_timeout (e_sm e)"
  obtain res a' sm' where v: "communicate_certificate P pem (live_session (e_sm e)) (e_auth e) ?sm = (res, a', sm')"
    by (cases "communicate_certificate P pem (live_session (e_sm e)) (e_auth e) ?sm") auto
  have "session_reach (e_sm e) sm'"
    using session_reach_trans [OF session_reach_check_timeout session_reach_communicate,
        of "e_sm e" P pem "live_session (e_sm e)" "e_auth e"] v by simp
  moreover have ct: "auth_path P [] (e_auth e, e_sm e) (e_auth e, ?sm)"
    by (intro auth_path_session session_reach_check_timeout)
  moreover have "auth_path P [] (e_auth e, e_sm e) (a', sm')"
    using auth_path_quiet_left [OF ct auth_path_communicate [OF v]] .
  ultimately show "session_reach (e_sm e) (e_sm e')" "e_sa e' = e_sa e"
    "auth_path P [] (e_auth e, e_sm e) (e_auth e', e_sm e')"
    using eq v by (auto simp: rpc_communicate_certificate_def ecu_current_pair Let_def
        split: if_splits sum.splits prod.splits)
qed

lemma send_key_paths:
  assumes eq: "rpc_send_key c sf key e = (out, e')"
  shows "session_reach (e_sm e) (e_sm e')" "e_auth e' = e_auth e"
    "sa_path (\<lambda>ss. if key_rejected ss (Call c (SecurityAccessSendKey sf key)) out then 1 else 0)
       (\<lambda>ss. if key_accepted ss (Call c (SecurityAccessSendKey sf key)) out then 1 else 0)
       (e_sa e, e_sm e) (e_sa e', e_sm e')"
proof -
  let ?sm = "check_timeout (e_sm e)"
  let ?f = "\<lambda>ss. if key_rejected ss (Call c (SecurityAccessSendKey sf key)) out then 1 else 0 :: nat"
  let ?g = "\<lambda>ss. if key_accepted ss (Call c (SecurityAccessSendKey sf key)) out then 1 else 0 :: nat"
  have ct: "sa_path quiet quiet (e_sa e, e_sm e) (e_sa e, ?sm)"
    by (intro sa_path_session session_reach_check_timeout)
  have "session_reach (e_sm e) (e_sm e') \<and> e_auth e' = e_auth e \<and>
    sa_path ?f ?g (e_sa e, e_sm e) (e_sa e', e_sm e')"
  proof (cases "(out = Inr (negative (Some 0x22)) \<and> e' = e\<lparr>e_sm := ?sm\<rparr>) \<or>
      (\<exists>ex. out = Inl ex \<and> e' = e\<lparr>e_sm := ?sm\<rparr>)")
    case True
    then have "?f = quiet" "?g = quiet" by (auto simp: key_rejected_def key_accepted_def)
    with True ct show ?thesis by auto
  next
    case False
    then obtain bs where bs: "py_bytes key = Inr bs"
      using eq by (auto simp: rpc_send_key_def ecu_current_pair Let_def split: if_splits sum.splits)
    obtain res s' sm' where k: "send_key sf bs (e_sa e) ?sm = (res, s', sm')"
      by (cases "send_key sf bs (e_sa e) ?sm") auto
    have reach: "session_reach (e_sm e) sm'"
      using session_reach_trans [OF session_reach_check_timeout session_reach_send_key, of "e_sm e" sf bs "e_sa e"] k
      by simp
    have path: "sa_path (\<lambda>ss. if ss = sf \<and> res = Inr (False, None, Some 0x35) then 1 else 0)
      (\<lambda>ss. if ss = sf \<and> (\<exists>lv. res = Inr (True, lv, None)) then 1 else 0) (e_sa e, e_sm e) (s', sm')"
      using sa_path_quiet_left [OF ct sa_path_send_key [OF k]] .
    have ut: "sa_path quiet quiet (s', sm') (s', snd (utcnow sm'))"
      by (intro sa_path_session session_reach_readings)
    note path' = sa_path_quiet_right [OF path ut]
    have shape: "(\<forall>lv nrc. res = Inr (True, lv, nrc) \<longrightarrow> nrc = None) \<and>
        (\<forall>lv nrc. res = Inr (False, lv, nrc) \<longrightarrow> lv = None)"
      using k
    proof (cases rule: send_key_elim)
      case (failed cfg seed r)
      then show ?thesis by (cases r) auto
    qed auto
    have fe: "e_auth e' = e_auth e" "e_sa e' = s'" "e_sm e' = sm' \<or> e_sm e' = snd (utcnow sm')"
      and out: "out = (case res of Inl ex \<Rightarrow> Inl ex
        | Inr (ok, lv, nrc) \<Rightarrow>
            if ok then Inr (positive [(''access_level'', opt_json JStr lv)]) else Inr (negative nrc))"
      using eq k bs False
      by (auto simp: rpc_send_key_def ecu_current_pair Let_def split: if_splits sum.splits prod.splits)
    have "?f = (\<lambda>ss. if ss = sf \<and> res = Inr (False, None, Some 0x35) then 1 else 0)"
      "?g = (\<lambda>ss. if ss = sf \<and> (\<exists>lv. res = Inr (True, lv, None)) then 1 else 0)"
      using out shape
      by (auto simp: fun_eq_iff key_rejected_def key_accepted_def split: sum.splits prod.splits if_splits)
    with fe reach path path' show ?thesis by (auto intro: session_reach_steps)
  qed
  then show "session_reach (e_sm e) (e_sm e')" "e_auth e' = e_auth e"
    "sa_path ?f ?g (e_sa e, e_sm e) (e_sa e', e_sm e')" by blast+
qed

section \<open>Steps and runs\<close>

lemma calm_refl [simp]: "calm e e"
  by (simp add: calm_def)

lemma key_events_other:
  "(\<And>c ss key. inp \<noteq> Call c (SecurityAccessSendKey ss key)) \<Longrightarrow> \<not> key_rejected ss inp out \<and> \<not> key_accepted ss inp out"
  by (auto simp: key_rejected_def key_accepted_def)

lemma proof_accepted_other:
  "(\<And>c p. inp \<noteq> Call c (AuthenticateVerifyProof p)) \<Longrightarrow> \<not> proof_accepted inp out"
  by (auto simp: proof_accepted_def)

lemma step_sa_path:
  assumes "ecu_step P inp e = (out, e')"
  shows "sa_path (\<lambda>ss. if key_rejected ss inp out then 1 else 0) (\<lambda>ss. if key_accepted ss inp out then 1 else 0)
    (e_sa e, e_sm e) (e_sa e', e_sm e')"
proof (cases "\<exists>c sf key. inp = Call c (SecurityAccessSendKey sf key)")
  case True
  then show ?thesis using assms send_key_paths(3) by fastforce
next
  case False
  have "sa_path quiet quiet (e_sa e, e_sm e) (e_sa e', e_sm e')"
  proof (cases inp)
    case (StoreRevoke t)
    with assms show ?thesis by auto
  next
    case (OtherReadings k n m)
    with assms sa_path_session [OF session_reach_elsewhere] show ?thesis by (auto simp: other_readings_def)
  next
    case (Call c req)
    show ?thesis
    proof (cases req)
      case (AuthenticateCommunicateCertificate pem)
      with Call assms communicate_paths(1,2) show ?thesis by (metis ecu_step.simps(1) handle.simps(8) sa_path_session)
    next
      case (AuthenticateVerifyProof p)
      with Call assms verify_proof_paths(1,2) show ?thesis by (metis ecu_step.simps(1) handle.simps(11) sa_path_session)
    next
      case (SecurityAccessRequestSeed sf)
      with Call assms request_seed_paths(1) [of e c sf] show ?thesis by simp
    next
      case (SendUdsPdu sid payload)
      with Call assms request_seed_paths(1) [of e c "payload ! 0"]
        calm_sa_path [OF calm_session_control [of e c "payload ! 0"]]
      show ?thesis by (auto simp: rpc_send_uds_pdu_def split: if_splits)
    next
      case (DiagnosticSessionControl t)
      with Call assms calm_sa_path [OF calm_session_control [of e c t]] show ?thesis by simp
    next
      case AuthenticateDeauthenticate
      with Call assms sa_path_session [OF session_reach_check_timeout [of "e_sm e"], of "e_sa e"] show ?thesis
        by (auto simp: rpc_deauthenticate_def deauthenticate_def ecu_current_pair Let_def split: if_splits)
    next
      case (InjectReplayNonce n)
      with Call assms show ?thesis by (auto simp: rpc_inject_replay_nonce_def split: sum.splits)
    next
      case GetSessionState
      with Call assms calm_sa_path [OF calm_others(1) [of e c]] show ?thesis by simp
    next
      case InjectTamper
      with Call assms calm_sa_path [OF calm_others(2) [of e c]] show ?thesis by simp
    next
      case (CheckAccess lv)
      with Call assms calm_sa_path [OF calm_others(3) [of e lv]] show ?thesis by simp
    qed (use Call assms False in \<open>auto simp: rpc_get_access_level_def rpc_get_attempt_counter_def
        rpc_get_auth_access_level_def rpc_get_audit_log_def\<close>)
  qed
  with False key_events_other [of inp] show ?thesis by simp
qed

lemma step_auth_path:
  assumes "ecu_step P inp e = (out, e')"
  shows "auth_path P (if proof_accepted inp out then [the (au_pending_challenge (e_auth e))] else [])
    (e_auth e, e_sm e) (e_auth e', e_sm e')"
proof (cases "\<exists>c p. inp = Call c (AuthenticateVerifyProof p)")
  case True
  then show ?thesis using assms verify_proof_paths(3) by fastforce
next
  case False
  have quiet: "auth_path P [] (e_auth e, e_sm e) (e_auth e, sm)" if "session_reach (e_sm e) sm" for sm
    using that by (rule auth_path_session)
  have "auth_path P [] (e_auth e, e_sm e) (e_auth e', e_sm e')"
  proof (cases inp)
    case (StoreRevoke t)
    with assms auth_path_quiet_ops(4) show ?thesis by auto
  next
    case (OtherReadings k n m)
    with assms quiet [OF session_reach_elsewhere] show ?thesis by (auto simp: other_readings_def)
  next
    case (Call c req)
    show ?thesis
    proof (cases req)
      case (AuthenticateCommunicateCertificate pem)
      with Call assms communicate_paths(3) show ?thesis by (metis ecu_step.simps(1) handle.simps(8))
    next
      case (SecurityAccessSendKey sf key)
      with Call assms send_key_paths(1,2) show ?thesis by (metis ecu_step.simps(1) handle.simps(5) quiet)
    next
      case (SecurityAccessRequestSeed sf)
      with Call assms quiet [OF request_seed_paths(2) [of e c sf]] request_seed_paths(3) [of c sf e]
      show ?thesis by simp
    next
      case (SendUdsPdu sid payload)
      with Call assms quiet [OF request_seed_paths(2) [of e c "payload ! 0"]]
        request_seed_paths(3) [of c "payload ! 0" e]
        calm_auth_path [OF calm_session_control [of e c "payload ! 0"]]
      show ?thesis by (auto simp: rpc_send_uds_pdu_def split: if_splits)
    next
      case (DiagnosticSessionControl t)
      with Call assms calm_auth_path [OF calm_session_control [of e c t]] show ?thesis by simp
    next
      case AuthenticateDeauthenticate
      have "auth_path P [] (e_auth e, e_sm e) (snd (deauthenticate (e_auth e)), check_timeout (e_sm e))"
        by (rule auth_path_quiet_left [OF quiet auth_path_quiet_ops(2)]) simp
      with AuthenticateDeauthenticate Call assms quiet [OF session_reach_check_timeout] show ?thesis
        by (auto simp: rpc_deauthenticate_def case_prod_unfold ecu_current_pair Let_def split: if_splits)
    next
      case (InjectReplayNonce n)
      with Call assms auth_path_quiet_ops(3) show ?thesis
        by (auto simp: rpc_inject_replay_nonce_def split: sum.splits)
    next
      case GetSessionState
      with Call assms calm_auth_path [OF calm_others(1) [of e c]] show ?thesis by simp
    next
      case InjectTamper
      with Call assms calm_auth_path [OF calm_others(2) [of e c]] show ?thesis by simp
    next
      case (CheckAccess lv)
      with Call assms calm_auth_path [OF calm_others(3) [of e lv]] show ?thesis by simp
    qed (use Call assms False in \<open>auto simp: rpc_get_access_level_def rpc_get_attempt_counter_def
        rpc_get_auth_access_level_def rpc_get_audit_log_def\<close>)
  qed
  with False proof_accepted_other [of inp] show ?thesis by simp
qed

definition keys_rejected :: "int \<Rightarrow> ecu_input list \<Rightarrow> (exn + dict) list \<Rightarrow> nat" where
  "keys_rejected ss inps outs = length (filter (\<lambda>(inp, out). key_rejected ss inp out) (zip inps outs))"

definition keys_accepted :: "int \<Rightarrow> ecu_input list \<Rightarrow> (exn + dict) list \<Rightarrow> nat" where
  "keys_accepted ss inps outs = length (filter (\<lambda>(inp, out). key_accepted ss inp out) (zip inps outs))"

text \<open>The challenges whose proofs the ECU accepts in a run.\<close>

fun proof_nonces :: "provider \<Rightarrow> ecu_input list \<Rightarrow> ecu \<Rightarrow> bytes list" where
  "proof_nonces P [] e = []"
| "proof_nonces P (inp # inps) e =
     (let (out, e') = ecu_step P inp e in
      (if proof_accepted inp out then [the (au_pending_challenge (e_auth e))] else [])
      @ proof_nonces P inps e')"

theorem run_sa_path:
  "sa_path (\<lambda>ss. keys_rejected ss inps (fst (run (ecu_step P) inps e)))
     (\<lambda>ss. keys_accepted ss inps (fst (run (ecu_step P) inps e)))
     (e_sa e, e_sm e)
     (e_sa (snd (run (ecu_step P) inps e)), e_sm (snd (run (ecu_step P) inps e)))"
proof (induction inps arbitrary: e)
  case Nil
  then show ?case by (simp add: keys_rejected_def keys_accepted_def)
next
  case (Cons inp inps)
  obtain out e' where step: "ecu_step P inp e = (out, e')" by fastforce
  note sa_path_trans [OF step_sa_path [OF step] Cons.IH [of e']]
  moreover have "(\<lambda>ss. (if key_rejected ss inp out then 1 else 0) + keys_rejected ss inps (fst (run (ecu_step P) inps e')))
      = (\<lambda>ss. keys_rejected ss (inp # inps) (fst (run (ecu_step P) (inp # inps) e)))"
    "(\<lambda>ss. (if key_accepted ss inp out then 1 else 0) + keys_accepted ss inps (fst (run (ecu_step P) inps e')))
      = (\<lambda>ss. keys_accepted ss (inp # inps) (fst (run (ecu_step P) (inp # inps) e)))"
    by (simp_all add: fun_eq_iff keys_rejected_def keys_accepted_def step)
  ultimately show ?case by (simp add: step)
qed

theorem run_auth_path:
  "auth_path P (proof_nonces P inps e) (e_auth e, e_sm e)
     (e_auth (snd (run (ecu_step P) inps e)), e_sm (snd (run (ecu_step P) inps e)))"
proof (induction inps arbitrary: e)
  case (Cons inp inps)
  obtain out e' where step: "ecu_step P inp e = (out, e')" by fastforce
  note auth_path_trans [OF step_auth_path [OF step] Cons.IH [of e']]
  then show ?case by (simp add: step)
qed simp

end
