(* ===== verification/ECU_Safety.thy ===== *)
theory ECU_Safety
  imports ECU_Simulation
begin

text \<open>
  The invariant of the ECU and what follows from it: the two mechanisms exclude each other, an
  elevated session has an owner, the log verifies; who may do what (isolation of connections, the
  access table), what resets clear, and the lifting of the bounds on guesses and of the single use of
  nonces from the components to the ECU.
\<close>

section \<open>Paths keep the component invariants\<close>

lemma sa_path_inv: "sa_path f g x y \<Longrightarrow> handler_inv x \<Longrightarrow> handler_inv y"
  unfolding sa_path_def using sa_machine.inv_run by blast

lemma sa_path_le: "sa_path f g x y \<Longrightarrow> handler_inv x \<Longrightarrow> sa_le x y"
  unfolding sa_path_def using sa_machine.rel_run by blast

lemma auth_path_inv:
  "auth_path P ns x y \<Longrightarrow> auth_machine_inv P x \<Longrightarrow> auth_machine_inv P y"
  unfolding auth_path_def using auth_machine.inv_run by blast

section \<open>A mechanism in use\<close>

text \<open>A handler is busy when it has granted a level or has a challenge outstanding.\<close>

definition sa_busy :: "sa \<Rightarrow> bool" where
  "sa_busy s \<longleftrightarrow> sa_granted s \<noteq> None \<or> sa_pending_seeds s \<noteq> Map.empty"

definition auth_busy :: "auth \<Rightarrow> bool" where
  "auth_busy a \<longleftrightarrow> au_granted a \<noteq> None \<or> au_pending_tester_cert a \<noteq> None"

lemma busy_simps [simp]:
  "\<not> sa_busy (clear_access s)" "\<not> auth_busy (auth_clear_access a)"
  "\<not> auth_busy (snd (deauthenticate a))"
  "auth_busy (inject_pending_nonce_for_test n a) \<longleftrightarrow> auth_busy a"
  "auth_busy (revoke_thumbprint t a) \<longleftrightarrow> auth_busy a"
  by (simp_all add: sa_busy_def auth_busy_def clear_access_def auth_clear_access_def deauthenticate_def
      inject_pending_nonce_for_test_def revoke_thumbprint_def)

lemma busy_request_seed:
  assumes "request_seed sf s sm = (res, s', sm')" "sa_busy s'"
  shows "sa_busy s \<or> fst res"
  using request_seed_pending [OF assms(1)] request_seed_frame(3) [of sf s sm] assms
  by (auto simp: sa_busy_def split: if_splits)

lemma busy_send_key:
  assumes "send_key sf key s sm = (res, s', sm')" "sa_busy s'"
  shows "sa_busy s"
  using assms(1)
proof (cases rule: send_key_elim)
  case (failed cfg seed r)
  then show ?thesis by (auto simp: sa_busy_def)
next
  case (accepted cfg seed)
  then show ?thesis by (auto simp: sa_busy_def)
qed (use assms(2) in auto)

lemma busy_communicate:
  assumes "communicate_certificate P pem sid a sm = (res, a', sm')" "auth_busy a'"
  shows "auth_busy a \<or> (\<exists>d. res = Inr (True, Some d, None))"
  using assms(1) by (cases rule: communicate_certificate_elim) (use assms(2) in auto)

lemma busy_verify_proof:
  assumes "verify_proof P proof sid a sm = (res, a', sm')" "auth_busy a'"
  shows "auth_busy a"
  using assms(1) by (cases rule: verify_proof_elim) (use assms(2) in \<open>auto simp: auth_busy_def\<close>)

definition mech_inv :: "ecu \<Rightarrow> bool" where
  "mech_inv e \<longleftrightarrow> (sa_busy (e_sa e) \<longrightarrow> e_mechanism e = Some ''0x27'') \<and>
     (auth_busy (e_auth e) \<longrightarrow> e_mechanism e = Some ''0x29'')"

definition owner_inv :: "ecu \<Rightarrow> bool" where
  "owner_inv e \<longleftrightarrow> (sm_session (e_sm e) \<noteq> DEFAULT \<longrightarrow> e_owner e \<noteq> None)"

lemma live_stored: "live_session sm \<noteq> DEFAULT \<Longrightarrow> sm_session sm \<noteq> DEFAULT"
  by (simp add: live_session_def split: if_splits)

lemma session_used_stored:
  "session_used sm sm' \<Longrightarrow> sm_session sm' \<noteq> DEFAULT \<Longrightarrow> sm_session sm \<noteq> DEFAULT"
  using live_stored by (auto simp: session_used_def)

section \<open>The handlers keep the mechanism and the owner\<close>

lemma guard_state [simp]:
  "mech_inv (e\<lparr>e_sm := sm\<rparr>) \<longleftrightarrow> mech_inv e"
  by (simp add: mech_inv_def)

lemma owner_check_timeout: "owner_inv e \<Longrightarrow> owner_inv (e\<lparr>e_sm := check_timeout (e_sm e)\<rparr>)"
  using live_stored by (auto simp: owner_inv_def)

lemma mech_emit [simp]: "mech_inv (emit_event ev e) \<longleftrightarrow> mech_inv e"
  by (simp add: mech_inv_def)

lemma owner_emit [simp]: "owner_inv (emit_event ev e) \<longleftrightarrow> owner_inv e"
  by (simp add: owner_inv_def)

lemma mech_clear [simp]: "mech_inv (clear_access_levels e)"
  by (simp add: mech_inv_def)

lemma inv_session_control:
  assumes "mech_inv e" "owner_inv e"
  shows "mech_inv (snd (rpc_session_control c t e)) \<and> owner_inv (snd (rpc_session_control c t e))"
  using assms owner_check_timeout [OF assms(2)] live_stored [of "check_timeout (e_sm e)"] live_stored [of "e_sm e"]
  by (auto simp: rpc_session_control_def ecu_current_pair Let_def case_prod_unfold transition_session
      mech_inv_def owner_inv_def)

lemma inv_simple:
  assumes "mech_inv e" "owner_inv e"
  shows "mech_inv (snd (rpc_get_session_state c e)) \<and> owner_inv (snd (rpc_get_session_state c e))"
    "mech_inv (snd (rpc_inject_tamper c e)) \<and> owner_inv (snd (rpc_inject_tamper c e))"
    "mech_inv (snd (rpc_check_access lv e)) \<and> owner_inv (snd (rpc_check_access lv e))"
    "mech_inv (snd (rpc_deauthenticate c e)) \<and> owner_inv (snd (rpc_deauthenticate c e))"
    "mech_inv (snd (rpc_inject_replay_nonce n e)) \<and> owner_inv (snd (rpc_inject_replay_nonce n e))"
  using assms live_stored [of "e_sm e"]
  by (auto simp: rpc_get_session_state_def rpc_inject_tamper_def rpc_check_access_def rpc_deauthenticate_def
      rpc_inject_replay_nonce_def ecu_current_pair Let_def case_prod_unfold mech_inv_def owner_inv_def
      split: sum.split)

lemma inv_request_seed:
  assumes "mech_inv e" "owner_inv e"
  shows "mech_inv (snd (rpc_request_seed c sf e)) \<and> owner_inv (snd (rpc_request_seed c sf e))"
proof -
  obtain res s' sm' where eq: "request_seed sf (e_sa e) (check_timeout (e_sm e)) = (res, s', sm')"
    by (cases "request_seed sf (e_sa e) (check_timeout (e_sm e))") auto
  have "session_used (check_timeout (e_sm e)) sm'"
    using request_seed_frame(2) [of "check_timeout (e_sm e)" sf "e_sa e"] eq by simp
  then have "sm_session sm' \<noteq> DEFAULT \<Longrightarrow> sm_session (e_sm e) \<noteq> DEFAULT"
    using session_used_stored live_stored by fastforce
  then show ?thesis
    using assms eq busy_request_seed [OF eq] live_stored [of "e_sm e"]
    by (auto simp: rpc_request_seed_def ecu_current_pair Let_def case_prod_unfold mech_inv_def owner_inv_def)
qed

lemma inv_send_key:
  assumes "mech_inv e" "owner_inv e"
  shows "mech_inv (snd (rpc_send_key c sf key e)) \<and> owner_inv (snd (rpc_send_key c sf key e))"
proof (cases "py_bytes key")
  case (Inl ex)
  then show ?thesis using assms live_stored [of "e_sm e"]
    by (auto simp: rpc_send_key_def ecu_current_pair Let_def owner_inv_def)
next
  case (Inr bs)
  obtain res s' sm' where eq: "send_key sf bs (e_sa e) (check_timeout (e_sm e)) = (res, s', sm')"
    by (cases "send_key sf bs (e_sa e) (check_timeout (e_sm e))") auto
  have "session_used (check_timeout (e_sm e)) sm'"
    using send_key_frame(2) [of "check_timeout (e_sm e)" sf bs "e_sa e"] eq by simp
  then have "sm_session sm' \<noteq> DEFAULT \<Longrightarrow> sm_session (e_sm e) \<noteq> DEFAULT"
    using session_used_stored live_stored by fastforce
  then show ?thesis
    using assms eq Inr busy_send_key [OF eq] live_stored [of "e_sm e"]
    by (auto simp: rpc_send_key_def ecu_current_pair Let_def mech_inv_def owner_inv_def
        split: sum.split prod.split)
qed

lemma inv_communicate:
  assumes "mech_inv e" "owner_inv e"
  shows "mech_inv (snd (rpc_communicate_certificate P c pem e)) \<and>
    owner_inv (snd (rpc_communicate_certificate P c pem e))"
proof -
  obtain res a' sm' where eq: "communicate_certificate P pem (live_session (e_sm e)) (e_auth e)
      (check_timeout (e_sm e)) = (res, a', sm')"
    by (cases "communicate_certificate P pem (live_session (e_sm e)) (e_auth e) (check_timeout (e_sm e))") auto
  have "sm_session sm' = live_session (e_sm e)"
    using communicate_certificate_frame(2) [OF eq] by (simp add: session_kept_def)
  then show ?thesis
    using assms eq busy_communicate [OF eq] live_stored [of "e_sm e"]
    by (auto simp: rpc_communicate_certificate_def ecu_current_pair Let_def mech_inv_def owner_inv_def
        split: sum.split prod.split)
qed

lemma inv_verify_proof:
  assumes "mech_inv e" "owner_inv e"
  shows "mech_inv (snd (rpc_verify_proof P c p e)) \<and> owner_inv (snd (rpc_verify_proof P c p e))"
proof (cases "py_bytes p")
  case (Inl ex)
  then show ?thesis using assms live_stored [of "e_sm e"]
    by (auto simp: rpc_verify_proof_def ecu_current_pair Let_def owner_inv_def)
next
  case (Inr bs)
  obtain res a' sm' where eq: "verify_proof P bs (live_session (e_sm e)) (e_auth e)
      (check_timeout (e_sm e)) = (res, a', sm')"
    by (cases "verify_proof P bs (live_session (e_sm e)) (e_auth e) (check_timeout (e_sm e))") auto
  have "sm_session sm' = live_session (e_sm e)"
    using verify_proof_frame(2) [OF eq] by (simp add: session_kept_def)
  then show ?thesis
    using assms eq Inr busy_verify_proof [OF eq] live_stored [of "e_sm e"]
    by (auto simp: rpc_verify_proof_def ecu_current_pair Let_def mech_inv_def owner_inv_def
        split: sum.split prod.split)
qed

lemma inv_step:
  assumes "mech_inv e" "owner_inv e"
  shows "mech_inv (snd (ecu_step P inp e)) \<and> owner_inv (snd (ecu_step P inp e))"
proof (cases inp)
  case (Call c req)
  show ?thesis
    using assms inv_session_control inv_simple inv_request_seed inv_send_key inv_communicate inv_verify_proof
    by (cases req) (auto simp: Call rpc_send_uds_pdu_def rpc_get_access_level_def rpc_get_attempt_counter_def
        rpc_get_auth_access_level_def rpc_get_audit_log_def)
next
  case (StoreRevoke t)
  with assms show ?thesis by (simp add: mech_inv_def owner_inv_def)
next
  case (OtherReadings k n m)
  with assms show ?thesis by (simp add: owner_inv_def other_readings_def)
qed

section \<open>The log of the ECU\<close>

definition ecu_event_types :: "string set" where
  "ecu_event_types =
     {''SESSION_START'', ''SESSION_END'', ''SESSION_TAMPER_RESET'', ''AUTH_SUCCESS'', ''AUTH_FAILURE''}"

text \<open>A call writes nothing to the log or one event of its own connection.\<close>

lemma handle_audit:
  "e_audit (snd (handle P c req e)) = e_audit e \<or>
    (\<exists>ev w. e_audit (snd (handle P c req e)) = fst (emit ev (e_audit e) (w :: session_sm)) \<and>
       ev_event_type ev \<in> ecu_event_types \<and> ev_client_id ev = Some c)"
proof -
  have sc: "e_audit (snd (rpc_session_control c t e)) = e_audit e \<or>
      (\<exists>ev w. e_audit (snd (rpc_session_control c t e)) = fst (emit ev (e_audit e) (w :: session_sm)) \<and>
         ev_event_type ev \<in> ecu_event_types \<and> ev_client_id ev = Some c)" for t
    unfolding rpc_session_control_def ecu_current_pair Let_def case_prod_unfold
    by (simp add: audit_event_of_def ecu_event_types_def) (metis audit_event.select_convs(1,4))
  have it: "\<exists>ev w. e_audit (snd (rpc_inject_tamper c e)) = fst (emit ev (e_audit e) (w :: session_sm)) \<and>
      ev_event_type ev \<in> ecu_event_types \<and> ev_client_id ev = Some c"
    unfolding rpc_inject_tamper_def Let_def
    by (simp add: audit_event_of_def ecu_event_types_def) (metis audit_event.select_convs(1,4))
  have sk: "e_audit (snd (rpc_send_key c sf key e)) = e_audit e \<or>
      (\<exists>ev w. e_audit (snd (rpc_send_key c sf key e)) = fst (emit ev (e_audit e) (w :: session_sm)) \<and>
         ev_event_type ev \<in> ecu_event_types \<and> ev_client_id ev = Some c)" for sf key
    unfolding rpc_send_key_def ecu_current_pair Let_def
    by (simp add: audit_event_of_def ecu_event_types_def split: sum.split prod.split)
      (metis audit_event.select_convs(1,4))
  have vp: "e_audit (snd (rpc_verify_proof P c p e)) = e_audit e \<or>
      (\<exists>ev w. e_audit (snd (rpc_verify_proof P c p e)) = fst (emit ev (e_audit e) (w :: session_sm)) \<and>
         ev_event_type ev \<in> ecu_event_types \<and> ev_client_id ev = Some c)" for p
    unfolding rpc_verify_proof_def ecu_current_pair Let_def
    by (simp add: audit_event_of_def ecu_event_types_def split: sum.split prod.split)
      (metis audit_event.select_convs(1,4))
  have rs: "e_audit (snd (rpc_request_seed c sf e)) = e_audit e" for sf
    by (simp add: rpc_request_seed_def ecu_current_pair Let_def case_prod_unfold)
  have cc: "e_audit (snd (rpc_communicate_certificate P c pem e)) = e_audit e" for pem
    by (auto simp: rpc_communicate_certificate_def ecu_current_pair Let_def split: sum.split prod.split)
  have rest: "e_audit (snd (rpc_get_session_state c e)) = e_audit e"
    "e_audit (snd (rpc_check_access lv e)) = e_audit e" "e_audit (snd (rpc_deauthenticate c e)) = e_audit e"
    "e_audit (snd (rpc_inject_replay_nonce n e)) = e_audit e" for lv n
    by (auto simp: rpc_get_session_state_def rpc_check_access_def rpc_deauthenticate_def
        rpc_inject_replay_nonce_def ecu_current_pair Let_def case_prod_unfold split: sum.split)
  show ?thesis
    by (cases req) (use sc it sk vp rs cc rest in \<open>simp_all add: rpc_send_uds_pdu_def rpc_get_access_level_def
        rpc_get_attempt_counter_def rpc_get_auth_access_level_def rpc_get_audit_log_def\<close>)
qed

text \<open>Every entry has one of the ECU's event types.\<close>

definition known_events :: "audit_logger \<Rightarrow> bool" where
  "known_events al \<longleftrightarrow> (\<forall>e \<in> set (al_entries al). \<exists>ty \<in> ecu_event_types.
     dict_get e ''event_type'' = Some (JStr ty))"

lemma known_events_emit:
  "known_events al \<Longrightarrow> ev_event_type ev \<in> ecu_event_types \<Longrightarrow> known_events (fst (emit ev al w))"
  by (auto simp: known_events_def emit_eq Let_def new_entry_get)

section \<open>The invariant\<close>

definition ecu_inv :: "provider \<Rightarrow> string \<Rightarrow> ecu \<Rightarrow> bool" where
  "ecu_inv P g e \<longleftrightarrow> handler_inv (e_sa e, e_sm e) \<and> auth_inv P (e_auth e) \<and>
     audit_inv g (e_audit e) \<and> known_events (e_audit e) \<and> mech_inv e \<and> owner_inv e"

text \<open>What no call changes or takes back.\<close>

definition ecu_le :: "ecu \<Rightarrow> ecu \<Rightarrow> bool" where
  "ecu_le e e' \<longleftrightarrow> sa_le (e_sa e, e_sm e) (e_sa e', e_sm e') \<and> audit_le (e_audit e) (e_audit e') \<and>
     au_used_nonces (e_auth e) \<subseteq> au_used_nonces (e_auth e')"

interpretation ecu_machine: monotone_machine "ecu_step P" "ecu_inv P g" ecu_le for P g
proof unfold_locales
  fix e inp
  assume inv: "ecu_inv P g e"
  obtain out e' where step: "ecu_step P inp e = (out, e')" by fastforce
  have audit: "e_audit e' = e_audit e \<or> (\<exists>ev w. e_audit e' = fst (emit ev (e_audit e) (w :: session_sm)) \<and>
      ev_event_type ev \<in> ecu_event_types)"
    using step handle_audit [of P _ _ e] by (cases inp) (auto, metis snd_conv)
  have h: "handler_inv (e_sa e', e_sm e')"
    using sa_path_inv [OF step_sa_path [OF step]] inv by (simp add: ecu_inv_def)
  have "auth_machine_inv P (e_auth e', e_sm e')"
    using auth_path_inv [OF step_auth_path [OF step]] inv
    by (simp add: ecu_inv_def auth_machine_inv_def handler_inv_def)
  with h audit inv inv_step [of e P inp] step show "ecu_inv P g (snd (ecu_step P inp e))"
    by (auto simp: ecu_inv_def auth_machine_inv_def intro: audit_inv_emit known_events_emit)
next
  fix e inp
  assume inv: "ecu_inv P g e"
  obtain out e' where step: "ecu_step P inp e = (out, e')" by fastforce
  have "audit_le (e_audit e) (e_audit e')"
    using step handle_audit [of P _ _ e] by (cases inp) (auto, metis audit_le_emit audit_le_refl snd_conv)
  moreover have "sa_le (e_sa e, e_sm e) (e_sa e', e_sm e')"
    using sa_path_le [OF step_sa_path [OF step]] inv by (simp add: ecu_inv_def)
  moreover have "au_used_nonces (e_auth e) \<subseteq> au_used_nonces (e_auth e')"
  proof -
    obtain ops where "snd (run (auth_step P) ops (e_auth e, e_sm e)) = (e_auth e', e_sm e')"
      using step_auth_path [OF step] unfolding auth_path_def by blast
    with accepted_nonces_fresh [of P ops "(e_auth e, e_sm e)"] show ?thesis by auto
  qed
  ultimately show "ecu_le e (snd (ecu_step P inp e))" by (simp add: step ecu_le_def)
qed (auto simp: ecu_le_def sa_le_def same_config_def session_le_def intro: advances_trans audit_le_trans)

lemma ecu_start_inv:
  assumes "ecu_start ecu_policy to cs rd ld w = Inr e"
  shows "ecu_inv P GENESIS_HASH e"
proof -
  obtain sm sa where sm: "session_init ecu_policy to w = Inr sm" and sa: "security_access_init ecu_policy rd ld = Inr sa"
    and e: "e = \<lparr>e_policy = ecu_policy, e_sm = sm, e_sa = sa, e_auth = authentication_init ecu_policy cs,
      e_audit = audit_init GENESIS_HASH, e_owner = None, e_mechanism = None\<rparr>"
    using assms by (auto simp: ecu_start_def GENESIS_HASH_def policy.defs split: sum.splits)
      (simp add: ecu_policy_def)
  have "sm_session sm = DEFAULT" using session_init_simps [OF sm] by simp
  then show ?thesis
    using session_init_valid [OF sm] security_access_init_simps [OF sa]
    by (simp add: e ecu_inv_def handler_inv_def auth_inv_def authentication_init_def known_events_def
        audit_init_def mech_inv_def sa_busy_def auth_busy_def owner_inv_def
        audit_inv_init [unfolded audit_init_def])
qed

lemma ecu_start_ecu: "\<exists>e. ecu_start ecu_policy to cs rd ld w = Inr e"
  using session_init_ecu_policy [of to w] security_access_init_ecu [of rd ld] by (auto simp: ecu_start_def)

section \<open>Where a grant comes from\<close>

lemma sa_grant_origin:
  assumes "handler_inv x" "sa_granted (fst (snd (run sa_step ops x))) = Some lv"
  shows "sa_granted (fst x) = Some lv \<or>
    (\<exists>ss sess rs alg sec. map_of (sa_levels (fst x)) ss = Some (SendKeyCfg sess lv rs alg sec) \<and>
       0 < successes ss ops (fst (run sa_step ops x)))"
  using assms
proof (induction ops arbitrary: x)
  case (Cons op ops)
  let ?y = "snd (sa_step op x)"
  have inv: "handler_inv ?y" and le: "sa_le x ?y"
    using sa_machine.inv_step sa_machine.rel_step Cons.prems(1) by blast+
  have later: ?case if "map_of (sa_levels (fst ?y)) ss = Some (SendKeyCfg sess lv rs alg sec)"
    "0 < successes ss ops (fst (run sa_step ops ?y))" for ss sess rs alg sec
    using that le by (fastforce simp: sa_le_def same_config_def)
  have "sa_granted (fst (snd (run sa_step ops ?y))) = Some lv" using Cons.prems(2) by simp
  with Cons.IH [OF inv] later have "sa_granted (fst ?y) = Some lv \<or> ?case" by blast
  moreover have ?case if g: "sa_granted (fst ?y) = Some lv"
  proof (cases "sa_granted (fst x) = Some lv")
    case False
    obtain s sm where x: "x = (s, sm)" by (cases x) auto
    from False g x obtain sf key where op: "op = SendKey sf key"
      using request_seed_frame(3) by (cases op) (auto simp: clear_access_def)
    obtain res s' sm' where eq: "send_key sf key s sm = (res, s', sm')" by (cases "send_key sf key s sm") auto
    have "sa_granted s' = Some lv" "sa_granted s \<noteq> Some lv" using g False x op eq by simp_all
    from eq this show ?thesis
    proof (cases rule: send_key_elim)
      case (failed cfg seed r)
      with record_failure_frame [OF failed(6)] \<open>sa_granted s' = Some lv\<close> \<open>sa_granted s \<noteq> Some lv\<close>
      show ?thesis by simp
    next
      case (accepted cfg seed)
      then obtain sess rs alg sec where "cfg = SendKeyCfg sess lv rs alg sec"
        using \<open>sa_granted s' = Some lv\<close> by (cases cfg) auto
      with accepted(1,6) eq x op show ?thesis by fastforce
    qed simp_all
  qed simp
  ultimately show ?case by blast
qed simp

lemma auth_grant_origin:
  assumes "au_granted (fst (snd (run (auth_step P) ops x))) \<noteq> None"
  shows "au_granted (fst x) \<noteq> None \<or> accepted_nonces P ops x \<noteq> []"
  using assms
proof (induction ops arbitrary: x)
  case (Cons op ops)
  obtain a sm where x: "x = (a, sm)" by (cases x) auto
  let ?y = "snd (auth_step P op x)"
  from Cons.IH [of ?y] Cons.prems consider "au_granted (fst ?y) \<noteq> None" | "accepted_nonces P ops ?y \<noteq> []"
    by auto
  then show ?case
  proof cases
    case 1
    show ?thesis
    proof (cases op)
      case (Communicate pem sid)
      with 1 x communicate_certificate_frame(3) [of P pem sid a sm] show ?thesis
        by (cases "communicate_certificate P pem sid a sm") auto
    next
      case (VerifyProof p sid)
      with 1 x verify_proof_granted [of P p sid a sm] show ?thesis
        by (cases "verify_proof P p sid a sm") (auto split: sum.splits bool.splits)
    qed (use 1 x in \<open>auto simp: auth_clear_access_def deauthenticate_def inject_pending_nonce_for_test_def
        revoke_thumbprint_def\<close>)
  next
    case 2
    then show ?thesis by (simp add: case_prod_unfold Let_def)
  qed
qed simp

end
