(* ===== verification/ECU_Runs.thy ===== *)
theory ECU_Runs
  imports ECU_Safety
begin

text \<open>
  The states the ECU reaches from its start, and concrete worlds, states and runs of it on which
  theorems about the ECU are tried: a clock that jumps, a run that unlocks CALIBRATION, an
  ECU with an elevated session.
\<close>

section \<open>The ECU from its start\<close>

definition reachable :: "provider \<Rightarrow> ecu \<Rightarrow> bool" where
  "reachable P e \<longleftrightarrow> (\<exists>to cs rd ld w e0 inps.
     ecu_start ecu_policy to cs rd ld w = Inr e0 \<and> e = snd (run (ecu_step P) inps e0))"

lemma reachable_inv: "reachable P e \<Longrightarrow> ecu_inv P GENESIS_HASH e"
  unfolding reachable_def using ecu_machine.inv_run [OF ecu_start_inv] by blast

lemma reachable_levels: "reachable P e \<Longrightarrow> sa_levels (e_sa e) = ecu_levels"
proof -
  assume "reachable P e"
  then obtain to cs rd ld w e0 inps where e0: "ecu_start ecu_policy to cs rd ld w = Inr e0"
    "e = snd (run (ecu_step P) inps e0)" unfolding reachable_def by blast
  have "ecu_le e0 e" unfolding e0(2) by (rule ecu_machine.rel_run [OF ecu_start_inv [OF e0(1)]])
  moreover have "sa_levels (e_sa e0) = ecu_levels"
    using e0(1) security_access_init_simps by (auto simp: ecu_start_def split: sum.splits)
  ultimately show ?thesis by (simp add: ecu_le_def sa_le_def same_config_def)
qed

lemma reachable_step: "reachable P e \<Longrightarrow> reachable P (snd (ecu_step P inp e))"
proof -
  assume "reachable P e"
  then obtain to cs rd ld w e0 inps where "ecu_start ecu_policy to cs rd ld w = Inr e0"
    "e = snd (run (ecu_step P) inps e0)" unfolding reachable_def by blast
  moreover from this have "snd (ecu_step P inp e) = snd (run (ecu_step P) (inps @ [inp]) e0)" by simp
  ultimately show ?thesis unfolding reachable_def by blast
qed

lemma reachable_run: "reachable P e \<Longrightarrow> reachable P (snd (run (ecu_step P) inps e))"
  by (induction inps arbitrary: e) (simp_all add: reachable_step)

text \<open>What the budget of guesses of 0x27 means for the ECU: time does not go back, and the keys rejected for a level
  in a run are within the budget of its time.\<close>

lemma rejected_within_budget:
  assumes "reachable P e" "clock_ok (e_sm e)"
    and "map_of (sa_levels (e_sa e)) ss = Some (SendKeyCfg sess lv rs alg sec)"
    and "run (ecu_step P) inps e = (outs, e')" "keys_accepted ss inps outs = 0"
  shows "next_time (e_sm e) \<le> next_time (e_sm e')"
    and "0 < sa_lockout_duration (e_sa e) \<Longrightarrow>
      int (keys_rejected ss inps outs) \<le> budget (next_time (e_sm e')) (next_time (e_sm e)) lv (e_sa e)"
proof -
  have inv: "handler_inv (e_sa e, e_sm e)" using reachable_inv [OF assms(1)] by (simp add: ecu_inv_def)
  obtain ops where ops: "snd (run sa_step ops (e_sa e, e_sm e)) = (e_sa e', e_sm e')"
    "failures ss ops (fst (run sa_step ops (e_sa e, e_sm e))) = keys_rejected ss inps outs"
    "successes ss ops (fst (run sa_step ops (e_sa e, e_sm e))) = keys_accepted ss inps outs"
    using run_sa_path [of inps P e] assms(4) unfolding sa_path_def by auto
  show "next_time (e_sm e) \<le> next_time (e_sm e')"
    using advances_next_time [OF assms(2)] advances_run [OF inv, of ops] ops(1) by simp
  show "0 < sa_lockout_duration (e_sa e) \<Longrightarrow>
      int (keys_rejected ss inps outs) \<le> budget (next_time (e_sm e')) (next_time (e_sm e)) lv (e_sa e)"
    using failures_budget [OF inv, of ss sess lv rs alg sec ops "next_time (e_sm e')"] assms(2,3,5) ops by simp
qed

definition started_ecu :: "world \<Rightarrow> ecu" where
  "started_ecu w =
     \<lparr>e_policy = ecu_policy,
      e_sm = world.extend (w\<lparr>mono_reads := Suc (mono_reads w)\<rparr>)
        (session_sm.fields DEFAULT policy_allowed 300 (mono_clock w (mono_reads w))),
      e_sa = sample_sa, e_auth = authentication_init ecu_policy (Some sample_store),
      e_audit = audit_init GENESIS_HASH, e_owner = None, e_mechanism = None\<rparr>"

lemma sample_sa_init: "security_access_init ecu_policy None None = Inr sample_sa"
  unfolding security_access_init_def parse_ecu_levels sum.case
  by (simp add: sample_sa_def ecu_levels_def send_key_access_levels_def ecu_policy_def fun_upd_twist)

lemma started_ecu: "ecu_start ecu_policy None (Some sample_store) None None w = Inr (started_ecu w)"
proof -
  have "session_init ecu_policy None w = Inr (e_sm (started_ecu w))"
    unfolding session_init_def parse_policy_allowed sum.case
    by (simp add: started_ecu_def monotonic_def Let_def world.defs) (simp add: ecu_policy_def)
  moreover have "pol_genesis_hash ecu_policy = GENESIS_HASH"
    by (simp add: ecu_policy_def GENESIS_HASH_def)
  ultimately show ?thesis by (simp add: ecu_start_def sample_sa_init) (simp add: started_ecu_def)
qed

lemma reachable_started: "reachable P (snd (run (ecu_step P) inps (started_ecu w)))"
  unfolding reachable_def using started_ecu by blast

section \<open>Concrete runs\<close>

text \<open>A clock that ticks once per reading and jumps by 1000 seconds at reading \<open>k\<close>.\<close>

definition jump_world :: "nat \<Rightarrow> world" where
  "jump_world k = sample_world\<lparr>mono_clock := (\<lambda>n. if n < k then of_nat n else 1000 + of_nat n)\<rparr>"

definition calibration_key :: "int list" where
  "calibration_key =
     list_of_bytes (compute_key_hmac_sha256 (replicate 32 0) ''sim-calibration-secret-dev-only'')"

definition calibration_run :: "ecu_input list" where
  "calibration_run =
     [Call 1 (DiagnosticSessionControl 3), Call 1 (SecurityAccessRequestSeed 1),
      Call 1 (SecurityAccessSendKey 2 calibration_key)]"

lemmas ecu_eval = sa_eval rpc_defs ecu_current_pair transition_def VALID_def policy_allowed_def
  live_session_def expired_def next_time_def utcnow_def started_ecu_def jump_world_def
  rpc_send_uds_pdu_def

lemma seeded_ecu:
  "sa_pending_seeds (e_sa (snd (run (ecu_step P) (take 2 calibration_run) (started_ecu (jump_world 15))))) 1
     = Some (replicate 32 0)"
  by (simp add: calibration_run_def ecu_eval)

lemma calibrated_ecu:
  "fst (rpc_check_access ''CALIBRATION'' (snd (run (ecu_step P) calibration_run (started_ecu (jump_world 30)))))
     = Inr [(''granted'', JBool True)]"
  by (simp add: calibration_run_def calibration_key_def ecu_eval is_access_granted_def)

lemma auth_clear_nonces: "au_used_nonces (auth_clear_access a) = au_used_nonces a"
  by (simp add: auth_clear_access_def)

definition elevated_ecu :: ecu where
  "elevated_ecu = (started_ecu sample_world)\<lparr>e_sm := sample_session, e_owner := Some 1\<rparr>"

lemma elevated_ecu_simps [simp]:
  "e_sm elevated_ecu = sample_session" "e_owner elevated_ecu = Some 1"
  "e_sa elevated_ecu = sample_sa" "e_mechanism elevated_ecu = None"
  "e_auth elevated_ecu = authentication_init ecu_policy (Some sample_store)"
  by (simp_all add: elevated_ecu_def started_ecu_def)

lemma calibrated_grant:
  "sa_granted (e_sa (snd (run (ecu_step P) calibration_run (started_ecu (jump_world 30))))) = Some ''CALIBRATION''"
  by (simp add: calibration_run_def calibration_key_def ecu_eval)

definition lab_world :: world where
  "lab_world = sample_world\<lparr>wall_clock := (\<lambda>_. sample_now)\<rparr>"

end
