(* ===== verification/Rpc.thy ===== *)
theory Rpc
  imports Json
begin

text \<open>
  The JSON-RPC layer \<open>sim/protocol/rpc.py\<close>: newline-delimited JSON over a byte stream. The server cuts
  the chunks that the socket delivers into lines (\<open>_Handler.handle\<close>), decodes each line, looks the
  method up and calls it with the keyword arguments (\<open>RpcServer._dispatch\<close>), and answers
  every line with one line. The client numbers its calls, sends a line and reads a line
  (\<open>RpcClient.call\<close>).

  A registered method is a function of the connection's id, of the keyword arguments and of the state
  of the service. The text that \<open>str\<close> gives for an exception of the interpreter or of a library is a
  parameter (\<open>T\<close> below); the texts that the program itself writes are defined.
\<close>

section \<open>Bytes and text\<close>

text \<open>
  \<open>bytes.decode()\<close>: UTF-8 for the code points below 256. A byte sequence for a higher code point is
  outside the model of strings and is treated like one that is not UTF-8.
\<close>

fun decode :: "bytes \<Rightarrow> string option" where
  "decode [] = Some []"
| "decode (b # bs) =
     (if b < 128 then map_option (Cons (char_of (unat b))) (decode bs)
      else
        (case bs of
           [] \<Rightarrow> None
         | d # ds \<Rightarrow>
             if (b = 194 \<or> b = 195) \<and> 128 \<le> d \<and> d < 192
             then map_option (Cons (char_of ((unat b - 192) * 64 + (unat d - 128)))) (decode ds)
             else None))"

text \<open>\<open>line.strip()\<close> is empty.\<close>

definition is_space :: "byte \<Rightarrow> bool" where
  "is_space b \<longleftrightarrow> b \<in> {9, 10, 11, 12, 13, 32}"

definition blank :: "bytes \<Rightarrow> bool" where
  "blank line \<longleftrightarrow> list_all is_space line"

definition newline :: byte where
  "newline = 10"

text \<open>\<open>repr\<close> of a string, and \<open>str\<close> and the truth value of a JSON value.\<close>

definition printable :: "char \<Rightarrow> bool" where
  "printable c \<longleftrightarrow>
     (let n = of_char c :: nat in 32 \<le> n \<and> n \<le> 126 \<or> 161 \<le> n \<and> n \<noteq> 173)"

definition repr_char :: "char \<Rightarrow> char \<Rightarrow> string" where
  "repr_char q c =
     (if c = q \<or> c = backslash then [backslash, c]
      else if c = CHR 0x0A then [backslash, CHR ''n'']
      else if c = CHR 0x0D then [backslash, CHR ''r'']
      else if c = CHR 0x09 then [backslash, CHR ''t'']
      else if printable c then [c]
      else let n = of_char c :: nat in
        [backslash, CHR ''x'', digit_char (n div 16), digit_char (n mod 16)])"

definition py_repr :: "string \<Rightarrow> string" where
  "py_repr s =
     (let q = (if CHR 0x27 \<in> set s \<and> quote \<notin> set s then quote else CHR 0x27) in
      q # concat (map (repr_char q) s) @ [q])"

fun join :: "string \<Rightarrow> string list \<Rightarrow> string" where
  "join sep [] = []"
| "join sep [s] = s"
| "join sep (s # t # ss) = s @ sep @ join sep (t # ss)"

fun repr_json :: "json \<Rightarrow> string" where
  "repr_json JNull = ''None''"
| "repr_json (JBool b) = (if b then ''True'' else ''False'')"
| "repr_json (JInt n) = str_int n"
| "repr_json (JStr s) = py_repr s"
| "repr_json (JArr xs) = ''['' @ join '', '' (map repr_json xs) @ '']''"
| "repr_json (JObj fs) =
     ''{'' @ join '', '' (map (\<lambda>(k, v). py_repr k @ '': '' @ repr_json v) fs) @ ''}''"

fun py_str :: "json \<Rightarrow> string" where
  "py_str (JStr s) = s"
| "py_str j = repr_json j"

fun truthy :: "json \<Rightarrow> bool" where
  "truthy JNull = False"
| "truthy (JBool b) = b"
| "truthy (JInt n) = (n \<noteq> 0)"
| "truthy (JStr s) = (s \<noteq> [])"
| "truthy (JArr xs) = (xs \<noteq> [])"
| "truthy (JObj fs) = (fs \<noteq> [])"

text \<open>\<open>d.get(k)\<close> as a JSON value.\<close>

definition get_json :: "dict \<Rightarrow> string \<Rightarrow> json" where
  "get_json d k = (case dict_get d k of None \<Rightarrow> JNull | Some v \<Rightarrow> v)"

section \<open>The server\<close>

type_synonym 's rpc_method = "int \<Rightarrow> dict \<Rightarrow> 's \<Rightarrow> (exn + json) \<times> 's"
type_synonym 's methods = "string \<rightharpoonup> 's rpc_method"

definition register :: "string \<Rightarrow> 's rpc_method \<Rightarrow> 's methods \<Rightarrow> 's methods" where
  "register name fn methods = methods(name \<mapsto> fn)"

text \<open>\<open>str(exc)\<close>: a \<open>KeyError\<close> shows the \<open>repr\<close> of its key, a \<open>RuntimeError\<close> its message.\<close>

definition str_exn :: "(exn \<Rightarrow> string) \<Rightarrow> exn \<Rightarrow> string" where
  "str_exn T ex = (case ex of KeyError m \<Rightarrow> py_repr m | RuntimeError m \<Rightarrow> m | _ \<Rightarrow> T ex)"

definition result_response :: "json \<Rightarrow> json \<Rightarrow> dict" where
  "result_response result rpc_id = [(''jsonrpc'', JStr ''2.0''), (''result'', result), (''id'', rpc_id)]"

definition error_response :: "(exn \<Rightarrow> string) \<Rightarrow> exn \<Rightarrow> json \<Rightarrow> dict" where
  "error_response T exc rpc_id =
     [(''jsonrpc'', JStr ''2.0''),
      (''error'', JObj [(''code'', JInt (- 32000)), (''message'', JStr (str_exn T exc))]),
      (''id'', rpc_id)]"

text \<open>\<open>if method not in self._methods: raise KeyError(...)\<close>, then \<open>self._methods[method]\<close>.\<close>

definition find_method :: "'s methods \<Rightarrow> json \<Rightarrow> exn + 's rpc_method" where
  "find_method methods j =
     (case j of
        JStr m \<Rightarrow>
          (case methods m of
             None \<Rightarrow> Inl (KeyError (''unknown method: '' @ m))
           | Some f \<Rightarrow> Inr f)
      | JArr _ \<Rightarrow> Inl (TypeError ''unhashable type: list'')
      | JObj _ \<Rightarrow> Inl (TypeError ''unhashable type: dict'')
      | _ \<Rightarrow> Inl (KeyError (''unknown method: '' @ py_str j)))"

text \<open>\<open>req.get("params") or {}\<close>, unpacked with \<open>**\<close>.\<close>

definition keyword_args :: "json \<Rightarrow> exn + dict" where
  "keyword_args params =
     (if \<not> truthy params then Inr []
      else case params of JObj d \<Rightarrow> Inr d | _ \<Rightarrow> Inl (TypeError ''argument after ** must be a mapping''))"

definition call_method ::
  "'s methods \<Rightarrow> int \<Rightarrow> json \<Rightarrow> json \<Rightarrow> 's \<Rightarrow> (exn + json) \<times> 's" where
  "call_method methods conn_id m params s =
     (case find_method methods m of
        Inl ex \<Rightarrow> (Inl ex, s)
      | Inr f \<Rightarrow>
          (case keyword_args params of
             Inl ex \<Rightarrow> (Inl ex, s)
           | Inr kwargs \<Rightarrow> f conn_id kwargs s))"

definition dispatch :: "(exn \<Rightarrow> string) \<Rightarrow> 's methods \<Rightarrow> int \<Rightarrow> bytes \<Rightarrow> 's \<Rightarrow> dict \<times> 's" where
  "dispatch T methods conn_id raw s =
     (case decode raw of
        None \<Rightarrow> (error_response T (ValueError ''utf-8'') JNull, s)
      | Some txt \<Rightarrow>
     (case loads txt of
        None \<Rightarrow> (error_response T (ValueError txt) JNull, s)
      | Some (JObj req) \<Rightarrow>
          (case call_method methods conn_id (get_json req ''method'') (get_json req ''params'') s of
             (Inr result, s') \<Rightarrow> (result_response result (get_json req ''id''), s')
           | (Inl exc, s') \<Rightarrow> (error_response T exc (get_json req ''id''), s'))
      | Some _ \<Rightarrow> (error_response T (AttributeError ''get'') JNull, s)))"

text \<open>\<open>conn.sendall(json.dumps(resp).encode() + b"\n")\<close>: the line that answers a line.\<close>

definition json_line :: "dict \<Rightarrow> bytes" where
  "json_line d = encode (dumps (JObj d)) @ [newline]"

definition answer :: "(exn \<Rightarrow> string) \<Rightarrow> 's methods \<Rightarrow> int \<Rightarrow> bytes \<Rightarrow> 's \<Rightarrow> bytes \<times> 's" where
  "answer T methods conn_id line s =
     (let (resp, s') = dispatch T methods conn_id line s in (json_line resp, s'))"

section \<open>Framing\<close>

text \<open>\<open>line, buf = buf.split(b"\n", 1)\<close> while there is a newline in the buffer.\<close>

definition split_line :: "bytes \<Rightarrow> (bytes \<times> bytes) option" where
  "split_line buf =
     (if newline \<in> set buf
      then Some (takeWhile (\<lambda>b. b \<noteq> newline) buf, tl (dropWhile (\<lambda>b. b \<noteq> newline) buf))
      else None)"

lemma split_line_SomeD:
  assumes "split_line buf = Some (line, rest)"
  shows "buf = line @ newline # rest" "newline \<notin> set line"
proof -
  have "dropWhile (\<lambda>b. b \<noteq> newline) buf \<noteq> []"
    using assms by (auto simp: split_line_def dropWhile_eq_Nil_conv split: if_splits)
  moreover from this have "hd (dropWhile (\<lambda>b. b \<noteq> newline) buf) = newline"
    using hd_dropWhile [of "\<lambda>b. b \<noteq> newline" buf] by simp
  ultimately have "dropWhile (\<lambda>b. b \<noteq> newline) buf = newline # rest"
    using assms by (cases "dropWhile (\<lambda>b. b \<noteq> newline) buf") (auto simp: split_line_def split: if_splits)
  moreover have "line = takeWhile (\<lambda>b. b \<noteq> newline) buf"
    using assms by (auto simp: split_line_def split: if_splits)
  ultimately show "buf = line @ newline # rest" "newline \<notin> set line"
    by (metis takeWhile_dropWhile_id) (use \<open>line = _\<close> set_takeWhileD in fastforce)
qed

lemma split_line_line [simp]:
  "newline \<notin> set line \<Longrightarrow> split_line (line @ newline # rest) = Some (line, rest)"
  by (induction line) (auto simp: split_line_def)

lemma split_line_None: "split_line buf = None \<longleftrightarrow> newline \<notin> set buf"
  by (simp add: split_line_def)

text \<open>
  The inner loop of \<open>_Handler.handle\<close>: answers the complete lines of the buffer and keeps the rest.
  \<open>ans\<close> answers one line. Every round shortens the buffer.
\<close>

function serve_lines :: "(bytes \<Rightarrow> 's \<Rightarrow> bytes \<times> 's) \<Rightarrow> bytes \<Rightarrow> 's \<Rightarrow> bytes \<times> bytes \<times> 's" where
  "serve_lines ans buf s =
     (case split_line buf of
        None \<Rightarrow> ([], buf, s)
      | Some (line, rest) \<Rightarrow>
          (let (out, s') = (if blank line then ([], s) else ans line s);
               (outs, buf', s'') = serve_lines ans rest s'
           in (out @ outs, buf', s'')))"
  by pat_completeness auto
termination
  by (relation "measure (\<lambda>(_, buf, _). length buf)") (auto dest: split_line_SomeD(1))

declare serve_lines.simps [simp del]

text \<open>The outer loop: every \<open>recv\<close> appends a chunk, an empty one ends the connection.\<close>

fun handle_conn ::
  "(bytes \<Rightarrow> 's \<Rightarrow> bytes \<times> 's) \<Rightarrow> bytes list \<Rightarrow> bytes \<Rightarrow> 's \<Rightarrow> bytes \<times> bytes \<times> 's" where
  "handle_conn ans [] buf s = ([], buf, s)"
| "handle_conn ans (chunk # chunks) buf s =
     (if chunk = [] then ([], buf, s)
      else
        let (out, buf', s') = serve_lines ans (buf @ chunk) s;
            (outs, buf'', s'') = handle_conn ans chunks buf' s'
        in (out @ outs, buf'', s''))"

section \<open>The client\<close>

text \<open>
  \<open>RpcClient.call\<close>. \<open>link\<close> is the connection: it takes the line that is sent and gives the line that
  \<open>readline\<close> returns, or the exception of the socket. The counter \<open>n\<close> is \<open>_next_id\<close>.
\<close>

type_synonym 's link = "bytes \<Rightarrow> 's \<Rightarrow> (exn + bytes) \<times> 's"

definition error_message :: "json \<Rightarrow> exn + string" where
  "error_message err =
     (case err of
        JObj d \<Rightarrow>
          (case dict_get d ''message'' of
             None \<Rightarrow> Inl (KeyError ''message'')
           | Some m \<Rightarrow> Inr (py_str m))
      | _ \<Rightarrow> Inl (TypeError ''message''))"

definition read_response :: "bytes \<Rightarrow> exn + json" where
  "read_response line =
     (case Option.bind (decode line) loads of
        None \<Rightarrow> Inl (ValueError ''response'')
      | Some (JObj resp) \<Rightarrow>
          (case dict_get resp ''error'' of
             Some err \<Rightarrow>
               (case error_message err of
                  Inl ex \<Rightarrow> Inl ex
                | Inr m \<Rightarrow> Inl (RuntimeError (''RPC error from ECU: '' @ m)))
           | None \<Rightarrow>
               (case dict_get resp ''result'' of
                  None \<Rightarrow> Inl (KeyError ''result'')
                | Some r \<Rightarrow> Inr r))
      | Some _ \<Rightarrow> Inl (TypeError ''result''))"

definition rpc_request :: "string \<Rightarrow> dict \<Rightarrow> int \<Rightarrow> dict" where
  "rpc_request m params n =
     [(''jsonrpc'', JStr ''2.0''), (''method'', JStr m), (''params'', JObj params), (''id'', JInt n)]"

definition rpc_call ::
  "'s link \<Rightarrow> string \<Rightarrow> dict \<Rightarrow> int \<times> 's \<Rightarrow> (exn + json) \<times> int \<times> 's" where
  "rpc_call link m params = (\<lambda>(n, s).
     (let (r, s') = link (json_line (rpc_request m params (n + 1))) s in
      (case r of
         Inl ex \<Rightarrow> (Inl ex, n + 1, s')
       | Inr line \<Rightarrow> (read_response line, n + 1, s'))))"

text \<open>\<open>readline\<close> on what the server has sent: up to and including the first newline.\<close>

definition readline :: "bytes \<Rightarrow> bytes" where
  "readline bs = (case split_line bs of None \<Rightarrow> bs | Some (line, _) \<Rightarrow> line @ [newline])"

text \<open>A connection to the server on which nothing else is under way.\<close>

definition server_link :: "(exn \<Rightarrow> string) \<Rightarrow> 's methods \<Rightarrow> int \<Rightarrow> 's link" where
  "server_link T methods conn_id bs s =
     (let (out, _, s') = serve_lines (answer T methods conn_id) bs s in (Inr (readline out), s'))"


section \<open>Text survives the wire\<close>

lemma unat_byte: "k < 256 \<Longrightarrow> unat (word_of_nat k :: byte) = k"
  by (simp add: unat_of_nat)

lemma decode_encode_char: "decode (encode_char c @ bs) = map_option (Cons c) (decode bs)"
proof -
  let ?n = "of_char c :: nat"
  have n: "?n < 256" by (rule of_char_less_256)
  show ?thesis
  proof (cases "?n < 128")
    case True
    then have "unat (word_of_nat ?n :: byte) = ?n" using unat_byte [OF n] by simp
    with True show ?thesis by (simp add: encode_char_def Let_def word_less_nat_alt)
  next
    case False
    have k: "?n div 64 < 64" using n by linarith
    have u: "unat (word_of_nat (192 + ?n div 64) :: byte) = 192 + ?n div 64"
      "unat (word_of_nat (128 + ?n mod 64) :: byte) = 128 + ?n mod 64"
      using k by (auto intro!: unat_byte simp del: of_nat_add)
    have d: "?n div 64 = 2 \<or> ?n div 64 = 3" using False n by linarith
    have "word_of_nat (192 + ?n div 64) \<in> {194, 195 :: byte}" using d by auto
    moreover have "\<not> (word_of_nat (192 + ?n div 64) :: byte) < 128"
      "128 \<le> (word_of_nat (128 + ?n mod 64) :: byte)" "(word_of_nat (128 + ?n mod 64) :: byte) < 192"
      using u by (simp_all only: word_less_nat_alt word_le_nat_alt) simp_all
    moreover have "(192 + ?n div 64 - 192) * 64 + (128 + ?n mod 64 - 128) = ?n" by simp
    ultimately show ?thesis
      using False u by (simp add: encode_char_def Let_def del: of_nat_add of_nat_div of_nat_mod)
  qed
qed

lemma decode_encode_append: "decode (encode s @ bs) = map_option ((@) s) (decode bs)"
  by (induction s) (simp_all add: encode_def decode_encode_char option.map_comp comp_def option.map_ident)

lemma decode_encode [simp]: "decode (encode s) = Some s"
  using decode_encode_append [of s "[]"] by simp

lemma char_of_newline [simp]: "char_of (10 :: nat) = CHR 0x0A"
proof -
  have "char_of (of_char (CHR 0x0A) :: nat) = CHR 0x0A" by (rule char_of_char)
  moreover have "of_char (CHR 0x0A) = (10 :: nat)" by simp
  ultimately show ?thesis by (simp only:)
qed

lemma decode_encode_line [simp]: "decode (encode s @ [newline]) = Some (s @ [CHR 0x0A])"
  by (simp add: decode_encode_append newline_def)

text \<open>A printed value holds no newline, so a value is one line.\<close>

lemma newline_encode: "newline \<in> set (encode s) \<longleftrightarrow> CHR 0x0A \<in> set s"
proof -
  have "newline \<in> set (encode_char c) \<longleftrightarrow> c = CHR 0x0A" for c
  proof
    assume "newline \<in> set (encode_char c)"
    then obtain k where k: "k \<in> set (char_codes c)" "word_of_nat k = (10 :: byte)"
      by (auto simp: encode_char_codes newline_def)
    then have "k = 10" using char_codes_bound [of k c] byte_of_nat_inj [of k 10] by simp
    with k(1) have "of_char c = (10 :: nat)" by (auto simp: char_codes_def Let_def split: if_splits)
    moreover have "of_char (CHR 0x0A) = (10 :: nat)" by simp
    ultimately show "c = CHR 0x0A" by (metis of_char_eq_iff)
  qed (simp add: encode_char_def newline_def)
  then show ?thesis by (auto simp: encode_def)
qed

lemma digit_char_not_newline: "d < 16 \<Longrightarrow> digit_char d \<noteq> CHR 0x0A"
  using digit_val_char [of d] by (auto simp: digit_val_def)

lemma esc_char_newline: "CHR 0x0A \<notin> set (esc_char c)"
proof -
  have "digit_char (of_char c div 16) \<noteq> CHR 0x0A" "digit_char (of_char c mod 16) \<noteq> CHR 0x0A"
    using of_char_less_256 [of c] by (simp_all add: digit_char_not_newline less_mult_imp_div_less)
  then show ?thesis by (auto simp: esc_char_def quote_def backslash_def Let_def)
qed

lemma dumps_newline_free:
  "CHR 0x0A \<notin> set (dumps j)"
  "CHR 0x0A \<notin> set (dumps_items xs)"
  "CHR 0x0A \<notin> set (dumps_fields fs)"
proof (induction j and xs and fs rule: dumps_dumps_items_dumps_fields.induct)
  case (3 n)
  have "CHR 0x0A \<notin> set (to_base 10 m)" for m
    using to_base_digits [of m] by (auto simp: is_digit_def)
  then show ?case by (simp add: str_int_def)
next
  case (4 s)
  show ?case by (auto simp: dumps_str_def quote_def esc_char_newline)
next
  case (11 k v)
  then show ?case by (auto simp: dumps_str_def quote_def esc_char_newline)
next
  case (12 k v f fs)
  then show ?case by (auto simp: dumps_str_def quote_def esc_char_newline)
qed auto

lemma json_line_newline: "newline \<notin> set (encode (dumps (JObj d)))"
  unfolding newline_encode by (rule dumps_newline_free)

lemma split_json_line [simp]:
  "split_line (json_line d @ bs) = Some (encode (dumps (JObj d)), bs)"
  "split_line (json_line d) = Some (encode (dumps (JObj d)), [])"
  using split_line_line [OF json_line_newline, of d bs] split_line_line [OF json_line_newline, of d "[]"]
  by (simp_all add: json_line_def)

lemma readline_json_line [simp]: "readline (json_line d @ bs) = json_line d" "readline (json_line d) = json_line d"
  by (simp_all add: readline_def) (simp_all add: json_line_def)

section \<open>Framing does not depend on the chunks\<close>

text \<open>The reference: the lines of a stream and what follows the last newline.\<close>

fun lines_of :: "bytes \<Rightarrow> bytes list \<times> bytes" where
  "lines_of [] = ([], [])"
| "lines_of (b # bs) =
     (let (ls, rest) = lines_of bs in
      if b = newline then ([] # ls, rest)
      else case ls of [] \<Rightarrow> ([], b # rest) | l # ls' \<Rightarrow> ((b # l) # ls', rest))"

lemma lines_of_no_newline: "newline \<notin> set bs \<Longrightarrow> lines_of bs = ([], bs)"
  by (induction bs) auto

lemma lines_of_line:
  "newline \<notin> set line \<Longrightarrow> lines_of (line @ newline # bs) = apfst (Cons line) (lines_of bs)"
  by (induction line) (auto simp: case_prod_unfold Let_def prod_eq_iff)

lemma serve_lines_None: "newline \<notin> set buf \<Longrightarrow> serve_lines ans buf s = ([], buf, s)"
  by (subst serve_lines.simps) (simp add: split_line_def)

lemma serve_lines_line:
  "newline \<notin> set line \<Longrightarrow> serve_lines ans (line @ newline # bs) s =
     (let (out, s') = (if blank line then ([], s) else ans line s);
          (outs, buf, s'') = serve_lines ans bs s'
      in (out @ outs, buf, s''))"
  by (subst serve_lines.simps) simp

text \<open>Every buffer is lines followed by a rest without a newline.\<close>

lemma buffer_induct [case_names rest line]:
  assumes "\<And>bs. newline \<notin> set bs \<Longrightarrow> Q bs"
    and "\<And>line bs. newline \<notin> set line \<Longrightarrow> Q bs \<Longrightarrow> Q (line @ newline # bs)"
  shows "Q buf"
proof (induction buf rule: length_induct)
  case (1 buf)
  show ?case
  proof (cases "split_line buf")
    case None
    with assms(1) show ?thesis by (simp add: split_line_None)
  next
    case (Some p)
    then obtain line bs where "buf = line @ newline # bs" "newline \<notin> set line"
      using split_line_SomeD by (cases p) blast
    with assms(2) 1 show ?thesis by auto
  qed
qed

lemma serve_lines_reference:
  "serve_lines ans buf s =
    (let (ls, rest) = lines_of buf; (outs, s') = run ans (filter (\<lambda>l. \<not> blank l) ls) s
     in (concat outs, rest, s'))"
proof (induction buf arbitrary: s rule: buffer_induct)
  case (rest bs)
  then show ?case by (simp add: serve_lines_None lines_of_no_newline)
next
  case (line l bs)
  then show ?case
    by (simp add: serve_lines_line lines_of_line case_prod_unfold Let_def)
qed

lemma serve_lines_rest: "newline \<notin> set (fst (snd (serve_lines ans buf s)))"
proof (induction buf arbitrary: s rule: buffer_induct)
  case (line l bs)
  then show ?case by (simp add: serve_lines_line case_prod_unfold Let_def)
qed (simp add: serve_lines_None)

lemma serve_lines_append:
  "serve_lines ans (buf @ bs) s =
    (let (out, rest, s') = serve_lines ans buf s; (outs, rest', s'') = serve_lines ans (rest @ bs) s'
     in (out @ outs, rest', s''))"
proof (induction buf arbitrary: s rule: buffer_induct)
  case (line l cs)
  then show ?case by (simp add: serve_lines_line case_prod_unfold Let_def)
qed (simp add: serve_lines_None)

lemma handle_conn_stream:
  "[] \<notin> set chunks \<Longrightarrow> newline \<notin> set buf \<Longrightarrow>
    handle_conn ans chunks buf s = serve_lines ans (buf @ concat chunks) s"
proof (induction chunks arbitrary: buf s)
  case Nil
  then show ?case by (simp add: serve_lines_None)
next
  case (Cons chunk chunks)
  have "newline \<notin> set (fst (snd (serve_lines ans (buf @ chunk) s)))" by (rule serve_lines_rest)
  moreover have "chunk \<noteq> []" using Cons.prems(1) by auto
  ultimately show ?case using Cons
    by (simp add: serve_lines_append [of ans "buf @ chunk", simplified] case_prod_unfold Let_def)
qed

lemma handle_conn_closed: "handle_conn ans (chunks @ [] # later) buf s = handle_conn ans chunks buf s"
  by (induction chunks arbitrary: buf s) (auto simp: case_prod_unfold Let_def)

section \<open>A service behind the server\<close>

text \<open>
  What holds between the states before and after a call of a method on a connection, and between a state
  and itself, holds before and after the answer to any line on that connection. In particular the server
  keeps what the methods keep, whatever bytes arrive in whatever chunks.
\<close>

locale rpc_connection =
  fixes methods :: "'s methods" and conn_id :: int and rel :: "'s \<Rightarrow> 's \<Rightarrow> bool"
  assumes rel_refl: "rel s s"
    and method_rel: "methods m = Some f \<Longrightarrow> rel s (snd (f conn_id kwargs s))"
begin

lemma call_method_rel: "rel s (snd (call_method methods conn_id m params s))"
  using method_rel rel_refl
  by (auto simp: call_method_def find_method_def split: sum.splits json.splits option.splits)

lemma dispatch_rel: "rel s (snd (dispatch T methods conn_id raw s))"
  using call_method_rel [of s] rel_refl
  by (auto simp: dispatch_def split: option.split json.split sum.split prod.split) (metis snd_conv)+

lemma answer_rel: "rel s (snd (answer T methods conn_id line s))"
  using dispatch_rel by (simp add: answer_def case_prod_unfold Let_def)

end

locale rpc_service =
  fixes methods :: "'s methods" and inv :: "'s \<Rightarrow> bool"
  assumes method_keeps: "methods m = Some f \<Longrightarrow> inv s \<Longrightarrow> inv (snd (f conn_id kwargs s))"

sublocale rpc_service \<subseteq> conn: rpc_connection methods c "\<lambda>s s'. inv s \<longrightarrow> inv s'" for c
  by unfold_locales (simp_all add: method_keeps)

context rpc_service
begin

lemma answer_keeps: "inv s \<Longrightarrow> inv (snd (answer T methods c line s))"
  using conn.answer_rel by blast

lemma serve_keeps: "inv s \<Longrightarrow> inv (snd (snd (serve_lines (answer T methods c) buf s)))"
proof (induction buf arbitrary: s rule: buffer_induct)
  case (line l bs)
  then show ?case by (simp add: serve_lines_line case_prod_unfold Let_def answer_keeps)
qed (simp add: serve_lines_None)

lemma handle_keeps: "inv s \<Longrightarrow> inv (snd (snd (handle_conn (answer T methods c) chunks buf s)))"
  by (induction chunks arbitrary: buf s) (auto simp: case_prod_unfold Let_def serve_keeps)

end

section \<open>A call and its answer\<close>

lemma get_json_simps [simp]:
  "get_json [] k = JNull" "get_json ((k', v) # d) k = (if k' = k then v else get_json d k)"
  by (auto simp: get_json_def dict_get_def)

lemma loads_json_line:
  "wf_json (JObj d) \<Longrightarrow> decode (encode (dumps (JObj d))) = Some (dumps (JObj d)) \<and>
    loads (dumps (JObj d)) = Some (JObj d)"
  by (simp only: decode_encode loads_dumps simp_thms)

lemma keyword_args_obj [simp]: "keyword_args (JObj d) = Inr d"
  by (simp add: keyword_args_def)

lemma dispatch_request:
  assumes "wf_json (JObj params)"
  shows "dispatch T methods c (encode (dumps (JObj (rpc_request m params n)))) s =
    (case call_method methods c (JStr m) (JObj params) s of
       (Inr result, s') \<Rightarrow> (result_response result (JInt n), s')
     | (Inl exc, s') \<Rightarrow> (error_response T exc (JInt n), s'))"
proof -
  have "wf_json (JObj (rpc_request m params n))" using assms by (simp add: rpc_request_def)
  from loads_json_line [OF this] show ?thesis
    by (simp add: dispatch_def rpc_request_def del: dumps.simps split: sum.split prod.split)
qed

lemma read_json_line:
  assumes "wf_json (JObj d)"
  shows "Option.bind (decode (json_line d)) loads = Some (JObj d)"
  using loads_dumps_line [OF assms] by (simp add: json_line_def del: dumps.simps)

lemma read_result_response: "wf_json r \<Longrightarrow> read_response (json_line (result_response r i)) = Inr r"
  if "wf_json i"
  using that read_json_line [of "result_response r i"]
  by (simp add: read_response_def result_response_def dict_get_def)

lemma read_error_response:
  "wf_json i \<Longrightarrow> read_response (json_line (error_response T ex i)) =
    Inl (RuntimeError (''RPC error from ECU: '' @ str_exn T ex))"
  using read_json_line [of "error_response T ex i"]
  by (simp add: read_response_def error_response_def error_message_def dict_get_def)

text \<open>
  A call through the server is a call of the method: the result comes back as it is, an exception as
  a \<open>RuntimeError\<close> with its text.
\<close>

lemma not_blank_json [simp]: "\<not> blank (encode (dumps (JObj d)))"
proof -
  have "encode (dumps (JObj d)) = 123 # encode (dumps_fields d @ ''}'')"
    by (simp add: encode_def encode_char_def)
  then show ?thesis by (simp add: blank_def is_space_def)
qed

lemma rpc_call_server:
  assumes "wf_json (JObj params)"
    and "\<And>r. fst (call_method methods c (JStr m) (JObj params) s) = Inr r \<Longrightarrow> wf_json r"
  shows "rpc_call (server_link T methods c) m params (n, s) =
    (case call_method methods c (JStr m) (JObj params) s of (res, s') \<Rightarrow>
      (map_sum (\<lambda>ex. RuntimeError (''RPC error from ECU: '' @ str_exn T ex)) id res, n + 1, s'))"
proof -
  let ?raw = "encode (dumps (JObj (rpc_request m params (n + 1))))"
  have line: "json_line (rpc_request m params (n + 1)) = ?raw @ newline # []"
    by (simp only: json_line_def append.simps)
  have "serve_lines (answer T methods c) (json_line (rpc_request m params (n + 1))) s =
      (let (resp, s') = dispatch T methods c ?raw s in (json_line resp, [], s'))"
    unfolding line
    by (subst serve_lines_line) (simp_all add: json_line_newline answer_def serve_lines_None case_prod_unfold Let_def
        del: dumps.simps)
  then show ?thesis
    using assms(2) dispatch_request [OF assms(1), of T methods c m "n + 1" s]
    by (cases "call_method methods c (JStr m) (JObj params) s")
      (auto simp: rpc_call_def server_link_def read_result_response read_error_response split: sum.splits)
qed

lemma handle_conn_open:
  "handle_conn ans chunks [] s = serve_lines ans (concat (takeWhile (\<lambda>ch. ch \<noteq> []) chunks)) s"
proof -
  have "handle_conn ans chunks buf s = handle_conn ans (takeWhile (\<lambda>ch. ch \<noteq> []) chunks) buf s" for buf
    by (induction chunks arbitrary: buf s) (simp_all add: case_prod_unfold Let_def)
  moreover have "[] \<notin> set (takeWhile (\<lambda>ch. ch \<noteq> []) chunks)"
    by (auto dest: set_takeWhileD)
  ultimately show ?thesis using handle_conn_stream [of "takeWhile (\<lambda>ch. ch \<noteq> []) chunks" "[]" ans s] by simp
qed

lemma lines_of_json_line [simp]:
  "lines_of (json_line d @ bs) = apfst (Cons (encode (dumps (JObj d)))) (lines_of bs)"
proof -
  have "json_line d @ bs = encode (dumps (JObj d)) @ newline # bs" by (simp add: json_line_def)
  then show ?thesis by (simp only: lines_of_line [OF json_line_newline])
qed

text \<open>A response: the version, the id and exactly one of a result and an error.\<close>

definition response_shape :: "dict \<Rightarrow> bool" where
  "response_shape d \<longleftrightarrow> dict_get d ''jsonrpc'' = Some (JStr ''2.0'') \<and> dict_get d ''id'' \<noteq> None \<and>
     (dict_get d ''result'' = None) \<noteq> (dict_get d ''error'' = None)"

lemma dispatch_shape: "response_shape (fst (dispatch T methods c raw s))"
proof -
  have "response_shape (result_response r i)" "response_shape (error_response T ex i)" for r i ex
    by (simp_all add: response_shape_def result_response_def error_response_def dict_get_def)
  then show ?thesis
    by (auto simp: dispatch_def split: option.split json.split sum.split prod.split)
qed

section \<open>Properties\<close>

text \<open>C24: The answers do not depend on how the network cuts the stream. Whatever chunks \<open>recv\<close> delivers until it
  reports the end of the connection, the server sends what it would send for the complete lines of the
  joined stream, answered one after the other with the blank ones left out, ends in the same state of the
  service and keeps what follows the last newline.\<close>

theorem framing_independent:
  "handle_conn (answer T methods c) chunks [] s =
    (let (ls, rest) = lines_of (concat (takeWhile (\<lambda>chunk. chunk \<noteq> []) chunks));
         (outs, s') = run (answer T methods c) (filter (\<lambda>l. \<not> blank l) ls) s
     in (concat outs, rest, s'))"
  by (simp add: handle_conn_open serve_lines_reference)

text \<open>C25: Every line is answered by one line. For any bytes in any chunks, well-formed or not, the server sends
  exactly one complete line for each complete line that is not blank, and nothing else; each line it
  sends is a JSON object with the version, an id and either a result or an error. So the client's
  \<open>readline\<close> never takes a part of an answer or two answers for one.\<close>

theorem one_answer_per_line:
  "let (out, _, _) = handle_conn (answer T methods c) chunks [] s;
       (sent, partial) = lines_of out;
       received = fst (lines_of (concat (takeWhile (\<lambda>chunk. chunk \<noteq> []) chunks))) in
    partial = [] \<and> length sent = length (filter (\<lambda>l. \<not> blank l) received) \<and>
    list_all (\<lambda>l. \<exists>d. l = encode (dumps (JObj d)) \<and> response_shape d) sent"
proof -
  have "snd (lines_of (concat (fst (run (answer T methods c) ls s)))) = [] \<and>
      length (fst (lines_of (concat (fst (run (answer T methods c) ls s))))) = length ls \<and>
      list_all (\<lambda>l. \<exists>d. l = encode (dumps (JObj d)) \<and> response_shape d)
        (fst (lines_of (concat (fst (run (answer T methods c) ls s)))))" for ls
  proof (induction ls arbitrary: s)
    case (Cons l ls)
    let ?d = "fst (dispatch T methods c l s)"
    have "fst (answer T methods c l s) = json_line ?d" by (simp add: answer_def case_prod_unfold Let_def)
    then show ?case
      using Cons.IH [of "snd (answer T methods c l s)"] dispatch_shape [of T methods c l s]
      by (auto simp del: dumps.simps)
  qed simp
  then show ?thesis
    by (simp add: handle_conn_open serve_lines_reference case_prod_unfold Let_def del: dumps.simps)
qed

text \<open>A call of a method that is not registered raises at the client a \<open>RuntimeError\<close> with the text the server
  wrote, the \<open>repr\<close> of its message included, and does not touch the service.\<close>

theorem unknown_method_error:
  assumes "methods m = None" and "wf_json (JObj params)"
  shows "rpc_call (server_link T methods c) m params (n, s) =
    (Inl (RuntimeError (''RPC error from ECU: '' @ py_repr (''unknown method: '' @ m))), n + 1, s)"
proof -
  have "call_method methods c (JStr m) (JObj params) s = (Inl (KeyError (''unknown method: '' @ m)), s)"
    using assms(1) by (simp add: call_method_def find_method_def)
  with rpc_call_server [OF assms(2), of methods c m s T n] show ?thesis by (simp add: str_exn_def)
qed

theorem unknown_method_error_witness:
  "rpc_call (server_link (\<lambda>_. []) Map.empty 7) ''flash'' [(''x'', JInt 1)] (0, ()) =
    (Inl (RuntimeError (''RPC error from ECU: '' @ [CHR 0x27] @ ''unknown method: flash'' @ [CHR 0x27])), 1, ())"
  using unknown_method_error [of "Map.empty :: unit methods" "''flash''" "[(''x'', JInt 1)]" "\<lambda>_. []" 7 0 "()"]
  by (simp add: py_repr_def repr_char_def printable_def backslash_def quote_def Let_def)

end
