(* ===== verification/ECU_Server.thy ===== *)
theory ECU_Server
  imports ECU_Runs Rpc "HOL-Library.Sublist"
begin

text \<open>
  The ECU behind the JSON-RPC server: the methods that \<open>VirtualECU.start\<close> registers, with the keyword
  arguments of their signatures and what the handlers do with arguments of any JSON type; the life cycle
  (\<open>start\<close>, \<open>port\<close>, \<open>stop\<close>); and the server with its connections, each served by a thread of its own.

  Python compares and looks up a boolean as the number 0 or 1, and the model passes it on as that
  number (a response that repeats it shows the number, Python shows the boolean).
\<close>

section \<open>Arguments\<close>

text \<open>The call \<open>fn(**kwargs)\<close>: every parameter given, nothing else.\<close>

definition bind_args :: "string list \<Rightarrow> dict \<Rightarrow> exn + json list" where
  "bind_args names kwargs =
     (if list_all (\<lambda>kv. fst kv \<in> set names) kwargs \<and> list_all (\<lambda>n. map_of kwargs n \<noteq> None) names
      then Inr (map (\<lambda>n. the (map_of kwargs n)) names)
      else Inl (TypeError ''arguments''))"

text \<open>\<open>bytes(v)\<close> for a JSON value, as the list of the byte values.\<close>

fun byte_items :: "json list \<Rightarrow> exn + int list" where
  "byte_items [] = Inr []"
| "byte_items (JInt n # xs) =
     (if 0 \<le> n \<and> n < 256 then map_sum id (Cons n) (byte_items xs)
      else Inl (ValueError ''bytes must be in range(0, 256)''))"
| "byte_items (JBool b # xs) = map_sum id (Cons (of_bool b)) (byte_items xs)"
| "byte_items (_ # xs) = Inl (TypeError ''cannot be interpreted as an integer'')"

definition bytes_arg :: "json \<Rightarrow> exn + int list" where
  "bytes_arg v =
     (case v of
        JArr xs \<Rightarrow> byte_items xs
      | JInt n \<Rightarrow> if n < 0 then Inl (ValueError ''negative count'') else Inr (replicate (nat n) 0)
      | JBool b \<Rightarrow> Inr (replicate (of_bool b) 0)
      | JObj fs \<Rightarrow> if fs = [] then Inr [] else Inl (TypeError ''cannot be interpreted as an integer'')
      | JStr _ \<Rightarrow> Inl (TypeError ''string argument without an encoding'')
      | JNull \<Rightarrow> Inl (TypeError ''cannot convert to bytes''))"

text \<open>
  The key a subfunction is looked up with. A string or \<open>null\<close> is no key of the table, like the number
  \<open>no_level\<close>; a list or a dictionary cannot be looked up.
\<close>

definition no_level :: "ecu \<Rightarrow> int" where
  "no_level e = foldr max (map fst (sa_levels (e_sa e))) 0 + 1"

definition subfunction_arg :: "json \<Rightarrow> ecu \<Rightarrow> exn + int" where
  "subfunction_arg v e =
     (case v of
        JInt n \<Rightarrow> Inr n
      | JBool b \<Rightarrow> Inr (of_bool b)
      | JArr _ \<Rightarrow> Inl (TypeError ''unhashable type'')
      | JObj _ \<Rightarrow> Inl (TypeError ''unhashable type'')
      | _ \<Rightarrow> Inr (no_level e))"

text \<open>\<open>int(v)\<close>, \<open>len(v)\<close> and \<open>int(v[0])\<close> for the payload of a raw PDU.\<close>

definition int_arg :: "json \<Rightarrow> exn + int" where
  "int_arg v =
     (case v of
        JInt n \<Rightarrow> Inr n
      | JBool b \<Rightarrow> Inr (of_bool b)
      | JStr s \<Rightarrow> py_int s 10
      | _ \<Rightarrow> Inl (TypeError ''int() argument''))"

definition pdu_length :: "json \<Rightarrow> exn + nat" where
  "pdu_length v =
     (case v of
        JArr xs \<Rightarrow> Inr (length xs)
      | JStr s \<Rightarrow> Inr (length s)
      | JObj fs \<Rightarrow> Inr (length fs)
      | _ \<Rightarrow> Inl (TypeError ''object has no len()''))"

definition pdu_first :: "json \<Rightarrow> exn + int" where
  "pdu_first v =
     (case v of
        JArr (x # _) \<Rightarrow> int_arg x
      | JStr (ch # _) \<Rightarrow> py_int [ch] 10
      | _ \<Rightarrow> Inl (LibraryError ''KeyError: 0''))"

section \<open>The handlers on JSON arguments\<close>

text \<open>An argument that raises once the caller has passed the ownership check.\<close>

definition guarded_error :: "int \<Rightarrow> exn \<Rightarrow> ecu \<Rightarrow> (exn + dict) \<times> ecu" where
  "guarded_error conn_id ex e =
     (let (cur, e) = ecu_current e in
      if cur \<noteq> DEFAULT \<and> e_owner e \<noteq> Some conn_id then (Inr (negative (Some 0x22)), e)
      else (Inl ex, e))"

text \<open>
  \<open>transition\<close> looks the target up in a set: a string or \<open>null\<close> is not in it, like \<open>-1\<close>, and a list
  or a dictionary raises there, after the second check of the timeout.
\<close>

definition wire_session_control :: "int \<Rightarrow> json \<Rightarrow> ecu \<Rightarrow> (exn + dict) \<times> ecu" where
  "wire_session_control conn_id v e =
     (case v of
        JInt n \<Rightarrow> rpc_session_control conn_id n e
      | JBool b \<Rightarrow> rpc_session_control conn_id (of_bool b) e
      | JNull \<Rightarrow> rpc_session_control conn_id (- 1) e
      | JStr _ \<Rightarrow> rpc_session_control conn_id (- 1) e
      | _ \<Rightarrow>
          (case guarded_error conn_id (TypeError ''unhashable type'') e of
             (Inl ex, e) \<Rightarrow> (Inl ex, e\<lparr>e_sm := check_timeout (e_sm e)\<rparr>)
           | res \<Rightarrow> res))"

definition wire_request_seed :: "int \<Rightarrow> json \<Rightarrow> ecu \<Rightarrow> (exn + dict) \<times> ecu" where
  "wire_request_seed conn_id v e =
     (case subfunction_arg v e of
        Inr n \<Rightarrow> rpc_request_seed conn_id n e
      | Inl ex \<Rightarrow>
          (case guarded_error conn_id ex e of
             (Inl ex, e) \<Rightarrow>
               (if e_mechanism e = Some ''0x29'' then (Inr (negative (Some 0x24)), e) else (Inl ex, e))
           | res \<Rightarrow> res))"

text \<open>\<open>bytes(key)\<close> is evaluated before the call of \<open>send_key\<close>, which looks the subfunction up.\<close>

definition wire_send_key :: "int \<Rightarrow> json \<Rightarrow> json \<Rightarrow> ecu \<Rightarrow> (exn + dict) \<times> ecu" where
  "wire_send_key conn_id v key e =
     (case bytes_arg key of
        Inl ex \<Rightarrow> guarded_error conn_id ex e
      | Inr ints \<Rightarrow>
          (case subfunction_arg v e of
             Inl ex \<Rightarrow> guarded_error conn_id ex e
           | Inr n \<Rightarrow> rpc_send_key conn_id n ints e))"

definition wire_get_attempt_counter :: "json \<Rightarrow> ecu \<Rightarrow> (exn + dict) \<times> ecu" where
  "wire_get_attempt_counter v e =
     (case v of
        JStr lv \<Rightarrow> rpc_get_attempt_counter lv e
      | JArr _ \<Rightarrow> (Inl (TypeError ''unhashable type''), e)
      | JObj _ \<Rightarrow> (Inl (TypeError ''unhashable type''), e)
      | _ \<Rightarrow> (Inr [(''count'', JInt 0)], e))"

text \<open>\<open>parse_certificate\<close> catches what \<open>pem.encode()\<close> raises: no string is no certificate.\<close>

definition wire_communicate_certificate :: "provider \<Rightarrow> int \<Rightarrow> json \<Rightarrow> ecu \<Rightarrow> (exn + dict) \<times> ecu" where
  "wire_communicate_certificate P conn_id v e =
     (case v of
        JStr pem \<Rightarrow> rpc_communicate_certificate P conn_id pem e
      | _ \<Rightarrow>
          (let (cur, e) = ecu_current e in
           if cur \<noteq> DEFAULT \<and> e_owner e \<noteq> Some conn_id then (Inr (negative (Some 0x22)), e)
           else if cur = DEFAULT then (Inr (negative (Some 0x22)), e)
           else if e_mechanism e = Some ''0x27'' then (Inr (negative (Some 0x24)), e)
           else (Inr (negative (Some 0x73)), e)))"

definition wire_verify_proof :: "provider \<Rightarrow> int \<Rightarrow> json \<Rightarrow> ecu \<Rightarrow> (exn + dict) \<times> ecu" where
  "wire_verify_proof P conn_id v e =
     (case bytes_arg v of
        Inr ints \<Rightarrow> rpc_verify_proof P conn_id ints e
      | Inl ex \<Rightarrow>
          (let (cur, e) = ecu_current e in
           if cur \<noteq> DEFAULT \<and> e_owner e \<noteq> Some conn_id then (Inr (negative (Some 0x22)), e)
           else if cur = DEFAULT then (Inr (negative (Some 0x22)), e)
           else (Inl ex, e)))"

definition wire_inject_replay_nonce :: "json \<Rightarrow> ecu \<Rightarrow> (exn + dict) \<times> ecu" where
  "wire_inject_replay_nonce v e =
     (case bytes_arg v of Inr ints \<Rightarrow> rpc_inject_replay_nonce ints e | Inl ex \<Rightarrow> (Inl ex, e))"

definition wire_send_uds_pdu :: "int \<Rightarrow> json \<Rightarrow> json \<Rightarrow> ecu \<Rightarrow> (exn + dict) \<times> ecu" where
  "wire_send_uds_pdu conn_id service_id payload e =
     (if service_id = JInt 0x10 then
        (case pdu_length payload of
           Inl ex \<Rightarrow> (Inl ex, e)
         | Inr n \<Rightarrow>
             if n \<noteq> 1 then (Inr (negative (Some 0x13)), e)
             else (case pdu_first payload of
                 Inl ex \<Rightarrow> (Inl ex, e)
               | Inr b \<Rightarrow> rpc_session_control conn_id b e))
      else if service_id = JInt 0x27 then
        (case pdu_length payload of
           Inl ex \<Rightarrow> (Inl ex, e)
         | Inr n \<Rightarrow>
             if n < 1 then (Inr (negative (Some 0x13)), e)
             else (case pdu_first payload of
                 Inl ex \<Rightarrow> (Inl ex, e)
               | Inr b \<Rightarrow> rpc_request_seed conn_id b e))
      else (Inr (negative (Some 0x13)), e))"

text \<open>A value that is no string equals no level's name, like the empty string.\<close>

definition wire_check_access :: "json \<Rightarrow> ecu \<Rightarrow> (exn + dict) \<times> ecu" where
  "wire_check_access v e = (case v of JStr lv \<Rightarrow> rpc_check_access lv e | _ \<Rightarrow> rpc_check_access [] e)"

lemmas wire_defs = wire_session_control_def wire_request_seed_def wire_send_key_def
  wire_get_attempt_counter_def wire_communicate_certificate_def wire_verify_proof_def
  wire_inject_replay_nonce_def wire_send_uds_pdu_def wire_check_access_def

section \<open>The registered methods\<close>

definition ecu_method ::
  "string list \<Rightarrow> (int \<Rightarrow> json list \<Rightarrow> ecu \<Rightarrow> (exn + dict) \<times> ecu) \<Rightarrow> ecu rpc_method" where
  "ecu_method names body = (\<lambda>conn_id kwargs e.
     (case bind_args names kwargs of
        Inl ex \<Rightarrow> (Inl ex, e)
      | Inr args \<Rightarrow> apfst (map_sum id JObj) (body conn_id args e)))"

definition registered_methods :: "provider \<Rightarrow> (string \<times> ecu rpc_method) list" where
  "registered_methods P =
    [(''diagnostic_session_control'',
        ecu_method [''session_id''] (\<lambda>c args. wire_session_control c (args ! 0))),
     (''get_session_state'', ecu_method [] (\<lambda>c _. rpc_get_session_state c)),
     (''inject_tamper'', ecu_method [] (\<lambda>c _. rpc_inject_tamper c)),
     (''security_access_request_seed'',
        ecu_method [''subfunction''] (\<lambda>c args. wire_request_seed c (args ! 0))),
     (''security_access_send_key'',
        ecu_method [''subfunction'', ''key''] (\<lambda>c args. wire_send_key c (args ! 0) (args ! 1))),
     (''get_access_level'', ecu_method [] (\<lambda>_ _. rpc_get_access_level)),
     (''get_attempt_counter'',
        ecu_method [''access_level''] (\<lambda>_ args. wire_get_attempt_counter (args ! 0))),
     (''authenticate_communicate_certificate'',
        ecu_method [''cert_pem''] (\<lambda>c args. wire_communicate_certificate P c (args ! 0))),
     (''check_access'', ecu_method [''access_level''] (\<lambda>_ args. wire_check_access (args ! 0))),
     (''send_uds_pdu'',
        ecu_method [''service_id'', ''payload''] (\<lambda>c args. wire_send_uds_pdu c (args ! 0) (args ! 1))),
     (''authenticate_verify_proof'',
        ecu_method [''proof''] (\<lambda>c args. wire_verify_proof P c (args ! 0))),
     (''authenticate_deauthenticate'', ecu_method [] (\<lambda>c _. rpc_deauthenticate c)),
     (''get_auth_access_level'', ecu_method [] (\<lambda>_ _. rpc_get_auth_access_level)),
     (''inject_replay_nonce'',
        ecu_method [''nonce''] (\<lambda>_ args. wire_inject_replay_nonce (args ! 0))),
     (''get_audit_log'', ecu_method [] (\<lambda>_ _. rpc_get_audit_log))]"

definition ecu_methods :: "provider \<Rightarrow> ecu methods" where
  "ecu_methods P = foldl (\<lambda>ms (name, fn). register name fn ms) Map.empty (registered_methods P)"

section \<open>Every call is a request of the ECU\<close>

lemma ecu_method_cases:
  assumes "ecu_methods P m = Some f"
  obtains name body where "(m, f) \<in> set (registered_methods P)"
proof -
  have "ms m = Some f \<or> (m, f) \<in> set rs"
    if "foldl (\<lambda>ms (name, fn). register name fn ms) ms rs m = Some f" for rs and ms :: "ecu methods"
    using that
  proof (induction rs arbitrary: ms)
    case (Cons p rs)
    then show ?case
      using Cons.IH [of "register (fst p) (snd p) ms"]
      by (cases p) (auto simp: register_def split: if_splits)
  qed simp
  from this [of Map.empty "registered_methods P"] assms that show ?thesis
    by (auto simp: ecu_methods_def)
qed

text \<open>What a call changes of the ECU is nothing or what some request of its connection changes.\<close>

definition as_request :: "provider \<Rightarrow> int \<Rightarrow> ecu \<Rightarrow> ecu \<Rightarrow> bool" where
  "as_request P c e e' \<longleftrightarrow> e' = e \<or> (\<exists>req. e' = snd (handle P c req e))"

lemma as_request_refl [simp]: "as_request P c e e"
  by (simp add: as_request_def)

lemma as_request_handle: "e' = snd (handle P c req e) \<Longrightarrow> as_request P c e e'"
  by (auto simp: as_request_def)

lemma py_bytes_256: "py_bytes [256] = Inl (ValueError ''bytes must be in range(0, 256)'')"
  by (simp add: py_bytes_def)

text \<open>The check of the session alone is what a key that is no byte string leads to.\<close>

lemma as_request_current [simp]: "as_request P c e (e\<lparr>e_sm := check_timeout (e_sm e)\<rparr>)"
  by (rule as_request_handle [of _ P c "SecurityAccessSendKey 0 [256]"])
    (simp add: rpc_send_key_def ecu_current_pair Let_def py_bytes_256)

lemma guarded_error_state [simp]: "snd (guarded_error c ex e) = e\<lparr>e_sm := check_timeout (e_sm e)\<rparr>"
  by (simp add: guarded_error_def ecu_current_pair Let_def)

lemma as_request_rpc [simp]:
  "as_request P c e (snd (rpc_session_control c n e))"
  "as_request P c e (snd (rpc_request_seed c n e))"
  "as_request P c e (snd (rpc_send_key c n ints e))"
  "as_request P c e (snd (rpc_get_session_state c e))"
  "as_request P c e (snd (rpc_inject_tamper c e))"
  "as_request P c e (snd (rpc_communicate_certificate P c pem e))"
  "as_request P c e (snd (rpc_check_access lv e))"
  "as_request P c e (snd (rpc_verify_proof P c ints e))"
  "as_request P c e (snd (rpc_deauthenticate c e))"
  "as_request P c e (snd (rpc_inject_replay_nonce ints e))"
  by (rule as_request_handle, rule arg_cong [where f = snd], rule handle.simps [symmetric])+

lemma reads_only [simp]:
  "snd (rpc_get_access_level e) = e" "snd (rpc_get_attempt_counter lv e) = e"
  "snd (rpc_get_auth_access_level e) = e" "snd (rpc_get_audit_log e) = e"
  by (simp_all add: rpc_get_access_level_def rpc_get_attempt_counter_def rpc_get_auth_access_level_def
      rpc_get_audit_log_def)

lemma wire_session_control_request: "as_request P c e (snd (wire_session_control c v e))"
proof -
  let ?e = "e\<lparr>e_sm := check_timeout (e_sm e)\<rparr>"
  have "snd (wire_session_control c v e) = snd (rpc_session_control c (- 1) e)" if "\<exists>xs fs. v = JArr xs \<or> v = JObj fs"
    using that by (auto simp: wire_session_control_def guarded_error_def rpc_session_control_def ecu_current_pair Let_def
        transition_def VALID_def session_ids)
  then show ?thesis
    by (cases v) (simp_all add: wire_session_control_def [of c "JInt n" for n] wire_session_control_def [of c "JBool b" for b]
        wire_session_control_def [of c JNull] wire_session_control_def [of c "JStr s" for s])
qed

lemma wire_request:
  "as_request P c e (snd (wire_request_seed c v e))"
  "as_request P c e (snd (wire_send_key c v key e))"
  "as_request P c e (snd (wire_get_attempt_counter v e))"
  "as_request P c e (snd (wire_communicate_certificate P c v e))"
  "as_request P c e (snd (wire_verify_proof P c v e))"
  "as_request P c e (snd (wire_inject_replay_nonce v e))"
  "as_request P c e (snd (wire_send_uds_pdu c sid payload e))"
  "as_request P c e (snd (wire_check_access v e))"
proof -
  show "as_request P c e (snd (wire_request_seed c v e))"
    by (auto simp: wire_request_seed_def guarded_error_def ecu_current_pair Let_def split: sum.split)
  show "as_request P c e (snd (wire_communicate_certificate P c v e))"
    by (cases v) (auto simp: wire_communicate_certificate_def ecu_current_pair Let_def)
  show "as_request P c e (snd (wire_verify_proof P c v e))"
    by (auto simp: wire_verify_proof_def ecu_current_pair Let_def split: sum.split)
qed (auto simp: wire_send_key_def wire_get_attempt_counter_def wire_inject_replay_nonce_def wire_send_uds_pdu_def
    wire_check_access_def split: sum.split json.split)

lemma ecu_method_request:
  "as_request P c e (snd (ecu_method names body c kwargs e))" if "\<And>args. as_request P c e (snd (body c args e))"
  using that by (simp add: ecu_method_def split: sum.split)

lemma method_request:
  assumes "ecu_methods P m = Some f"
  shows "as_request P c e (snd (f c kwargs e))"
proof -
  from assms have "(m, f) \<in> set (registered_methods P)" by (rule ecu_method_cases)
  then show ?thesis
    by (auto simp: registered_methods_def intro!: ecu_method_request wire_session_control_request wire_request)
qed

interpretation ecu_connection: rpc_connection "ecu_methods P" c "as_request P c" for P c
  by unfold_locales (simp_all add: method_request)

text \<open>The server on the ECU keeps what every request keeps.\<close>

definition served :: "provider \<Rightarrow> ecu \<Rightarrow> ecu \<Rightarrow> bool" where
  "served P e e' \<longleftrightarrow> (\<exists>inps. e' = snd (run (ecu_step P) inps e))"

lemma served_refl [simp]: "served P e e"
  unfolding served_def by (rule exI [of _ "[]"]) simp

lemma served_trans [trans]: "served P e e' \<Longrightarrow> served P e' e'' \<Longrightarrow> served P e e''"
  unfolding served_def by (metis snd_run_append)

lemma served_step: "served P e (snd (ecu_step P inp e))"
  unfolding served_def by (rule exI [of _ "[inp]"]) simp

lemma served_request: "as_request P c e e' \<Longrightarrow> served P e e'"
  using served_step [of P e "Call c _"] by (auto simp: as_request_def)

interpretation ecu_service: rpc_service "ecu_methods P" "served P e0" for P e0
  by unfold_locales (blast intro: served_trans served_request method_request)

interpretation ecu_safe: rpc_service "ecu_methods P" "ecu_inv P g" for P g
proof unfold_locales
  fix m f e conn_id kwargs
  assume "ecu_methods P m = Some f" "ecu_inv P g e"
  then show "ecu_inv P g (snd (f conn_id kwargs e))"
    using method_request [of P m f conn_id e kwargs] ecu_machine.inv_step [of P g e "Call conn_id _"]
    by (auto simp: as_request_def)
qed

section \<open>The calls that carry the requests\<close>

text \<open>The method and the arguments of a request, as the client sends them.\<close>

fun request_call :: "request \<Rightarrow> string \<times> dict" where
  "request_call (DiagnosticSessionControl s) =
     (''diagnostic_session_control'', [(''session_id'', JInt s)])"
| "request_call GetSessionState = (''get_session_state'', [])"
| "request_call InjectTamper = (''inject_tamper'', [])"
| "request_call (SecurityAccessRequestSeed sf) =
     (''security_access_request_seed'', [(''subfunction'', JInt sf)])"
| "request_call (SecurityAccessSendKey sf key) =
     (''security_access_send_key'', [(''subfunction'', JInt sf), (''key'', json_of_ints key)])"
| "request_call GetAccessLevel = (''get_access_level'', [])"
| "request_call (GetAttemptCounter lv) = (''get_attempt_counter'', [(''access_level'', JStr lv)])"
| "request_call (AuthenticateCommunicateCertificate pem) =
     (''authenticate_communicate_certificate'', [(''cert_pem'', JStr pem)])"
| "request_call (CheckAccess lv) = (''check_access'', [(''access_level'', JStr lv)])"
| "request_call (SendUdsPdu sid payload) =
     (''send_uds_pdu'', [(''service_id'', JInt sid), (''payload'', json_of_ints payload)])"
| "request_call (AuthenticateVerifyProof p) = (''authenticate_verify_proof'', [(''proof'', json_of_ints p)])"
| "request_call AuthenticateDeauthenticate = (''authenticate_deauthenticate'', [])"
| "request_call GetAuthAccessLevel = (''get_auth_access_level'', [])"
| "request_call (InjectReplayNonce n) = (''inject_replay_nonce'', [(''nonce'', json_of_ints n)])"
| "request_call GetAuditLog = (''get_audit_log'', [])"

lemma byte_items_ints:
  "byte_items (map JInt ns) =
    (case py_bytes ns of Inl ex \<Rightarrow> Inl ex | Inr _ \<Rightarrow> Inr ns)"
  by (induction ns) (auto simp: py_bytes_def)

lemma bytes_arg_ints: "bytes_arg (json_of_ints ns) = (case py_bytes ns of Inl ex \<Rightarrow> Inl ex | Inr _ \<Rightarrow> Inr ns)"
  by (simp add: bytes_arg_def json_of_ints_def byte_items_ints)

lemma wf_request_call [simp]: "wf_json (JObj (snd (request_call req)))"
  by (cases req) (auto simp: json_of_ints_def)

text \<open>A call with the arguments of a request is the handler of that request.\<close>

lemma pdu_ints:
  "pdu_length (json_of_ints ns) = Inr (length ns)"
  "ns \<noteq> [] \<Longrightarrow> pdu_first (json_of_ints ns) = Inr (ns ! 0)"
  by (simp add: pdu_length_def json_of_ints_def)
    (cases ns, simp_all add: pdu_first_def json_of_ints_def int_arg_def)

lemma ecu_methods_simps [simp]:
  "ecu_methods P ''diagnostic_session_control'' =
     Some (ecu_method [''session_id''] (\<lambda>c args. wire_session_control c (args ! 0)))"
  "ecu_methods P ''get_session_state'' = Some (ecu_method [] (\<lambda>c _. rpc_get_session_state c))"
  "ecu_methods P ''inject_tamper'' = Some (ecu_method [] (\<lambda>c _. rpc_inject_tamper c))"
  "ecu_methods P ''security_access_request_seed'' =
     Some (ecu_method [''subfunction''] (\<lambda>c args. wire_request_seed c (args ! 0)))"
  "ecu_methods P ''security_access_send_key'' =
     Some (ecu_method [''subfunction'', ''key''] (\<lambda>c args. wire_send_key c (args ! 0) (args ! 1)))"
  "ecu_methods P ''get_access_level'' = Some (ecu_method [] (\<lambda>_ _. rpc_get_access_level))"
  "ecu_methods P ''get_attempt_counter'' =
     Some (ecu_method [''access_level''] (\<lambda>_ args. wire_get_attempt_counter (args ! 0)))"
  "ecu_methods P ''authenticate_communicate_certificate'' =
     Some (ecu_method [''cert_pem''] (\<lambda>c args. wire_communicate_certificate P c (args ! 0)))"
  "ecu_methods P ''check_access'' =
     Some (ecu_method [''access_level''] (\<lambda>_ args. wire_check_access (args ! 0)))"
  "ecu_methods P ''send_uds_pdu'' =
     Some (ecu_method [''service_id'', ''payload''] (\<lambda>c args. wire_send_uds_pdu c (args ! 0) (args ! 1)))"
  "ecu_methods P ''authenticate_verify_proof'' =
     Some (ecu_method [''proof''] (\<lambda>c args. wire_verify_proof P c (args ! 0)))"
  "ecu_methods P ''authenticate_deauthenticate'' = Some (ecu_method [] (\<lambda>c _. rpc_deauthenticate c))"
  "ecu_methods P ''get_auth_access_level'' = Some (ecu_method [] (\<lambda>_ _. rpc_get_auth_access_level))"
  "ecu_methods P ''inject_replay_nonce'' =
     Some (ecu_method [''nonce''] (\<lambda>_ args. wire_inject_replay_nonce (args ! 0)))"
  "ecu_methods P ''get_audit_log'' = Some (ecu_method [] (\<lambda>_ _. rpc_get_audit_log))"
  by (simp_all add: ecu_methods_def registered_methods_def register_def)

lemma call_method_named [simp]:
  "call_method methods c (JStr m) (JObj d) s =
     (case methods m of
        None \<Rightarrow> (Inl (KeyError (''unknown method: '' @ m)), s)
      | Some f \<Rightarrow> f c d s)"
  by (simp add: call_method_def find_method_def split: option.split)

lemma ecu_method_simps [simp]:
  "ecu_method [] body c [] e = apfst (map_sum id JObj) (body c [] e)"
  "ecu_method [k] body c [(k, v)] e = apfst (map_sum id JObj) (body c [v] e)"
  "k \<noteq> k' \<Longrightarrow> ecu_method [k, k'] body c [(k, v), (k', v')] e = apfst (map_sum id JObj) (body c [v, v'] e)"
  by (simp_all add: ecu_method_def bind_args_def)

lemma call_request:
  "call_method (ecu_methods P) c (JStr (fst (request_call req))) (JObj (snd (request_call req))) e =
    apfst (map_sum id JObj) (handle P c req e)"
proof (cases req)
  case (SecurityAccessSendKey sf key)
  then show ?thesis
    by (simp add: wire_send_key_def bytes_arg_ints subfunction_arg_def guarded_error_def rpc_send_key_def
        ecu_current_pair Let_def split: sum.split)
next
  case (AuthenticateVerifyProof p)
  then show ?thesis
    by (simp add: wire_verify_proof_def bytes_arg_ints rpc_verify_proof_def ecu_current_pair Let_def split: sum.split)
next
  case (InjectReplayNonce n)
  then show ?thesis
    by (simp add: wire_inject_replay_nonce_def bytes_arg_ints rpc_inject_replay_nonce_def split: sum.split)
next
  case (SendUdsPdu sid payload)
  then show ?thesis
    by (auto simp: wire_send_uds_pdu_def pdu_ints rpc_send_uds_pdu_def Suc_le_eq)
qed (simp_all add: wire_session_control_def wire_request_seed_def subfunction_arg_def wire_get_attempt_counter_def
    wire_communicate_certificate_def wire_check_access_def)

section \<open>Responses are JSON values\<close>

lemma wf_replies [simp]:
  "wf_json (JObj (negative nrc))" "wf_json (json_of_ints ns)"
  "wf_json (JObj (positive [(''session_id'', JInt n)]))"
  "wf_json (JObj (positive [(''seed'', json_of_ints ns)]))"
  "wf_json (JObj (positive [(''access_level'', opt_json JStr lv)]))"
  "wf_json (JObj (positive [(''challenge'', json_of_ints ns), (''ecu_cert'', opt_json JStr pem)]))"
  "wf_json (JObj [(''access_level'', opt_json JStr lv)])"
  by (auto simp: negative_def positive_def json_of_ints_def wf_opt_json)

lemma wf_session_control: "fst (rpc_session_control c t e) = Inr d \<Longrightarrow> wf_json (JObj d)"
  unfolding rpc_session_control_def ecu_current_pair Let_def case_prod_unfold
  by (force split: if_splits simp del: wf_json.simps)

lemma wf_request_seed: "fst (rpc_request_seed c sf e) = Inr d \<Longrightarrow> wf_json (JObj d)"
  unfolding rpc_request_seed_def ecu_current_pair Let_def case_prod_unfold
  by (force split: if_splits simp del: wf_json.simps)

lemma wf_decisions:
  "fst (rpc_send_key c sf key e) = Inr d \<Longrightarrow> wf_json (JObj d)"
  "fst (rpc_communicate_certificate P c pem e) = Inr d \<Longrightarrow> wf_json (JObj d)"
  "fst (rpc_verify_proof P c p e) = Inr d \<Longrightarrow> wf_json (JObj d)"
  unfolding rpc_send_key_def rpc_communicate_certificate_def rpc_verify_proof_def ecu_current_pair Let_def
  by (force split: if_splits sum.splits prod.splits simp del: wf_json.simps)+

lemma wf_handle:
  assumes "audit_inv g (e_audit e)" "fst (handle P c req e) = Inr d"
  shows "wf_json (JObj d)"
proof (cases req)
  case GetAuditLog
  with assms show ?thesis
    by (auto simp: rpc_get_audit_log_def entries_def audit_inv_def wf_entry_def)
next
  case (SendUdsPdu sid payload)
  with assms(2) have "fst (rpc_send_uds_pdu c sid payload e) = Inr d" by simp
  with wf_session_control wf_request_seed show ?thesis
    unfolding rpc_send_uds_pdu_def by (force split: if_splits simp del: wf_json.simps)
next
  case GetAccessLevel
  with assms(2) show ?thesis by (auto simp: rpc_get_access_level_def wf_opt_json)
next
  case GetAuthAccessLevel
  with assms(2) show ?thesis by (auto simp: rpc_get_auth_access_level_def wf_opt_json)
next
  case AuthenticateDeauthenticate
  with assms(2) show ?thesis
    by (auto simp: rpc_deauthenticate_def deauthenticate_def ecu_current_pair Let_def negative_def split: if_splits)
qed (use assms(2) wf_session_control wf_request_seed wf_decisions in \<open>auto simp: rpc_get_session_state_def rpc_inject_tamper_def
    rpc_get_attempt_counter_def rpc_check_access_def rpc_inject_replay_nonce_def ecu_current_pair Let_def
    split: sum.splits\<close>)

text \<open>The line of a request and the line that answers it.\<close>

definition request_line :: "request \<Rightarrow> int \<Rightarrow> bytes" where
  "request_line req n = json_line (rpc_request (fst (request_call req)) (snd (request_call req)) n)"

definition reply_line :: "(exn \<Rightarrow> string) \<Rightarrow> exn + dict \<Rightarrow> int \<Rightarrow> bytes" where
  "reply_line T out n =
     json_line (case out of
         Inl ex \<Rightarrow> error_response T ex (JInt n)
       | Inr d \<Rightarrow> result_response (JObj d) (JInt n))"

lemma answer_request:
  "answer T (ecu_methods P) c
      (encode (dumps (JObj (rpc_request (fst (request_call req)) (snd (request_call req)) n)))) e =
    (reply_line T (fst (handle P c req e)) n, snd (handle P c req e))"
proof -
  obtain out e' where h: "handle P c req e = (out, e')" by fastforce
  then show ?thesis
    using call_request [of P c req e]
    by (cases out) (simp_all add: answer_def dispatch_request [OF wf_request_call] reply_line_def
        del: dumps.simps call_method_named)
qed

section \<open>The life cycle\<close>

text \<open>
  \<open>__init__\<close>, \<open>start\<close> and \<open>stop\<close>. After \<open>stop\<close> the session machine is gone, but the threads of the
  open connections still serve requests: a handler that asks for the session raises, the others
  answer from the state that is left.
\<close>

datatype lifecycle = Created | Running ecu | Stopped ecu

definition ecu_port :: "int \<Rightarrow> lifecycle \<Rightarrow> exn + int" where
  "ecu_port server_port l =
     (case l of
        Running _ \<Rightarrow> Inr server_port
      | _ \<Rightarrow> Inl (RuntimeError ''VirtualECU has not been started''))"

definition ecu_stop :: "lifecycle \<Rightarrow> lifecycle" where
  "ecu_stop l = (case l of Running e \<Rightarrow> Stopped e | _ \<Rightarrow> l)"

definition session_gone :: "ecu \<Rightarrow> (exn + dict) \<times> ecu" where
  "session_gone e = (Inl (AttributeError ''current''), e)"

fun handle_stopped :: "request \<Rightarrow> ecu \<Rightarrow> (exn + dict) \<times> ecu" where
  "handle_stopped GetAccessLevel e = rpc_get_access_level e"
| "handle_stopped (GetAttemptCounter lv) e = rpc_get_attempt_counter lv e"
| "handle_stopped GetAuthAccessLevel e = rpc_get_auth_access_level e"
| "handle_stopped (InjectReplayNonce n) e = rpc_inject_replay_nonce n e"
| "handle_stopped GetAuditLog e = rpc_get_audit_log e"
| "handle_stopped InjectTamper e = (Inl (AttributeError ''reset''), e)"
| "handle_stopped (SendUdsPdu sid payload) e =
     (if sid = 0x10 \<and> length payload = 1 \<or> sid = 0x27 \<and> payload \<noteq> [] then session_gone e
      else (Inr (negative (Some 0x13)), e))"
| "handle_stopped _ e = session_gone e"

fun serve_request :: "provider \<Rightarrow> int \<Rightarrow> request \<Rightarrow> lifecycle \<Rightarrow> (exn + dict) option \<times> lifecycle" where
  "serve_request P c req Created = (None, Created)"
| "serve_request P c req (Running e) = (let (out, e') = handle P c req e in (Some out, Running e'))"
| "serve_request P c req (Stopped e) = (let (out, e') = handle_stopped req e in (Some out, Stopped e'))"

section \<open>The connections\<close>

text \<open>
  The server with its open connections: for each the bytes that have arrived and wait for their newline.
  A connection is known by \<open>id(conn)\<close>, which is unique among the connections that are open, and
  its thread takes one line at a time, so the lines of different connections interleave in any
  order. An empty chunk is the end of the connection.
\<close>

record server =
  sv_ecu :: ecu
  sv_conns :: "int \<rightharpoonup> bytes"

datatype server_event = Accept int | Receive int bytes | Serve int

definition serve_one ::
  "(exn \<Rightarrow> string) \<Rightarrow> provider \<Rightarrow> int \<Rightarrow> bytes \<Rightarrow> ecu \<Rightarrow> bytes \<times> bytes \<times> ecu" where
  "serve_one T P c buf e =
     (case split_line buf of
        None \<Rightarrow> ([], buf, e)
      | Some (line, rest) \<Rightarrow>
          if blank line then ([], rest, e)
          else let (out, e') = answer T (ecu_methods P) c line e in (out, rest, e'))"

fun server_step :: "(exn \<Rightarrow> string) \<Rightarrow> provider \<Rightarrow> server_event \<Rightarrow> server \<Rightarrow> bytes \<times> server" where
  "server_step T P (Accept c) s =
     ([], if sv_conns s c = None then s\<lparr>sv_conns := (sv_conns s)(c \<mapsto> [])\<rparr> else s)"
| "server_step T P (Receive c chunk) s =
     ([], case sv_conns s c of
            None \<Rightarrow> s
          | Some buf \<Rightarrow>
              s\<lparr>sv_conns := (sv_conns s)(c := if chunk = [] then None else Some (buf @ chunk))\<rparr>)"
| "server_step T P (Serve c) s =
     (case sv_conns s c of
        None \<Rightarrow> ([], s)
      | Some buf \<Rightarrow>
          (let (out, rest, e) = serve_one T P c buf (sv_ecu s)
           in (out, s\<lparr>sv_ecu := e, sv_conns := (sv_conns s)(c \<mapsto> rest)\<rparr>)))"

lemma serve_one_served: "served P e (snd (snd (serve_one T P c buf e)))"
  using ecu_service.answer_keeps [of P e e T c]
  by (auto simp: serve_one_def Let_def case_prod_unfold split: option.split)

interpretation server_machine: monotone_machine "server_step T P" "\<lambda>_. True"
  "\<lambda>s s'. served P (sv_ecu s) (sv_ecu s')" for T P
proof unfold_locales
  fix s ev
  show "served P (sv_ecu s) (sv_ecu (snd (server_step T P ev s)))"
    by (cases ev) (auto simp: case_prod_unfold Let_def serve_one_served split: option.split)
qed (auto intro: served_trans)

text \<open>One connection on its own: its thread gives the same answers as the loop over its stream.\<close>

lemma serve_one_line:
  "newline \<notin> set line \<Longrightarrow> serve_one T P c (line @ newline # rest) e =
    (let (out, e') = (if blank line then ([], e) else answer T (ecu_methods P) c line e) in (out, rest, e'))"
  by (simp add: serve_one_def case_prod_unfold Let_def)

lemma serve_one_request:
  "serve_one T P c (request_line req n @ buf) e =
    (reply_line T (fst (handle P c req e)) n, buf, snd (handle P c req e))"
  using answer_request [of T P c req n e]
  by (simp add: serve_one_def request_line_def del: dumps.simps)

lemma serve_one_None: "newline \<notin> set buf \<Longrightarrow> serve_one T P c buf e = ([], buf, e)"
  by (simp add: serve_one_def split_line_def)

lemma serve_one_request_Nil:
  "serve_one T P c (request_line req n) e =
    (reply_line T (fst (handle P c req e)) n, [], snd (handle P c req e))"
  using serve_one_request [of T P c req n "[]"] by simp

lemma request_line_neq_Nil [simp]: "request_line req n \<noteq> []"
  by (simp add: request_line_def json_line_def)

lemma serve_one_as_request: "as_request P c e (snd (snd (serve_one T P c buf e)))"
  using ecu_connection.answer_rel [of P c e T]
  by (auto simp: serve_one_def Let_def case_prod_unfold split: option.split)

text \<open>The connection an event of the server belongs to.\<close>

fun event_conn :: "server_event \<Rightarrow> int" where
  "event_conn (Accept c) = c"
| "event_conn (Receive c _) = c"
| "event_conn (Serve c) = c"

definition with_conn :: "int \<Rightarrow> bytes option \<Rightarrow> server \<Rightarrow> server" where
  "with_conn c b s = s\<lparr>sv_conns := (sv_conns s)(c := b)\<rparr>"

text \<open>A step for one connection does not look at the others.\<close>

lemma step_without:
  assumes "event_conn ev \<noteq> c"
  shows "server_step T P ev (with_conn c b s) = (fst (server_step T P ev s), with_conn c b (snd (server_step T P ev s)))"
    and "sv_conns (snd (server_step T P ev s)) c = sv_conns s c"
  unfolding with_conn_def
  using assms by (cases ev; auto simp: fun_upd_twist Let_def case_prod_unfold split: option.split)+

lemma run_without:
  "\<forall>ev \<in> set evs. event_conn ev \<noteq> c \<Longrightarrow>
    run (server_step T P) evs (with_conn c b s) =
      (fst (run (server_step T P) evs s), with_conn c b (snd (run (server_step T P) evs s))) \<and>
    sv_conns (snd (run (server_step T P) evs s)) c = sv_conns s c"
  by (induction evs arbitrary: s) (simp_all add: prod_eq_iff step_without)

section \<open>Properties\<close>

text \<open>The connections whose threads take a line in a run of the server, in order.\<close>

fun served_conns :: "server_event list \<Rightarrow> int list" where
  "served_conns [] = []"
| "served_conns (Serve c # evs) = c # served_conns evs"
| "served_conns (_ # evs) = served_conns evs"

text \<open>C13: Whatever bytes arrive on whatever connections, in whatever chunks and however the threads of the
  connections interleave, the ECU goes through a sequence of requests: at most one for each line that a
  thread takes, made in the name of that thread's own connection. So every theorem about sequences of
  requests holds for the server, for malformed lines and ill-typed arguments too.\<close>

theorem server_refines_ecu:
  "\<exists>calls. subseq (map fst calls) (served_conns evs) \<and>
    sv_ecu (snd (run (server_step T P) evs s)) =
      snd (run (ecu_step P) (map (\<lambda>(c, req). Call c req) calls) (sv_ecu s))"
proof (induction evs arbitrary: s)
  case Nil
  show ?case by (rule exI [of _ "[]"]) simp
next
  case (Cons ev evs)
  let ?s = "snd (server_step T P ev s)"
  obtain calls where calls: "subseq (map fst calls) (served_conns evs)"
    "sv_ecu (snd (run (server_step T P) evs ?s)) =
      snd (run (ecu_step P) (map (\<lambda>(c, req). Call c req) calls) (sv_ecu ?s))"
    using Cons.IH [of ?s] by blast
  have quiet: ?case if "sv_ecu ?s = sv_ecu s"
  proof -
    have "subseq (map fst calls) (served_conns (ev # evs))" using calls(1) by (cases ev) auto
    with calls(2) that show ?thesis by auto
  qed
  show ?case
  proof (cases "sv_ecu ?s = sv_ecu s")
    case False
    then obtain c where c: "ev = Serve c" by (cases ev) (auto split: option.splits)
    have "as_request P c (sv_ecu s) (sv_ecu ?s)"
      using serve_one_as_request [of P c "sv_ecu s" T]
      by (auto simp: c case_prod_unfold Let_def split: option.split)
    with False obtain req where "sv_ecu ?s = snd (handle P c req (sv_ecu s))"
      unfolding as_request_def by blast
    with calls c show ?thesis by (intro exI [of _ "(c, req) # calls"]) simp
  qed (rule quiet)
qed

text \<open>C26: A connection is known by an address that the interpreter uses again, and the ECU learns nothing of the
  end of a connection. A connection whose requests have been answered hangs up; other connections do whatever they
  do; then a connection, of anybody, gets the same \<open>id\<close>. Every later run of the server, with its answers and its final state, is
  then the one in which the first connection had never hung up: if that owned an elevated session and held a
  level, the new connection owns and holds them, and it may use them as the first one could.\<close>

theorem reused_connection_id_inherits:
  assumes "sv_conns s c = Some []" and "\<forall>ev \<in> set evs. event_conn ev \<noteq> c"
  shows "run (server_step T P) ([Receive c []] @ evs @ [Accept c] @ evs') s =
    (let (outs, s1) = run (server_step T P) evs s; (outs', s2) = run (server_step T P) evs' s1
     in ([] # outs @ [] # outs', s2))"
proof -
  let ?s1 = "snd (run (server_step T P) evs s)"
  note without = run_without [OF assms(2), of T P None s]
  have "snd (server_step T P (Receive c []) s) = with_conn c None s" using assms(1) by (simp add: with_conn_def)
  moreover have "snd (server_step T P (Accept c) (with_conn c None ?s1)) = ?s1"
    using without assms(1) by (simp add: with_conn_def fun_upd_idem)
  ultimately show ?thesis using without by (simp add: prod_eq_iff Let_def case_prod_unfold)
qed

theorem reused_connection_id_inherits_witness:
  "let s = \<lparr>sv_ecu = snd (run (ecu_step sample_provider) calibration_run (started_ecu (jump_world 30))), sv_conns = [1 \<mapsto> []]\<rparr> in
    fst (run (server_step (\<lambda>_. ''error'') sample_provider) ([Receive 1 []] @ [Accept 2, Receive 2 [], Accept 3] @ [Accept 1] @
        [Receive 1 (request_line (CheckAccess ''CALIBRATION'') 1), Serve 1]) s) ! 6
      = reply_line (\<lambda>_. ''error'') (Inr [(''granted'', JBool True)]) 1"
  using reused_connection_id_inherits [of _ 1 "[Accept 2, Receive 2 [], Accept 3]" "\<lambda>_. ''error''" sample_provider
      "[Receive 1 (request_line (CheckAccess ''CALIBRATION'') 1), Serve 1]"] calibrated_ecu [of sample_provider]
  by (simp add: serve_one_request_Nil case_prod_unfold Let_def)

text \<open>An ECU that has been stopped decides nothing any more: no answer of it is positive, no level, owner, session
  or counter changes, and its log stays as it is, while connections that are still open get answers.\<close>

theorem stopped_ecu_decides_nothing:
  "let (out, l) = serve_request P c req (ecu_stop (Running e)) in
    (\<exists>ans e'. out = Some ans \<and> l = Stopped e' \<and> (\<forall>d. ans \<noteq> Inr (positive d)) \<and>
      e_sm e' = e_sm e \<and> e_sa e' = e_sa e \<and>
      au_granted (e_auth e') = au_granted (e_auth e) \<and> e_owner e' = e_owner e \<and>
      e_audit e' = e_audit e \<and> au_used_nonces (e_auth e') = au_used_nonces (e_auth e)) \<and>
    ecu_port p l = Inl (RuntimeError ''VirtualECU has not been started'')"
  by (cases req) (auto simp: ecu_stop_def ecu_port_def session_gone_def rpc_get_access_level_def
      rpc_get_attempt_counter_def rpc_get_auth_access_level_def rpc_get_audit_log_def
      rpc_inject_replay_nonce_def inject_pending_nonce_for_test_def positive_def negative_def split: sum.split)

end
