(* ===== verification/Client.thy ===== *)
theory Client
  imports ECU_Server
begin

text \<open>
  The diagnostic client \<open>sim/protocol/client.py\<close>: one operation per RPC method over a connection (the
  parameter \<open>link\<close>), and the composition client, wire, server, ECU: through the server every operation is the
  request of the ECU it stands for.
\<close>

section \<open>The operations\<close>

definition bytes_list :: "bytes \<Rightarrow> json" where
  "bytes_list bs = json_of_ints (list_of_bytes bs)"

definition bytes_of_value :: "json \<Rightarrow> exn + bytes" where
  "bytes_of_value v = (case bytes_arg v of Inl ex \<Rightarrow> Inl ex | Inr ints \<Rightarrow> py_bytes ints)"

definition cl_send_diagnostic_session_control :: "'s link \<Rightarrow> int \<Rightarrow> int \<times> 's \<Rightarrow> (exn + json) \<times> int \<times> 's" where
  "cl_send_diagnostic_session_control link session_id =
     rpc_call link ''diagnostic_session_control'' [(''session_id'', JInt session_id)]"

definition cl_get_session_state :: "'s link \<Rightarrow> int \<times> 's \<Rightarrow> (exn + json) \<times> int \<times> 's" where
  "cl_get_session_state link = rpc_call link ''get_session_state'' []"

definition cl_inject_tamper_event :: "'s link \<Rightarrow> int \<times> 's \<Rightarrow> (exn + json) \<times> int \<times> 's" where
  "cl_inject_tamper_event link = rpc_call link ''inject_tamper'' []"

text \<open>
  \<open>request_seed\<close> turns the seed of a positive answer into \<open>bytes\<close>; it is returned beside the
  dictionary.
\<close>

definition seed_of_response :: "json \<Rightarrow> exn + (dict \<times> bytes option)" where
  "seed_of_response result =
     (case result of
        JObj d \<Rightarrow>
          if truthy (get_json d ''positive'') then
            (case dict_get d ''seed'' of
               None \<Rightarrow> Inl (KeyError ''seed'')
             | Some v \<Rightarrow>
                 (case bytes_of_value v of Inl ex \<Rightarrow> Inl ex | Inr bs \<Rightarrow> Inr (d, Some bs)))
          else Inr (d, None)
      | _ \<Rightarrow> Inl (AttributeError ''get''))"

definition cl_request_seed ::
  "'s link \<Rightarrow> int \<Rightarrow> int \<times> 's \<Rightarrow> (exn + (dict \<times> bytes option)) \<times> int \<times> 's" where
  "cl_request_seed link subfunction st =
     (let (r, st') = rpc_call link ''security_access_request_seed'' [(''subfunction'', JInt subfunction)] st in
      (case r of Inl ex \<Rightarrow> Inl ex | Inr result \<Rightarrow> seed_of_response result, st'))"

definition cl_send_key :: "'s link \<Rightarrow> int \<Rightarrow> bytes \<Rightarrow> int \<times> 's \<Rightarrow> (exn + json) \<times> int \<times> 's" where
  "cl_send_key link subfunction key =
     rpc_call link ''security_access_send_key'' [(''subfunction'', JInt subfunction), (''key'', bytes_list key)]"

definition cl_get_access_level :: "'s link \<Rightarrow> int \<times> 's \<Rightarrow> (exn + json) \<times> int \<times> 's" where
  "cl_get_access_level link = rpc_call link ''get_access_level'' []"

definition cl_get_attempt_counter :: "'s link \<Rightarrow> string \<Rightarrow> int \<times> 's \<Rightarrow> (exn + json) \<times> int \<times> 's" where
  "cl_get_attempt_counter link access_level =
     rpc_call link ''get_attempt_counter'' [(''access_level'', JStr access_level)]"

definition cl_inject_replay_nonce :: "'s link \<Rightarrow> bytes \<Rightarrow> int \<times> 's \<Rightarrow> (exn + json) \<times> int \<times> 's" where
  "cl_inject_replay_nonce link nonce = rpc_call link ''inject_replay_nonce'' [(''nonce'', bytes_list nonce)]"

definition cl_communicate_certificate :: "'s link \<Rightarrow> string \<Rightarrow> int \<times> 's \<Rightarrow> (exn + json) \<times> int \<times> 's" where
  "cl_communicate_certificate link cert_pem =
     rpc_call link ''authenticate_communicate_certificate'' [(''cert_pem'', JStr cert_pem)]"

definition cl_verify_proof :: "'s link \<Rightarrow> bytes \<Rightarrow> int \<times> 's \<Rightarrow> (exn + json) \<times> int \<times> 's" where
  "cl_verify_proof link proof = rpc_call link ''authenticate_verify_proof'' [(''proof'', bytes_list proof)]"

definition cl_deauthenticate :: "'s link \<Rightarrow> int \<times> 's \<Rightarrow> (exn + json) \<times> int \<times> 's" where
  "cl_deauthenticate link = rpc_call link ''authenticate_deauthenticate'' []"

definition cl_get_auth_access_level :: "'s link \<Rightarrow> int \<times> 's \<Rightarrow> (exn + json) \<times> int \<times> 's" where
  "cl_get_auth_access_level link = rpc_call link ''get_auth_access_level'' []"

definition cl_get_audit_log :: "'s link \<Rightarrow> int \<times> 's \<Rightarrow> (exn + json) \<times> int \<times> 's" where
  "cl_get_audit_log link = rpc_call link ''get_audit_log'' []"

definition cl_send_uds_pdu :: "'s link \<Rightarrow> int \<Rightarrow> int list \<Rightarrow> int \<times> 's \<Rightarrow> (exn + json) \<times> int \<times> 's" where
  "cl_send_uds_pdu link service_id payload =
     rpc_call link ''send_uds_pdu'' [(''service_id'', JInt service_id), (''payload'', json_of_ints payload)]"

definition cl_check_access :: "'s link \<Rightarrow> string \<Rightarrow> int \<times> 's \<Rightarrow> (exn + json) \<times> int \<times> 's" where
  "cl_check_access link access_level = rpc_call link ''check_access'' [(''access_level'', JStr access_level)]"

section \<open>The operations are the requests\<close>

text \<open>A request sent over a connection.\<close>

definition client_call :: "'s link \<Rightarrow> request \<Rightarrow> int \<times> 's \<Rightarrow> (exn + json) \<times> int \<times> 's" where
  "client_call link req = rpc_call link (fst (request_call req)) (snd (request_call req))"

lemma client_calls:
  "cl_send_diagnostic_session_control link s = client_call link (DiagnosticSessionControl s)"
  "cl_get_session_state link = client_call link GetSessionState"
  "cl_inject_tamper_event link = client_call link InjectTamper"
  "cl_send_key link sf key = client_call link (SecurityAccessSendKey sf (list_of_bytes key))"
  "cl_get_access_level link = client_call link GetAccessLevel"
  "cl_get_attempt_counter link lv = client_call link (GetAttemptCounter lv)"
  "cl_inject_replay_nonce link nonce = client_call link (InjectReplayNonce (list_of_bytes nonce))"
  "cl_communicate_certificate link pem = client_call link (AuthenticateCommunicateCertificate pem)"
  "cl_verify_proof link p = client_call link (AuthenticateVerifyProof (list_of_bytes p))"
  "cl_deauthenticate link = client_call link AuthenticateDeauthenticate"
  "cl_get_auth_access_level link = client_call link GetAuthAccessLevel"
  "cl_get_audit_log link = client_call link GetAuditLog"
  "cl_send_uds_pdu link sid payload = client_call link (SendUdsPdu sid payload)"
  "cl_check_access link lv = client_call link (CheckAccess lv)"
  by (simp_all add: client_call_def bytes_list_def cl_send_diagnostic_session_control_def
      cl_get_session_state_def cl_inject_tamper_event_def cl_send_key_def cl_get_access_level_def
      cl_get_attempt_counter_def cl_inject_replay_nonce_def cl_communicate_certificate_def
      cl_verify_proof_def cl_deauthenticate_def cl_get_auth_access_level_def cl_get_audit_log_def
      cl_send_uds_pdu_def cl_check_access_def)

lemma cl_request_seed_call:
  "cl_request_seed link sf st =
    (let (r, st') = client_call link (SecurityAccessRequestSeed sf) st in
     (case r of Inl ex \<Rightarrow> Inl ex | Inr result \<Rightarrow> seed_of_response result, st'))"
  by (simp add: cl_request_seed_def client_call_def)

text \<open>What the client sees of the outcome of a request.\<close>

definition client_view :: "(exn \<Rightarrow> string) \<Rightarrow> exn + dict \<Rightarrow> exn + json" where
  "client_view T out = map_sum (\<lambda>ex. RuntimeError (''RPC error from ECU: '' @ str_exn T ex)) JObj out"

abbreviation ecu_link :: "(exn \<Rightarrow> string) \<Rightarrow> provider \<Rightarrow> int \<Rightarrow> ecu link" where
  "ecu_link T P c \<equiv> server_link T (ecu_methods P) c"

lemma client_call_ecu:
  assumes "audit_inv g (e_audit e)"
  shows "client_call (ecu_link T P c) req (n, e) =
    (client_view T (fst (handle P c req e)), n + 1, snd (handle P c req e))"
proof -
  obtain out e' where h: "handle P c req e = (out, e')" by fastforce
  have call: "call_method (ecu_methods P) c (JStr (fst (request_call req))) (JObj (snd (request_call req))) e =
      (map_sum id JObj out, e')"
    using call_request [of P c req e] h by simp
  have wf: "wf_json r" if "fst (call_method (ecu_methods P) c (JStr (fst (request_call req)))
      (JObj (snd (request_call req))) e) = Inr r" for r
  proof -
    from that obtain d where d: "out = Inr d" "r = JObj d" unfolding call by (cases out) auto
    with h wf_handle [OF assms, of P c req d] show ?thesis by (simp del: wf_json.simps)
  qed
  note rpc_call_server [OF wf_request_call, of "ecu_methods P" c "fst (request_call req)" req e T n, OF wf]
  with call h show ?thesis
    unfolding client_call_def client_view_def by (cases out) simp_all
qed

lemma cl_request_seed_ecu:
  assumes "audit_inv g (e_audit e)"
  shows "cl_request_seed (ecu_link T P c) sf (n, e) =
    (case handle P c (SecurityAccessRequestSeed sf) e of
       (Inl ex, e') \<Rightarrow> (Inl (RuntimeError (''RPC error from ECU: '' @ str_exn T ex)), n + 1, e')
     | (Inr d, e') \<Rightarrow> (seed_of_response (JObj d), n + 1, e'))"
  unfolding cl_request_seed_call client_call_ecu [OF assms] client_view_def
  by (simp add: case_prod_unfold split: sum.split)

lemma bytes_of_value_list [simp]: "bytes_of_value (json_of_ints (list_of_bytes bs)) = Inr bs"
  by (simp add: bytes_of_value_def bytes_arg_ints)

lemma reachable_audit: "reachable P e \<Longrightarrow> audit_inv GENESIS_HASH (e_audit e)"
  using reachable_inv by (auto simp: ecu_inv_def)

section \<open>Properties\<close>

text \<open>C10: The wire is transparent. In every state the ECU reaches, a request that the client prints, sends, and
  that the server parses, looks up, binds and answers gives the client what the handler returns: the same
  JSON value, or for an exception a \<open>RuntimeError\<close> with its text; the ECU changes as the handler changes it
  and the call counter goes up by one.\<close>

theorem client_roundtrip:
  assumes "reachable P e"
  shows "rpc_call (ecu_link T P c) (fst (request_call req)) (snd (request_call req)) (n, e) =
    (let (out, e') = handle P c req e in
      (case out of
         Inl ex \<Rightarrow> Inl (RuntimeError (''RPC error from ECU: '' @ str_exn T ex))
       | Inr d \<Rightarrow> Inr (JObj d), n + 1, e'))"
  using client_call_ecu [OF reachable_audit [OF assms], of T P c req n]
  by (auto simp: client_call_def client_view_def case_prod_unfold Let_def split: sum.split)

theorem client_roundtrip_witness:
  "fst (cl_check_access (ecu_link (\<lambda>_. []) sample_provider 1) ''CALIBRATION''
     (3, snd (run (ecu_step sample_provider) calibration_run (started_ecu (jump_world 30))))) =
   Inr (JObj [(''granted'', JBool True)])"
  using client_roundtrip [OF reachable_started, of "\<lambda>_. []" sample_provider 1 "CheckAccess ''CALIBRATION''" 3 calibration_run "jump_world 30"]
    calibrated_ecu [of sample_provider]
  by (simp add: cl_check_access_def case_prod_unfold Let_def)

text \<open>The seed arrives as it was stored. If the ECU answers a requestSeed of the client positively, the client
  holds, as \<open>bytes\<close>, exactly the seed that the ECU keeps for that subfunction and will compare the key
  with.\<close>

theorem seed_arrives:
  assumes "reachable P e"
    and "cl_request_seed (ecu_link T P c) sf (n, e) = (Inr (d, Some seed), n', e')"
  shows "sa_pending_seeds (e_sa e') sf = Some seed \<and> e_mechanism e' = Some ''0x27'' \<and> n' = n + 1"
proof -
  obtain ok sd nrc s' sm' where q: "request_seed sf (e_sa e) (check_timeout (e_sm e)) = ((ok, sd, nrc), s', sm')"
    by (cases "request_seed sf (e_sa e) (check_timeout (e_sm e))") auto
  have neg: "seed_of_response (JObj (negative x)) = Inr (negative x, None)" for x
    by (simp add: seed_of_response_def negative_def)
  have pos: "seed_of_response (JObj (positive [(''seed'', json_of_ints (list_of_bytes bs))])) =
      Inr (positive [(''seed'', json_of_ints (list_of_bytes bs))], Some bs)" for bs
    by (simp add: seed_of_response_def positive_def dict_get_def)
  have "sa_pending_seeds s' = (sa_pending_seeds (e_sa e))(sf := sd) \<and> sd \<noteq> None" if ok
    using q that by (cases rule: request_seed_elim) auto
  with assms(2) q neg pos show ?thesis
    by (auto simp: cl_request_seed_ecu [OF reachable_audit [OF assms(1)]] rpc_request_seed_def ecu_current_pair
        Let_def split: if_splits)
qed

theorem seed_arrives_witness:
  "\<exists>e'. snd (snd (cl_request_seed (ecu_link (\<lambda>_. []) sample_provider 1) 1
       (0, snd (run (ecu_step sample_provider) (take 1 calibration_run) (started_ecu (jump_world 30)))))) = e' \<and>
     sa_pending_seeds (e_sa e') 1 = Some (replicate 32 0)"
proof -
  let ?e = "snd (run (ecu_step sample_provider) (take 1 calibration_run) (started_ecu (jump_world 30)))"
  obtain d n' e' where "cl_request_seed (ecu_link (\<lambda>_. []) sample_provider 1) 1 (0, ?e) = (Inr (d, Some (replicate 32 0)), n', e')"
    by (simp add: cl_request_seed_ecu [OF reachable_audit [OF reachable_started]])
      (simp add: calibration_run_def ecu_eval seed_of_response_def positive_def dict_get_def)
  with seed_arrives [OF reachable_started this] show ?thesis by simp
qed

end
