(* ===== verification/Bridge.thy ===== *)
theory Bridge
  imports Coroutine Client
begin

text \<open>
  The WebSocket bridge of the dashboard, \<open>sim/protocol/uds_server.py\<close>: it boots an ECU and a diagnostic
  client, turns the commands of the browsers into operations of the client and broadcasts what it learns.

  An \<open>async def\<close> is a coroutine on the bridge's state. The calls of the client are synchronous and block the event
  loop; the coroutines are suspended only while a browser's socket is sent a message. What is sent is collected in the
  state. The event loop that runs the coroutines is in \<open>Bridge_Loop\<close>. The labels contain an arrow,
  a dash and an ellipsis above U+00FF, written in ASCII here. Logging and the command line are left out.
\<close>

section \<open>State\<close>

text \<open>
  What the bridge gets from the libraries: fresh key material, signature nonces and serial numbers, the ids
  of the client's connections, and which sockets turn out to be closed at a broadcast.
\<close>

record lab =
  lb_provider :: provider
  lb_text :: "exn \<Rightarrow> string"
  lb_random :: "nat \<Rightarrow> bytes"
  lb_serial :: "nat \<Rightarrow> int"
  lb_conn_id :: "nat \<Rightarrow> int"
  lb_closed :: "int \<Rightarrow> nat \<Rightarrow> bool"

text \<open>
  \<open>ServerState\<close>. The client is its connection and its call counter; it exists when the ECU does. The
  clocks are those of the ECU's process; before the first boot they are kept in \<open>br_world\<close>.
\<close>

record bridge =
  br_ecu :: "ecu option"
  br_conn :: int
  br_next_id :: int
  br_cert_store :: "cert_store option"
  br_clients :: "int list"
  br_last_seed :: "bytes option"
  br_pending_level :: json
  br_session_start :: "seconds option"
  br_world :: world
  br_draws :: nat
  br_sends :: nat
  br_sent :: "(int \<times> string) list"

definition server_state_init :: "world \<Rightarrow> bridge" where
  "server_state_init w =
     \<lparr>br_ecu = None, br_conn = 0, br_next_id = 0, br_cert_store = None, br_clients = [],
      br_last_seed = None, br_pending_level = JNull, br_session_start = None, br_world = w,
      br_draws = 0, br_sends = 0, br_sent = []\<rparr>"

definition MAX_TIMER :: int where "MAX_TIMER = 300"

type_synonym 'a act = "(bridge, 'a) coroutine"

section \<open>The clocks and the client\<close>

definition bridge_monotonic :: "seconds act" where
  "bridge_monotonic = atomic (\<lambda>s.
     case br_ecu s of
       None \<Rightarrow> (let (t, w) = monotonic (br_world s) in (Inr t, s\<lparr>br_world := w\<rparr>))
     | Some e \<Rightarrow> (let (t, sm) = monotonic (e_sm e) in (Inr t, s\<lparr>br_ecu := Some (e\<lparr>e_sm := sm\<rparr>)\<rparr>)))"

definition bridge_utcnow :: "datetime act" where
  "bridge_utcnow = atomic (\<lambda>s.
     case br_ecu s of
       None \<Rightarrow> (let (t, w) = utcnow (br_world s) in (Inr t, s\<lparr>br_world := w\<rparr>))
     | Some e \<Rightarrow> (let (t, sm) = utcnow (e_sm e) in (Inr t, s\<lparr>br_ecu := Some (e\<lparr>e_sm := sm\<rparr>)\<rparr>)))"

text \<open>An operation of the client over its connection to the ECU.\<close>

definition on_client ::
  "lab \<Rightarrow> (ecu link \<Rightarrow> int \<times> ecu \<Rightarrow> (exn + 'a) \<times> int \<times> ecu) \<Rightarrow> 'a act" where
  "on_client L f = atomic (\<lambda>s.
     case br_ecu s of
       None \<Rightarrow> (Inl (AttributeError ''client''), s)
     | Some e \<Rightarrow>
         (let (r, n, e') = f (ecu_link (lb_text L) (lb_provider L) (br_conn s)) (br_next_id s, e)
          in (r, s\<lparr>br_next_id := n, br_ecu := Some e'\<rparr>)))"

text \<open>\<open>resp.get(k)\<close> and \<open>resp.get(k, default)\<close> need a dictionary.\<close>

definition as_dict :: "json \<Rightarrow> dict act" where
  "as_dict j = (case j of JObj d \<Rightarrow> return_act d | _ \<Rightarrow> raise_act (AttributeError ''get''))"

definition call_dict ::
  "lab \<Rightarrow> (ecu link \<Rightarrow> int \<times> ecu \<Rightarrow> (exn + json) \<times> int \<times> ecu) \<Rightarrow> dict act" where
  "call_dict L f = bind_act (on_client L f) as_dict"

definition get_default :: "dict \<Rightarrow> string \<Rightarrow> json \<Rightarrow> json" where
  "get_default d k v = (case dict_get d k of None \<Rightarrow> v | Some x \<Rightarrow> x)"

section \<open>Boot\<close>

text \<open>\<open>CertStore.generate_in_memory()\<close> with three fresh keys and serial numbers, a new ECU with a delay of 2
  seconds, a new connection of the client.\<close>

definition boot :: "lab \<Rightarrow> bridge \<Rightarrow> (exn + unit) \<times> bridge" where
  "boot L s =
     (let w = (case br_ecu s of None \<Rightarrow> br_world s | Some e \<Rightarrow> world.truncate (e_sm e));
          (now, w) = utcnow w;
          k = br_draws s;
          cs = generate_in_memory (lb_provider L) [] now
                 (lb_random L k, lb_random L (k + 1), lb_random L (k + 2))
                 (lb_serial L k, lb_serial L (k + 1), lb_serial L (k + 2)) in
      (case ecu_start ecu_policy None (Some cs) (Some 2) None w of
         Inl ex \<Rightarrow> (Inl ex, s\<lparr>br_cert_store := Some cs\<rparr>)
       | Inr e \<Rightarrow>
           (Inr (),
            s\<lparr>br_cert_store := Some cs, br_ecu := Some e, br_conn := lb_conn_id L k, br_next_id := 0,
              br_draws := k + 3, br_last_seed := None, br_pending_level := JNull,
              br_session_start := None\<rparr>)))"

section \<open>Broadcasts\<close>

text \<open>
  \<open>await ws.send(data)\<close> either hands over the message or finds the connection closed, and is suspended; the
  sockets found closed are forgotten when all have been served. A socket that has been added in the meantime
  gets nothing.
\<close>

definition ws_send :: "lab \<Rightarrow> int \<Rightarrow> string \<Rightarrow> bool act" where
  "ws_send L ws data =
     bind_act
       (atomic (\<lambda>s.
          let closed = lb_closed L ws (br_sends s) in
          (Inr closed,
           s\<lparr>br_sends := br_sends s + 1, br_sent := (if closed then br_sent s else br_sent s @ [(ws, data)])\<rparr>)))
       (\<lambda>closed. Await (return_act closed))"

fun send_all :: "lab \<Rightarrow> string \<Rightarrow> int list \<Rightarrow> int set \<Rightarrow> unit act" where
  "send_all L data [] dead =
     modify_act (\<lambda>s. s\<lparr>br_clients := filter (\<lambda>ws. ws \<notin> dead) (br_clients s)\<rparr>)"
| "send_all L data (ws # wss) dead =
     bind_act (ws_send L ws data) (\<lambda>closed. send_all L data wss (if closed then insert ws dead else dead))"

definition broadcast :: "lab \<Rightarrow> dict \<Rightarrow> unit act" where
  "broadcast L msg =
     unless_act (\<lambda>s. br_clients s = [])
       (with_state (\<lambda>s. send_all L (dumps (JObj msg)) (br_clients s) {}))"

definition now_iso :: "string act" where
  "now_iso = bind_act bridge_utcnow (\<lambda>now. return_act (isoformat now))"

definition push_uds :: "lab \<Rightarrow> string \<Rightarrow> string \<Rightarrow> string \<Rightarrow> string \<Rightarrow> string \<Rightarrow> unit act" where
  "push_uds L direction service sub result data =
     bind_act now_iso (\<lambda>ts.
       broadcast L
         [(''type'', JStr ''uds_message''), (''ts'', JStr ts), (''direction'', JStr direction),
          (''service'', JStr service), (''sub'', JStr sub), (''result'', JStr result),
          (''data'', JStr data)])"

definition push_session :: "lab \<Rightarrow> json \<Rightarrow> int \<Rightarrow> unit act" where
  "push_session L session timer =
     broadcast L
       [(''type'', JStr ''session_update''), (''session'', session), (''timer_remaining'', JInt timer)]"

definition push_access :: "lab \<Rightarrow> json \<Rightarrow> unit act" where
  "push_access L level = broadcast L [(''type'', JStr ''access_level_update''), (''level'', level)]"

definition push_auth_level :: "lab \<Rightarrow> string \<Rightarrow> json \<Rightarrow> bool \<Rightarrow> unit act" where
  "push_auth_level L lv attempts is_locked =
     broadcast L
       [(''type'', JStr ''auth_update''), (''level'', JStr lv), (''attempts'', attempts),
        (''locked'', JBool is_locked), (''lockout_remaining'', JInt 0), (''delay_remaining'', JInt 0)]"

text \<open>The entries of an answer to \<open>get_audit_log\<close>, as \<open>verify_chain\<close> reads them.\<close>

fun dicts_of :: "json list \<Rightarrow> exn + dict list" where
  "dicts_of [] = Inr []"
| "dicts_of (JObj d # xs) = map_sum id (Cons d) (dicts_of xs)"
| "dicts_of (_ # xs) = Inl (AttributeError ''get'')"

definition audit_entries :: "dict \<Rightarrow> exn + dict list" where
  "audit_entries result =
     (case get_default result ''entries'' (JArr []) of
        JArr xs \<Rightarrow> dicts_of xs
      | _ \<Rightarrow> Inl (TypeError ''entries''))"

definition audit_message :: "dict \<Rightarrow> bool \<Rightarrow> dict" where
  "audit_message entry chain_valid =
     [(''type'', JStr ''audit_entry''), (''entry'', JObj entry), (''chain_valid'', JBool chain_valid)]"

definition push_audit_entries :: "lab \<Rightarrow> unit act" where
  "push_audit_entries L =
     unless_act (\<lambda>s. br_ecu s = None)
       (attempt_act
        (bind_act (call_dict L cl_get_audit_log) (\<lambda>result.
         bind_act (of_sum (audit_entries result)) (\<lambda>entries.
         seq_act (map (\<lambda>e. broadcast L (audit_message e (verify_chain entries GENESIS_HASH))) entries)))))"

definition push_audit_tail :: "lab \<Rightarrow> unit act" where
  "push_audit_tail L =
     unless_act (\<lambda>s. br_ecu s = None)
       (attempt_act
        (bind_act (call_dict L cl_get_audit_log) (\<lambda>result.
         bind_act (of_sum (audit_entries result)) (\<lambda>entries.
         if entries = [] then return_act ()
         else broadcast L (audit_message (last entries) (verify_chain entries GENESIS_HASH))))))"

text \<open>\<open>{1: "default", 3: "extended", 2: "programming"}.get(id, "default")\<close>\<close>

definition session_name :: "json \<Rightarrow> string" where
  "session_name j =
     (if j = JInt 3 then ''extended'' else if j = JInt 2 then ''programming'' else ''default'')"

text \<open>\<open>max(0, _SESSION_TIMEOUT - int(elapsed))\<close>; a start time of 0 counts as none.\<close>

definition py_trunc :: "seconds \<Rightarrow> int" where
  "py_trunc r = (if 0 \<le> r then \<lfloor>r\<rfloor> else \<lceil>r\<rceil>)"

definition timer_remaining :: "seconds \<Rightarrow> int" where
  "timer_remaining elapsed = max 0 (MAX_TIMER - py_trunc elapsed)"

definition session_elapsed :: "seconds act" where
  "session_elapsed = with_state (\<lambda>s.
     case br_session_start s of
       None \<Rightarrow> return_act 0
     | Some t \<Rightarrow> if t = 0 then return_act 0 else bind_act bridge_monotonic (\<lambda>now. return_act (now - t)))"

definition dashboard_levels :: "string list" where
  "dashboard_levels = [''CALIBRATION'', ''ECU_PROGRAMMING'', ''ENGINEERING'', ''FULL_ACCESS'']"

definition attempt_count :: "lab \<Rightarrow> string \<Rightarrow> json act" where
  "attempt_count L lv =
     bind_act (call_dict L (\<lambda>link. cl_get_attempt_counter link lv))
       (\<lambda>d. return_act (get_default d ''count'' (JInt 0)))"

fun snapshot_levels :: "lab \<Rightarrow> string list \<Rightarrow> dict act" where
  "snapshot_levels L [] = return_act []"
| "snapshot_levels L (lv # lvs) =
     bind_act (attempt_count L lv) (\<lambda>cnt.
     bind_act (snapshot_levels L lvs) (\<lambda>rest.
     return_act
       ((lv, JObj [(''attempts'', cnt), (''locked'', JBool False), (''lockout_remaining'', JInt 0),
                   (''delay_remaining'', JInt 0)]) # rest)))"

definition push_snapshot :: "lab \<Rightarrow> unit act" where
  "push_snapshot L =
     unless_act (\<lambda>s. br_ecu s = None)
       (attempt_act
        (bind_act (call_dict L cl_get_session_state) (\<lambda>sess_resp.
         bind_act (call_dict L cl_get_access_level) (\<lambda>acc_resp.
         bind_act (call_dict L cl_get_auth_access_level) (\<lambda>auth_resp.
         bind_act (call_dict L cl_get_audit_log) (\<lambda>audit_resp.
         bind_act session_elapsed (\<lambda>elapsed.
         bind_act (snapshot_levels L dashboard_levels) (\<lambda>levels.
         bind_act (of_sum (audit_entries audit_resp)) (\<lambda>entries.
         let acc = get_json acc_resp ''access_level'';
             access_level = (if truthy acc then acc else get_json auth_resp ''access_level'') in
         seq_act
           (broadcast L
              [(''type'', JStr ''snapshot''),
               (''session'', JStr (session_name (get_default sess_resp ''session_id'' (JInt 1)))),
               (''access_level'', access_level), (''mechanism'', JNull),
               (''timer'', JInt (timer_remaining elapsed)), (''auth_levels'', JObj levels)] #
            map (\<lambda>e. broadcast L (audit_message e (verify_chain entries GENESIS_HASH))) entries))))))))))"

section \<open>Commands\<close>

text \<open>\<open>d.get(level, default)\<close> on a table with string keys: a list or a dictionary cannot be looked up.\<close>

definition table_get :: "(string \<rightharpoonup> 'a) \<Rightarrow> json \<Rightarrow> 'a \<Rightarrow> 'a act" where
  "table_get tab j other =
     (case j of
        JStr s \<Rightarrow> return_act (case tab s of None \<Rightarrow> other | Some x \<Rightarrow> x)
      | JArr _ \<Rightarrow> raise_act (TypeError ''unhashable type'')
      | JObj _ \<Rightarrow> raise_act (TypeError ''unhashable type'')
      | _ \<Rightarrow> return_act other)"

text \<open>The subfunctions of a level, seed and key.\<close>

definition SF :: "string \<rightharpoonup> int \<times> int" where
  "SF = [''calibration'' \<mapsto> (0x01, 0x02), ''ecu_programming'' \<mapsto> (0x03, 0x04)]"

definition sf_of :: "json \<Rightarrow> (int \<times> int) act" where
  "sf_of level = table_get SF level (0x01, 0x02)"

definition session_target :: "string \<rightharpoonup> int" where
  "session_target = [''default'' \<mapsto> 0x01, ''extended'' \<mapsto> 0x03, ''programming'' \<mapsto> 0x02]"

text \<open>\<open>f"NRC {hex(resp.get("nrc", 0))}"\<close>\<close>

definition nrc_text :: "dict \<Rightarrow> string act" where
  "nrc_text resp =
     (case get_default resp ''nrc'' (JInt 0) of
        JInt n \<Rightarrow> return_act (''NRC '' @ hex_int n)
      | JBool b \<Rightarrow> return_act (''NRC '' @ hex_int (of_bool b))
      | _ \<Rightarrow> raise_act (TypeError ''hex''))"

definition push_nrc :: "lab \<Rightarrow> string \<Rightarrow> dict \<Rightarrow> unit act" where
  "push_nrc L service resp =
     bind_act (nrc_text resp) (\<lambda>txt. push_uds L ''ecu->client'' service ''0x7F'' ''NRC'' txt)"

definition cmd_session :: "lab \<Rightarrow> dict \<Rightarrow> unit act" where
  "cmd_session L msg =
     (let target = get_default msg ''target'' (JStr ''default'') in
      bind_act (table_get session_target target 0x01) (\<lambda>session_id.
      bind_act (push_uds L ''client->ecu'' ''0x10'' (hex_int session_id) ''request'' '''') (\<lambda>_.
      bind_act (call_dict L (\<lambda>link. cl_send_diagnostic_session_control link session_id)) (\<lambda>resp.
      if truthy (get_json resp ''positive'') then
        seq_act
          [if session_id \<noteq> 0x01
           then bind_act bridge_monotonic (\<lambda>now. modify_act (\<lambda>s. s\<lparr>br_session_start := Some now\<rparr>))
           else return_act (),
           push_uds L ''ecu->client'' ''0x10'' (hex_int session_id) ''positive'' (''session='' @ py_str target),
           push_session L target (if session_id \<noteq> 0x01 then MAX_TIMER else 0),
           push_audit_tail L]
      else push_nrc L ''0x10'' resp))))"

definition level_secret :: "json \<Rightarrow> string" where
  "level_secret level =
     (if level = JStr ''calibration'' then ''sim-calibration-secret-dev-only''
      else ''sim-programming-secret-dev-only'')"

definition cmd_seed :: "lab \<Rightarrow> dict \<Rightarrow> unit act" where
  "cmd_seed L msg =
     (let level = get_default msg ''level'' (JStr ''calibration'') in
      bind_act (sf_of level) (\<lambda>(sf, _).
      bind_act (push_uds L ''client->ecu'' ''0x27'' (hex_int sf) ''request'' ''requestSeed'') (\<lambda>_.
      bind_act (on_client L (\<lambda>link. cl_request_seed link sf)) (\<lambda>(resp, seed_bytes).
      case seed_bytes of
        Some seed \<Rightarrow>
          (let hmac_key = hex_bytes (compute_key_hmac_sha256 seed (level_secret level)) in
           seq_act
             [modify_act (\<lambda>s. s\<lparr>br_last_seed := Some seed, br_pending_level := level\<rparr>),
              push_uds L ''ecu->client'' ''0x27'' (hex_int sf) ''positive''
                (''seed='' @ take 16 (hex_bytes seed) @ ''...''),
              broadcast L
                [(''type'', JStr ''seed_response''), (''seed'', JStr (hex_bytes seed)), (''level'', level),
                 (''hmac_key'', JStr hmac_key)],
              broadcast L [(''type'', JStr ''mechanism_update''), (''mechanism'', JStr ''0x27'')]])
      | None \<Rightarrow> push_nrc L ''0x27'' resp))))"

text \<open>\<open>bytes.fromhex(key_hex.replace(" ", ""))\<close>: pairs of hex digits, with white space between them.\<close>

definition hex_space :: "char \<Rightarrow> bool" where
  "hex_space c \<longleftrightarrow> c = CHR '' '' \<or> (let n = of_char c :: nat in 9 \<le> n \<and> n \<le> 13)"

fun from_hex :: "string \<Rightarrow> bytes option" where
  "from_hex [] = Some []"
| "from_hex (c # cs) =
     (if hex_space c then from_hex cs
      else
        (case cs of
           [] \<Rightarrow> None
         | d # ds \<Rightarrow>
             (case (digit_val c, digit_val d) of
                (Some h, Some l) \<Rightarrow> map_option (Cons (word_of_nat (16 * h + l))) (from_hex ds)
              | _ \<Rightarrow> None)))"

definition hex_key :: "json \<Rightarrow> exn + bytes option" where
  "hex_key j =
     (case j of
        JStr s \<Rightarrow> Inr (from_hex (filter (\<lambda>c. c \<noteq> CHR '' '') s))
      | _ \<Rightarrow> Inl (AttributeError ''replace''))"

text \<open>\<open>str.upper\<close>, for ASCII letters.\<close>

definition upper_char :: "char \<Rightarrow> char" where
  "upper_char c =
     (let n = of_char c :: nat in if 97 \<le> n \<and> n \<le> 122 then char_of (n - 32) else c)"

definition upper_arg :: "json \<Rightarrow> exn + string" where
  "upper_arg j = (case j of JStr s \<Rightarrow> Inr (map upper_char s) | _ \<Rightarrow> Inl (AttributeError ''upper''))"

definition push_counters :: "lab \<Rightarrow> string list \<Rightarrow> unit act" where
  "push_counters L lvs =
     seq_act (map (\<lambda>lv. bind_act (attempt_count L lv) (\<lambda>cnt. push_auth_level L lv cnt False)) lvs)"

definition cmd_key :: "lab \<Rightarrow> dict \<Rightarrow> unit act" where
  "cmd_key L msg =
     (let level = get_default msg ''level'' (JStr ''calibration'');
          key_hex = get_default msg ''key'' (JStr '''') in
      bind_act (sf_of level) (\<lambda>(_, sf).
      bind_act (of_sum (hex_key key_hex)) (\<lambda>key.
      case key of
        None \<Rightarrow> broadcast L [(''type'', JStr ''error''), (''msg'', JStr ''Invalid hex key'')]
      | Some key_bytes \<Rightarrow>
          bind_act (push_uds L ''client->ecu'' ''0x27'' (hex_int sf) ''request'' ''sendKey'') (\<lambda>_.
          bind_act (call_dict L (\<lambda>link. cl_send_key link sf key_bytes)) (\<lambda>resp.
          if truthy (get_json resp ''positive'') then
            (let al = get_default resp ''access_level'' (JStr '''') in
             seq_act
               [push_uds L ''ecu->client'' ''0x27'' (hex_int sf) ''positive'' (''GRANTED '' @ py_str al),
                push_access L al,
                bind_act (of_sum (upper_arg al)) (\<lambda>up.
                bind_act (attempt_count L up) (\<lambda>cnt. push_auth_level L up cnt False)),
                push_audit_tail L])
          else
            seq_act
              [push_nrc L ''0x27'' resp,
               push_counters L [''CALIBRATION'', ''ECU_PROGRAMMING''],
               push_audit_tail L])))))"

text \<open>\<open>_state.cert_store.<attribute>\<close>, and a signature with the tester's key.\<close>

definition with_store :: "(cert_store \<Rightarrow> 'a act) \<Rightarrow> 'a act" where
  "with_store f = with_state (\<lambda>s.
     case br_cert_store s of None \<Rightarrow> raise_act (AttributeError ''cert_store'') | Some cs \<Rightarrow> f cs)"

definition fresh_random :: "lab \<Rightarrow> bytes act" where
  "fresh_random L = atomic (\<lambda>s. (Inr (lb_random L (br_draws s)), s\<lparr>br_draws := br_draws s + 1\<rparr>))"

definition tester_sign :: "lab \<Rightarrow> bytes \<Rightarrow> bytes act" where
  "tester_sign L data =
     with_store (\<lambda>cs. bind_act (fresh_random L) (\<lambda>k.
       return_act (sign_ecdsa (lb_provider L) (cs_tester_key cs) k data)))"

text \<open>\<open>bytes(resp["challenge"])\<close>\<close>

definition challenge_of :: "dict \<Rightarrow> exn + bytes" where
  "challenge_of resp =
     (case dict_get resp ''challenge'' of
        None \<Rightarrow> Inl (KeyError ''challenge'')
      | Some v \<Rightarrow> bytes_of_value v)"

definition cmd_auth :: "lab \<Rightarrow> unit act" where
  "cmd_auth L =
     bind_act (call_dict L cl_get_session_state) (\<lambda>_.
     with_store (\<lambda>cs.
     bind_act (push_uds L ''client->ecu'' ''0x29'' ''0x11'' ''request'' ''communicateCertificate'') (\<lambda>_.
     bind_act (call_dict L (\<lambda>link. cl_communicate_certificate link (tester_cert_pem (lb_provider L) cs)))
       (\<lambda>resp.
     if \<not> truthy (get_json resp ''positive'') then push_nrc L ''0x29'' resp
     else
       bind_act (of_sum (challenge_of resp)) (\<lambda>challenge.
       bind_act (push_uds L ''ecu->client'' ''0x29'' ''0x11'' ''positive''
           (''challenge='' @ take 16 (hex_bytes challenge) @ ''...'')) (\<lambda>_.
       bind_act (tester_sign L challenge) (\<lambda>proof.
       bind_act (push_uds L ''client->ecu'' ''0x29'' ''0x12'' ''request'' ''verifyProof'') (\<lambda>_.
       bind_act (call_dict L (\<lambda>link. cl_verify_proof link proof)) (\<lambda>resp2.
       if truthy (get_json resp2 ''positive'') then
         (let al = get_default resp2 ''access_level'' (JStr '''') in
          seq_act
            [push_uds L ''ecu->client'' ''0x29'' ''0x12'' ''positive'' (''GRANTED '' @ py_str al),
             push_access L al,
             broadcast L [(''type'', JStr ''mechanism_update''), (''mechanism'', JStr ''0x29'')],
             push_audit_tail L])
       else seq_act [push_nrc L ''0x29'' resp2, push_audit_tail L]))))))))) "

definition cmd_deauth :: "lab \<Rightarrow> unit act" where
  "cmd_deauth L =
     seq_act
       [push_uds L ''client->ecu'' ''0x29'' ''0x00'' ''request'' ''deAuthenticate'',
        bind_act (on_client L cl_deauthenticate) (\<lambda>_. return_act ()),
        push_uds L ''ecu->client'' ''0x29'' ''0x00'' ''positive'' ''deAuthenticated'',
        push_access L JNull,
        push_audit_tail L]"

definition cmd_tamper :: "lab \<Rightarrow> unit act" where
  "cmd_tamper L =
     seq_act
       [push_uds L ''client->ecu'' ''SIM'' ''-'' ''inject'' ''tamper event'',
        bind_act (on_client L cl_inject_tamper_event) (\<lambda>_. return_act ()),
        broadcast L [(''type'', JStr ''tamper''), (''triggered'', JBool True)],
        push_session L (JStr ''default'') 0,
        push_access L JNull,
        push_audit_tail L]"

definition cmd_wrong_key :: "lab \<Rightarrow> dict \<Rightarrow> unit act" where
  "cmd_wrong_key L msg =
     (let level = get_default msg ''level'' (JStr ''calibration'') in
      bind_act (sf_of level) (\<lambda>(sf_seed, sf_key).
      bind_act (on_client L (\<lambda>link. cl_request_seed link sf_seed)) (\<lambda>(_, seed_bytes).
      if seed_bytes = None then return_act ()
      else
        bind_act (push_uds L ''client->ecu'' ''0x27'' (hex_int sf_key) ''inject'' ''wrong key'') (\<lambda>_.
        bind_act (call_dict L (\<lambda>link. cl_send_key link sf_key (replicate 32 0))) (\<lambda>resp.
        seq_act
          [push_nrc L ''0x27'' resp,
           push_counters L [''CALIBRATION'', ''ECU_PROGRAMMING''],
           push_audit_tail L])))))"

text \<open>A certificate of the root for a fresh key that ended a second ago.\<close>

definition expired_cert :: "lab \<Rightarrow> cert_store \<Rightarrow> datetime \<Rightarrow> bytes \<Rightarrow> int \<Rightarrow> certificate" where
  "expired_cert L cs now key serial =
     sign_cert (lb_provider L)
       \<lparr>req_subject = common_name ''ExpiredTester'', req_issuer = cert_subject (cs_root_ca_cert cs),
        req_public_key = public_key_of (lb_provider L) key, req_serial = serial,
        req_not_before = plus_micros now (- 730 * micros_per_day),
        req_not_after = plus_micros now (- micros_per_second), req_ca = False\<rparr>
       (cs_root_ca_key cs)"

definition cmd_expired_cert :: "lab \<Rightarrow> unit act" where
  "cmd_expired_cert L =
     bind_act bridge_utcnow (\<lambda>now.
     bind_act (get_act br_draws) (\<lambda>k.
     bind_act (fresh_random L) (\<lambda>key.
     with_store (\<lambda>cs.
     let pem = pem_of_cert (lb_provider L) (expired_cert L cs now key (lb_serial L k)) in
     bind_act (push_uds L ''client->ecu'' ''0x29'' ''0x11'' ''inject'' ''expired cert'') (\<lambda>_.
     bind_act (call_dict L (\<lambda>link. cl_communicate_certificate link pem)) (\<lambda>resp.
     push_nrc L ''0x29'' resp))))))"

definition cmd_replay :: "lab \<Rightarrow> unit act" where
  "cmd_replay L =
     bind_act (get_act br_last_seed) (\<lambda>last_seed.
     if last_seed = None
     then broadcast L [(''type'', JStr ''error''), (''msg'', JStr ''No prior seed to replay'')]
     else with_store (\<lambda>cs.
       let tpem = tester_cert_pem (lb_provider L) cs in
       bind_act (call_dict L (\<lambda>link. cl_communicate_certificate link tpem)) (\<lambda>r.
       if \<not> truthy (get_json r ''positive'') then return_act ()
       else
         bind_act (of_sum (challenge_of r)) (\<lambda>nonce.
         bind_act (tester_sign L nonce) (\<lambda>proof.
         bind_act (on_client L (\<lambda>link. cl_verify_proof link proof)) (\<lambda>_.
         bind_act (on_client L (\<lambda>link. cl_communicate_certificate link tpem)) (\<lambda>_.
         bind_act (on_client L (\<lambda>link. cl_inject_replay_nonce link nonce)) (\<lambda>_.
         bind_act (push_uds L ''client->ecu'' ''0x29'' ''0x12'' ''inject'' ''replay nonce'') (\<lambda>_.
         bind_act (call_dict L (\<lambda>link. cl_verify_proof link proof)) (\<lambda>resp.
         seq_act [push_nrc L ''0x29'' resp, push_audit_tail L]))))))))))"

definition cmd_power_cycle :: "lab \<Rightarrow> unit act" where
  "cmd_power_cycle L =
     seq_act
       [atomic (boot L),
        broadcast L
          [(''type'', JStr ''session_update''), (''session'', JStr ''default''), (''timer_remaining'', JInt 0)],
        push_access L JNull,
        broadcast L [(''type'', JStr ''tamper''), (''triggered'', JBool False)],
        push_snapshot L]"

definition handle_cmd :: "lab \<Rightarrow> json \<Rightarrow> unit act" where
  "handle_cmd L j =
     bind_act (as_dict j) (\<lambda>msg.
     let cmd = get_json msg ''cmd'' in
     if cmd = JStr ''snapshot'' then push_snapshot L
     else if cmd = JStr ''session'' then cmd_session L msg
     else if cmd = JStr ''0x27_seed'' then cmd_seed L msg
     else if cmd = JStr ''0x27_key'' then cmd_key L msg
     else if cmd = JStr ''0x29_auth'' then cmd_auth L
     else if cmd = JStr ''0x29_deauth'' then cmd_deauth L
     else if cmd = JStr ''inject_tamper'' then cmd_tamper L
     else if cmd = JStr ''inject_wrong_key'' then cmd_wrong_key L msg
     else if cmd = JStr ''inject_expired_cert'' then cmd_expired_cert L
     else if cmd = JStr ''inject_replay_nonce'' then cmd_replay L
     else if cmd = JStr ''power_cycle'' then cmd_power_cycle L
     else return_act ())"

section \<open>The poll\<close>

text \<open>One round of \<open>periodic_push\<close>.\<close>

definition periodic_push :: "lab \<Rightarrow> unit act" where
  "periodic_push L =
     unless_act (\<lambda>s. br_ecu s = None \<or> br_clients s = [])
       (attempt_act
        (bind_act (call_dict L cl_get_session_state) (\<lambda>sess_resp.
         bind_act session_elapsed (\<lambda>elapsed.
         seq_act
           [broadcast L
              [(''type'', JStr ''session_update''),
               (''session'', JStr (session_name (get_default sess_resp ''session_id'' (JInt 1)))),
               (''timer_remaining'', JInt (timer_remaining elapsed))],
            push_counters L dashboard_levels]))))"

end
