(* ===== verification/Bridge_Safety.thy ===== *)
theory Bridge_Safety
  imports Bridge
begin

text \<open>
  What the bridge can do to the ECU. The locale \<open>act_relation\<close> of the coroutines is interpreted three times: for
  operations that only look at the ECU, for operations that act on it by some requests on the client's own
  connection, and for the invariant that the ECU is a reachable one. The relations are shown of the atomic steps,
  so they hold of the parts of a command whatever runs in between. The properties here are about an
  operation that runs alone; \<open>Bridge_Loop\<close> has the interleavings.
\<close>

section \<open>Operations that look at their arguments only\<close>

lemma does_pure:
  "does rel (as_dict j)" "does rel (table_get tab j d)" "does rel (nrc_text resp)" "does rel (sf_of level)"
  by (auto simp: as_dict_def table_get_def nrc_text_def sf_of_def does_values split: json.split)

lemmas does_intros = does_values does_bind does_seq does_attempt does_pure

section \<open>What a call of the client does to the ECU\<close>

lemma rpc_call_state:
  assumes "wf_json (JObj params)"
  shows "snd (snd (rpc_call (server_link T methods c) m params (n, s))) =
    snd (call_method methods c (JStr m) (JObj params) s)"
proof -
  let ?raw = "encode (dumps (JObj (rpc_request m params (n + 1))))"
  have line: "json_line (rpc_request m params (n + 1)) = ?raw @ newline # []"
    by (simp only: json_line_def append.simps)
  have "snd (snd (serve_lines (answer T methods c) (json_line (rpc_request m params (n + 1))) s)) =
      snd (dispatch T methods c ?raw s)"
    unfolding line
    by (subst serve_lines_line) (simp_all add: json_line_newline answer_def serve_lines_None case_prod_unfold Let_def
        del: dumps.simps)
  then show ?thesis
    using dispatch_request [OF assms, of T methods c m "n + 1" s]
    by (simp add: rpc_call_def server_link_def case_prod_unfold Let_def del: dumps.simps call_method_named split: sum.splits)
qed

lemma client_call_state [simp]:
  "snd (snd (client_call (ecu_link T P c) req (n, e))) = snd (handle P c req e)"
  unfolding client_call_def rpc_call_state [OF wf_request_call] call_request by simp

text \<open>An operation of the client whose effect on the ECU is that of a request.\<close>

definition op_request ::
  "(ecu link \<Rightarrow> int \<times> ecu \<Rightarrow> (exn + 'a) \<times> int \<times> ecu) \<Rightarrow> request \<Rightarrow> bool" where
  "op_request f req \<longleftrightarrow>
     (\<forall>T P c n e. snd (snd (f (ecu_link T P c) (n, e))) = snd (handle P c req e))"

lemma op_requests [intro]:
  "op_request (\<lambda>link. cl_send_diagnostic_session_control link sid) (DiagnosticSessionControl sid)"
  "op_request cl_get_session_state GetSessionState"
  "op_request cl_inject_tamper_event InjectTamper"
  "op_request (\<lambda>link. cl_request_seed link sf) (SecurityAccessRequestSeed sf)"
  "op_request (\<lambda>link. cl_send_key link sf key) (SecurityAccessSendKey sf (list_of_bytes key))"
  "op_request cl_get_access_level GetAccessLevel"
  "op_request (\<lambda>link. cl_get_attempt_counter link lv) (GetAttemptCounter lv)"
  "op_request (\<lambda>link. cl_inject_replay_nonce link nonce) (InjectReplayNonce (list_of_bytes nonce))"
  "op_request (\<lambda>link. cl_communicate_certificate link pem) (AuthenticateCommunicateCertificate pem)"
  "op_request (\<lambda>link. cl_verify_proof link p) (AuthenticateVerifyProof (list_of_bytes p))"
  "op_request cl_deauthenticate AuthenticateDeauthenticate"
  "op_request cl_get_auth_access_level GetAuthAccessLevel"
  "op_request cl_get_audit_log GetAuditLog"
  by (simp_all add: op_request_def client_calls cl_request_seed_call case_prod_unfold Let_def)

lemma on_client_state:
  assumes "op_request f req" "br_ecu s = Some e"
  shows "\<exists>n. snd (alone (on_client L f) s) =
    s\<lparr>br_next_id := n, br_ecu := Some (snd (handle (lb_provider L) (br_conn s) req e))\<rparr>"
  using assms by (simp add: on_client_def case_prod_unfold Let_def op_request_def) metis

lemma does_on_client: "does rel (on_client L f) \<longleftrightarrow> (\<forall>s. rel s (snd (alone (on_client L f) s)))"
  by (simp add: on_client_def)

section \<open>Operations that only look\<close>

text \<open>The ECU is as before, up to readings of the clocks.\<close>

definition looks :: "bridge \<Rightarrow> bridge \<Rightarrow> bool" where
  "looks s s' \<longleftrightarrow> br_conn s' = br_conn s \<and> br_cert_store s' = br_cert_store s \<and>
     (case br_ecu s of
        None \<Rightarrow> br_ecu s' = None
      | Some e \<Rightarrow> \<exists>k n m. br_ecu s' = Some (e\<lparr>e_sm := other_readings k n m (e_sm e)\<rparr>))"

lemma other_readings_0 [simp]: "other_readings 0 0 0 w = w"
  by (simp add: other_readings_def)

lemma other_readings_add [simp]:
  "other_readings k n m (other_readings k' n' m' w) = other_readings (k' + k) (n' + n) (m' + m) w"
  by (simp add: other_readings_def add.assoc)

lemma looks_same: "br_conn s' = br_conn s \<Longrightarrow> br_cert_store s' = br_cert_store s \<Longrightarrow> br_ecu s' = br_ecu s \<Longrightarrow> looks s s'"
  unfolding looks_def
  by (cases "br_ecu s") (auto intro!: exI [of _ 0])

interpretation looks: act_relation looks
proof unfold_locales
  fix s t u
  assume "looks s t" "looks t u"
  then show "looks s u"
    by (cases "br_ecu s") (fastforce simp: looks_def)+
qed (simp add: looks_same)

lemma looks_readings: "does looks bridge_monotonic" "does looks bridge_utcnow"
proof -
  have 1: "snd (monotonic w) = other_readings 1 0 0 w" for w :: session_sm
    by (simp add: monotonic_def other_readings_def)
  have 2: "snd (utcnow w) = other_readings 0 1 0 w" for w :: session_sm
    by (simp add: utcnow_def other_readings_def)
  show "does looks bridge_monotonic"
    by (auto simp: bridge_monotonic_def looks_def case_prod_unfold Let_def 1 split: option.split)
  show "does looks bridge_utcnow"
    by (auto simp: bridge_utcnow_def looks_def case_prod_unfold Let_def 2 split: option.split)
qed

lemma looks_broadcast: "does looks (broadcast L msg)"
proof -
  have "does looks (send_all L data wss dead)" for data wss dead
    by (induction wss arbitrary: dead)
      (auto simp: ws_send_def modify_act_def Let_def intro!: does_bind does_values looks_same)
  then show ?thesis
    by (simp add: broadcast_def looks.does_unless looks.does_with_state)
qed

lemma looks_fresh: "does looks (fresh_random L)"
  by (auto simp: fresh_random_def intro: looks_same)

lemma does_with_store: "(\<And>cs. does rel (f cs)) \<Longrightarrow> (\<And>s. rel s s) \<Longrightarrow> does rel (with_store f)"
  by (auto simp: with_store_def with_state_def does_values split: option.split)

text \<open>The requests that read the ECU without the clock.\<close>

lemma looks_call:
  assumes "op_request f req" "\<And>P c e. snd (handle P c req e) = e"
  shows "does looks (on_client L f)"
proof -
  have "looks s (snd (alone (on_client L f) s))" for s
  proof (cases "br_ecu s")
    case (Some e)
    then show ?thesis using on_client_state [OF assms(1) Some, of L] assms(2) by (auto intro: looks_same)
  qed (simp add: on_client_def looks_same)
  then show ?thesis by (simp add: does_on_client)
qed

lemma looks_reads:
  "does looks (on_client L cl_get_access_level)"
  "does looks (on_client L cl_get_auth_access_level)"
  "does looks (on_client L (\<lambda>link. cl_get_attempt_counter link lv))"
  "does looks (on_client L cl_get_audit_log)"
  by (rule looks_call, rule op_requests, simp)+

lemmas looks_intros = does_intros looks.does_get looks.does_unless looks.does_with_state does_with_store [where rel = looks, OF _ looks.rel_refl]
  looks_readings looks_broadcast looks_fresh looks_reads

lemma looks_push:
  "does looks (push_uds L dir service sub result data)"
  "does looks (push_session L session timer)"
  "does looks (push_access L level)"
  "does looks (push_auth_level L lv cnt b)"
  "does looks (push_nrc L service resp)"
  by (auto simp: push_uds_def now_iso_def push_session_def push_access_def push_auth_level_def push_nrc_def intro!: looks_intros)

lemma looks_attempt_count: "does looks (attempt_count L lv)"
  by (auto simp: attempt_count_def call_dict_def intro!: looks_intros)

lemma looks_counters: "does looks (push_counters L lvs)"
  by (auto simp: push_counters_def intro!: looks_intros looks_attempt_count looks_push)

lemma looks_audit: "does looks (push_audit_tail L)" "does looks (push_audit_entries L)"
  unfolding push_audit_tail_def push_audit_entries_def call_dict_def
  by (auto intro!: looks_intros)

lemma looks_elapsed: "does looks session_elapsed"
  by (auto simp: session_elapsed_def intro!: looks_intros split: option.split)

section \<open>The bridge acts through its client only\<close>

text \<open>Requests of a set on the connection of the client, and readings of the clocks.\<close>

fun own_input :: "request set \<Rightarrow> int \<Rightarrow> ecu_input \<Rightarrow> bool" where
  "own_input R c (Call c' req) = (c' = c \<and> req \<in> R)"
| "own_input R c (OtherReadings _ _ _) = True"
| "own_input R c (StoreRevoke _) = False"

definition acts :: "request set \<Rightarrow> lab \<Rightarrow> bridge \<Rightarrow> bridge \<Rightarrow> bool" where
  "acts R L s s' \<longleftrightarrow> br_conn s' = br_conn s \<and>
     (case br_ecu s of
        None \<Rightarrow> br_ecu s' = None
      | Some e \<Rightarrow> \<exists>inps. list_all (own_input R (br_conn s)) inps \<and>
          br_ecu s' = Some (snd (run (ecu_step (lb_provider L)) inps e)))"

lemma acts_same: "br_conn s' = br_conn s \<Longrightarrow> br_ecu s' = br_ecu s \<Longrightarrow> acts R L s s'"
  unfolding acts_def by (cases "br_ecu s") (auto intro!: exI [of _ "[]"])

lemma acts_input:
  assumes "br_ecu s = Some e" "br_conn s' = br_conn s" "own_input R (br_conn s) inp"
    "br_ecu s' = Some (snd (ecu_step (lb_provider L) inp e))"
  shows "acts R L s s'"
  using assms by (auto simp: acts_def intro!: exI [of _ "[inp]"])

interpretation acts: act_relation "acts R L" for R L
proof unfold_locales
  fix s t u
  assume st: "acts R L s t" and tu: "acts R L t u"
  show "acts R L s u"
  proof (cases "br_ecu s")
    case None
    with st tu show ?thesis by (simp add: acts_def)
  next
    case (Some e)
    then obtain i where i: "list_all (own_input R (br_conn s)) i"
      "br_ecu t = Some (snd (run (ecu_step (lb_provider L)) i e))" "br_conn t = br_conn s"
      using st by (auto simp: acts_def)
    then obtain j where "list_all (own_input R (br_conn s)) j"
      "br_ecu u = Some (snd (run (ecu_step (lb_provider L)) (i @ j) e))" "br_conn u = br_conn s"
      using tu by (auto simp: acts_def)
    with i Some show ?thesis by (auto simp: acts_def intro!: exI [of _ "i @ j"])
  qed
qed (simp add: acts_same)

lemma looks_acts: "looks s s' \<Longrightarrow> acts R L s s'"
proof (cases "br_ecu s")
  case (Some e)
  moreover assume "looks s s'"
  ultimately obtain k n m where "br_ecu s' = Some (snd (ecu_step (lb_provider L) (OtherReadings k n m) e))"
    "br_conn s' = br_conn s" by (auto simp: looks_def)
  then show ?thesis using Some by (auto intro!: acts_input [where inp = "OtherReadings k n m"])
qed (auto simp: looks_def acts_def)

lemma does_looks_acts: "does looks m \<Longrightarrow> does (acts R L) m"
  by (erule does_mono) (rule looks_acts)

lemma acts_call: "op_request f req \<Longrightarrow> req \<in> R \<Longrightarrow> does (acts R L) (on_client L f)"
proof -
  assume f: "op_request f req" and R: "req \<in> R"
  have "acts R L s (snd (alone (on_client L f) s))" for s
  proof (cases "br_ecu s")
    case (Some e)
    from on_client_state [OF f Some, of L] R show ?thesis
      by (auto intro: acts_input [OF Some, of _ _ "Call (br_conn s) req"])
  qed (simp add: on_client_def acts_same)
  then show ?thesis by (simp add: does_on_client)
qed

lemma acts_query: "does (acts {GetSessionState} L) (on_client L cl_get_session_state)"
  by (rule acts_call [OF op_requests(2)]) simp

lemma acts_client [intro]:
  "does (acts UNIV L) (on_client L (\<lambda>link. cl_send_diagnostic_session_control link sid))"
  "does (acts UNIV L) (on_client L cl_get_session_state)"
  "does (acts UNIV L) (on_client L cl_inject_tamper_event)"
  "does (acts UNIV L) (on_client L (\<lambda>link. cl_request_seed link sf))"
  "does (acts UNIV L) (on_client L (\<lambda>link. cl_send_key link sf key))"
  "does (acts UNIV L) (on_client L (\<lambda>link. cl_inject_replay_nonce link nonce))"
  "does (acts UNIV L) (on_client L (\<lambda>link. cl_communicate_certificate link pem))"
  "does (acts UNIV L) (on_client L (\<lambda>link. cl_verify_proof link p))"
  "does (acts UNIV L) (on_client L cl_deauthenticate)"
  by (rule acts_call, rule op_requests, simp)+

lemma acts_modify:
  "(\<And>s. br_ecu (f s) = br_ecu s \<and> br_conn (f s) = br_conn s) \<Longrightarrow> does (acts R L) (modify_act f)"
  by (simp add: modify_act_def acts_same)

lemma acts_sign: "does (acts R L) (tester_sign L data)"
  unfolding tester_sign_def by (intro does_looks_acts looks_intros)

lemmas acts_intros = does_intros acts.does_get acts.does_with_state does_with_store [where rel = "acts R L" for R L, OF _ acts.rel_refl]
  acts.does_unless acts_client acts_query acts_sign does_looks_acts [OF looks_broadcast]
  does_looks_acts [OF looks_readings(1)] does_looks_acts [OF looks_readings(2)] does_looks_acts [OF looks_fresh]
  does_looks_acts [OF looks_reads(1)] does_looks_acts [OF looks_reads(2)] does_looks_acts [OF looks_reads(4)]
  does_looks_acts [OF looks_push(1)] does_looks_acts [OF looks_push(2)] does_looks_acts [OF looks_push(3)]
  does_looks_acts [OF looks_push(4)] does_looks_acts [OF looks_push(5)] does_looks_acts [OF looks_attempt_count]
  does_looks_acts [OF looks_counters] does_looks_acts [OF looks_audit(1)] does_looks_acts [OF looks_elapsed]
  does_cases

text \<open>What runs beside the commands, the snapshot for a new browser and the poll, only asks for the session state.\<close>

lemma acts_snapshot: "does (acts {GetSessionState} L) (push_snapshot L)"
proof -
  have "does (acts {GetSessionState} L) (snapshot_levels L lvs)" for lvs
    by (induction lvs) (auto intro!: acts_intros)
  then show ?thesis
    unfolding push_snapshot_def call_dict_def Let_def by (auto intro!: acts_intros)
qed

lemma acts_poll: "does (acts {GetSessionState} L) (periodic_push L)"
  unfolding periodic_push_def call_dict_def by (auto intro!: acts_intros)

lemma acts_more: "acts R L s s' \<Longrightarrow> R \<subseteq> R' \<Longrightarrow> acts R' L s s'"
proof -
  assume R: "R \<subseteq> R'"
  have "own_input R c inp \<Longrightarrow> own_input R' c inp" for c inp
    using R by (cases inp) auto
  then show "acts R L s s' \<Longrightarrow> acts R' L s s'"
    by (auto simp: acts_def list_all_iff split: option.splits)
qed

lemma does_acts_more: "does (acts {GetSessionState} L) m \<Longrightarrow> does (acts UNIV L) m"
  by (erule does_mono) (erule acts_more, simp)

lemma acts_commands:
  "does (acts UNIV L) (cmd_session L msg)" "does (acts UNIV L) (cmd_seed L msg)" "does (acts UNIV L) (cmd_key L msg)"
  "does (acts UNIV L) (cmd_auth L)" "does (acts UNIV L) (cmd_deauth L)" "does (acts UNIV L) (cmd_tamper L)"
  "does (acts UNIV L) (cmd_wrong_key L msg)" "does (acts UNIV L) (cmd_expired_cert L)" "does (acts UNIV L) (cmd_replay L)"
  unfolding cmd_session_def cmd_seed_def cmd_key_def cmd_auth_def cmd_deauth_def cmd_tamper_def
    cmd_wrong_key_def cmd_expired_cert_def cmd_replay_def call_dict_def Let_def
  by (auto intro!: acts_intros acts_modify)

lemma acts_handle_cmd:
  assumes "get_json msg ''cmd'' \<noteq> JStr ''power_cycle''"
  shows "does (acts UNIV L) (handle_cmd L (JObj msg))"
  unfolding handle_cmd_def as_dict_def Let_def
  using assms by (auto simp: return_act_def intro: acts_commands does_acts_more [OF acts_snapshot])

section \<open>The ECU behind the bridge\<close>

text \<open>It is always one that some ECU has become since its start.\<close>

definition bridge_inv :: "lab \<Rightarrow> bridge \<Rightarrow> bool" where
  "bridge_inv L s \<longleftrightarrow> (\<exists>e. br_ecu s = Some e \<and> reachable (lb_provider L) e)"

definition keeps :: "lab \<Rightarrow> bridge \<Rightarrow> bridge \<Rightarrow> bool" where
  "keeps L s s' \<longleftrightarrow> (bridge_inv L s \<longrightarrow> bridge_inv L s')"

interpretation keeps: act_relation "keeps L" for L
  by unfold_locales (auto simp: keeps_def)

lemma keeps_if_acts: "acts R L s s' \<Longrightarrow> keeps L s s'"
  by (auto simp: acts_def keeps_def bridge_inv_def reachable_run)

lemma keeps_acts: "does (acts R L) m \<Longrightarrow> does (keeps L) m"
  by (erule does_mono) (rule keeps_if_acts)

lemma boot_inv: "bridge_inv L (snd (boot L s))"
proof -
  have "reachable P e" if "ecu_start ecu_policy to cs rd ld w = Inr e" for P to cs rd ld w e
    unfolding reachable_def using that by (metis run.simps(1) snd_conv)
  moreover have "\<exists>e. ecu_start ecu_policy to cs rd ld w = Inr e" for to cs rd ld w
    by (rule ecu_start_ecu)
  ultimately show ?thesis
    unfolding boot_def Let_def case_prod_unfold bridge_inv_def
    by (auto split: sum.split) (metis sum.distinct(1))
qed

lemma keeps_handle_cmd: "does (keeps L) (handle_cmd L j)"
proof (cases "\<exists>msg. j = JObj msg")
  case True
  then obtain msg where j: "j = JObj msg" by blast
  show ?thesis
  proof (cases "get_json msg ''cmd'' = JStr ''power_cycle''")
    case True
    have "does (keeps L) (cmd_power_cycle L)"
      unfolding cmd_power_cycle_def
      by (intro does_seq) (auto simp: boot_inv keeps_def [of L _ "snd (boot L _)"]
          intro: keeps_acts [OF acts_snapshot] keeps_acts [OF does_looks_acts [OF looks_broadcast]]
          keeps_acts [OF does_looks_acts [OF looks_push(3)]])
    with True show ?thesis by (simp add: j handle_cmd_def as_dict_def return_act_def)
  next
    case False
    from keeps_acts [OF acts_handle_cmd [OF False]] show ?thesis by (simp add: j)
  qed
qed (cases j, simp_all add: handle_cmd_def as_dict_def raise_act_def)

section \<open>Facts for the properties\<close>

lemma readings_session [simp]:
  "sm_session (other_readings k n m sm) = sm_session sm"
  "sm_last_activity (other_readings k n m sm) = sm_last_activity sm"
  by (simp_all add: other_readings_def)

lemma wall_reading_session [simp]:
  "check_timeout (other_readings 0 n m sm) = other_readings 0 n m (check_timeout sm)"
  "live_session (other_readings 0 n m sm) = live_session sm"
  by (simp_all add: check_timeout_def live_session_def expired_def monotonic_def other_readings_def Let_def
      next_time_def)

lemma digit_char_not_space: "d < 16 \<Longrightarrow> \<not> hex_space (digit_char d)"
  using digit_val_char [of d] by (auto simp: digit_val_def hex_space_def Let_def split: if_splits)

lemma byte_nibbles: "unat (b :: byte) div 16 < 16" "unat (b :: byte) mod 16 < 16"
  using unsigned_less [of b, where ?'a = nat] by (auto simp: less_mult_imp_div_less)

lemma from_hex_byte: "from_hex (hex_byte b @ s) = map_option (Cons b) (from_hex s)"
proof -
  have "(word_of_nat (16 * (unat b div 16) + unat b mod 16) :: byte) = b" by simp
  then show ?thesis
    using digit_char_not_space [OF byte_nibbles(1) [of b]] by (simp add: hex_byte_def byte_nibbles)
qed

lemma from_hex_bytes [simp]: "from_hex (hex_bytes bs) = Some bs"
  by (induction bs) (simp_all add: hex_bytes_def from_hex_byte)

lemma hex_bytes_no_space: "filter (\<lambda>c. c \<noteq> CHR '' '') (hex_bytes bs) = hex_bytes bs"
proof -
  have "hex_space (CHR '' '')" by (simp add: hex_space_def)
  then have "CHR '' '' \<notin> set (hex_byte b)" for b
    using digit_char_not_space [OF byte_nibbles(1) [of b]] digit_char_not_space [OF byte_nibbles(2) [of b]]
    by (auto simp: hex_byte_def)
  then have "CHR '' '' \<notin> set (hex_bytes bs)" by (auto simp: hex_bytes_def)
  then show ?thesis by (auto simp: filter_id_conv)
qed

lemma hex_key_bytes [simp]: "hex_key (JStr (hex_bytes bs)) = Inr (Some bs)"
  by (simp add: hex_key_def hex_bytes_no_space)

lemma send_all_state:
  "fst (alone (send_all L data wss dead) s) = Inr () \<and>
    br_ecu (snd (alone (send_all L data wss dead) s)) = br_ecu s \<and>
    br_conn (snd (alone (send_all L data wss dead) s)) = br_conn s"
  by (induction wss arbitrary: dead s) (simp_all add: ws_send_def alone_bind Let_def)

lemma push_uds_state:
  assumes "br_ecu s = Some e"
  shows "fst (alone (push_uds L dir service sub result data) s) = Inr ()"
    "br_ecu (snd (alone (push_uds L dir service sub result data) s)) = Some (e\<lparr>e_sm := other_readings 0 1 0 (e_sm e)\<rparr>)"
    "br_conn (snd (alone (push_uds L dir service sub result data) s)) = br_conn s"
proof -
  have u: "utcnow w = (wall_clock w (wall_reads w), other_readings 0 1 0 w)" for w :: session_sm
    by (simp add: utcnow_def other_readings_def)
  show "fst (alone (push_uds L dir service sub result data) s) = Inr ()"
    "br_ecu (snd (alone (push_uds L dir service sub result data) s)) = Some (e\<lparr>e_sm := other_readings 0 1 0 (e_sm e)\<rparr>)"
    "br_conn (snd (alone (push_uds L dir service sub result data) s)) = br_conn s"
    using assms by (simp_all add: push_uds_def now_iso_def alone_bind bridge_utcnow_def u broadcast_def Let_def send_all_state)
qed

lemma call_dict_state: "snd (alone (call_dict L f) s) = snd (alone (on_client L f) s)"
  by (simp add: call_dict_def alone_bind as_dict_def split: prod.split sum.split json.split)

lemma looks_granted:
  "looks s s' \<Longrightarrow> br_ecu s = Some e \<Longrightarrow> \<exists>e'. br_ecu s' = Some e' \<and> e_sa e' = e_sa e \<and> e_owner e' = e_owner e \<and>
    sm_session (e_sm e') = sm_session (e_sm e) \<and> sm_last_activity (e_sm e') = sm_last_activity (e_sm e)"
  by (auto simp: looks_def)

text \<open>What the command \<open>0x27_key\<close> does after its first message: it sends the key, and then only looks.\<close>

definition key_reply :: "lab \<Rightarrow> int \<Rightarrow> dict \<Rightarrow> unit act" where
  "key_reply L sk resp =
     (if truthy (get_json resp ''positive'') then
        (let al = get_default resp ''access_level'' (JStr '''') in
         seq_act
           [push_uds L ''ecu->client'' ''0x27'' (hex_int sk) ''positive'' (''GRANTED '' @ py_str al),
            push_access L al,
            bind_act (of_sum (upper_arg al)) (\<lambda>up.
            bind_act (attempt_count L up) (\<lambda>cnt. push_auth_level L up cnt False)),
            push_audit_tail L])
      else
        seq_act
          [push_nrc L ''0x27'' resp,
           push_counters L [''CALIBRATION'', ''ECU_PROGRAMMING''],
           push_audit_tail L])"

lemma key_command:
  assumes "br_ecu s = Some e" and "SF lv = Some (ss, sk)"
  shows "\<exists>k. (\<forall>x. does looks (k x)) \<and>
    alone (handle_cmd L (JObj [(''cmd'', JStr ''0x27_key''), (''level'', JStr lv), (''key'', JStr (hex_bytes key))])) s =
    alone (bind_act (call_dict L (\<lambda>link. cl_send_key link sk key)) k)
      (snd (alone (push_uds L ''client->ecu'' ''0x27'' (hex_int sk) ''request'' ''sendKey'') s))"
proof (intro exI [of _ "key_reply L sk"] conjI allI)
  show "does looks (key_reply L sk resp)" for resp
    by (auto simp: key_reply_def Let_def intro!: looks_intros looks_push looks_attempt_count looks_counters looks_audit)
qed (use push_uds_state(1) [OF assms(1), of L "''client->ecu''" "''0x27''" "hex_int sk" "''request''" "''sendKey''"] assms(2) in
    \<open>simp add: handle_cmd_def as_dict_def cmd_key_def sf_of_def table_get_def get_default_def dict_get_def
      alone_bind_Inr return_act_def of_sum_def key_reply_def [abs_def]\<close>)

text \<open>A bridge with an ECU of the lab and the connection 1.\<close>

definition sample_lab :: lab where
  "sample_lab =
     \<lparr>lb_provider = sample_provider, lb_text = (\<lambda>_. []), lb_random = (\<lambda>n. [word_of_nat n]), lb_serial = int,
      lb_conn_id = (\<lambda>_. 1), lb_closed = (\<lambda>_ _. False)\<rparr>"

definition sample_bridge :: "ecu \<Rightarrow> bridge" where
  "sample_bridge e =
     (server_state_init sample_world)\<lparr>br_ecu := Some e, br_conn := 1, br_clients := [5], br_session_start := Some 2\<rparr>"

lemma sample_bridge_simps [simp]:
  "br_ecu (sample_bridge e) = Some e" "br_conn (sample_bridge e) = 1" "br_clients (sample_bridge e) = [5]"
  "br_session_start (sample_bridge e) = Some 2" "lb_provider sample_lab = sample_provider"
  by (simp_all add: sample_bridge_def sample_lab_def)

section \<open>Properties\<close>

text \<open>C32: The browsers act through the one connection of the bridge's client. A command that is no power cycle
  does to the ECU what some sequence of requests on that connection does, apart from readings of the clocks;
  it touches neither the revocation list nor another connection.\<close>

theorem commands_act_as_client:
  assumes "br_ecu s = Some e" and "get_json msg ''cmd'' \<noteq> JStr ''power_cycle''"
  shows "\<exists>inps. list_all (own_input UNIV (br_conn s)) inps \<and>
    br_ecu (snd (alone (handle_cmd L (JObj msg)) s)) = Some (snd (run (ecu_step (lb_provider L)) inps e)) \<and>
    br_conn (snd (alone (handle_cmd L (JObj msg)) s)) = br_conn s"
  using acts.rel_alone [OF acts_handle_cmd [OF assms(2)], of L s] assms(1) by (auto simp: acts_def)

theorem commands_act_as_client_witness:
  "\<exists>inps. list_all (own_input UNIV 1) inps \<and>
    br_ecu (snd (alone (handle_cmd sample_lab (JObj [(''cmd'', JStr ''inject_tamper'')])) (sample_bridge elevated_ecu))) =
      Some (snd (run (ecu_step sample_provider) inps elevated_ecu))"
  using commands_act_as_client [of "sample_bridge elevated_ecu" elevated_ecu "[(''cmd'', JStr ''inject_tamper'')]" sample_lab]
  by auto

text \<open>C33: The dashboard unlocks. If the ECU waits for the key of the seed of a level, in the session of that level
  and for the bridge's connection, then the command \<open>0x27_key\<close> with the hexadecimal key that the bridge has
  computed from the seed and its own copy of the secret makes the ECU grant the level.\<close>

theorem dashboard_key_unlocks:
  assumes "br_ecu s = Some e" and "reachable (lb_provider L) e" and "e_owner e = Some (br_conn s)"
    and "SF lv = Some (ss, sk)" and "map_of ecu_levels sk = Some (SendKeyCfg sess al ss alg sec)"
    and "live_session (check_timeout (e_sm e)) = sess" and "sa_pending_seeds (e_sa e) ss = Some seed"
  shows "\<exists>e'. br_ecu (snd (alone (handle_cmd L (JObj
      [(''cmd'', JStr ''0x27_key''), (''level'', JStr lv),
       (''key'', JStr (hex_bytes (compute_key_hmac_sha256 seed (level_secret (JStr lv)))))])) s)) = Some e' \<and>
    sa_granted (e_sa e') = Some al"
proof -
  let ?key = "compute_key_hmac_sha256 seed (level_secret (JStr lv))"
  let ?msg = "[(''cmd'', JStr ''0x27_key''), (''level'', JStr lv), (''key'', JStr (hex_bytes ?key))]"
  let ?push = "push_uds L ''client->ecu'' ''0x27'' (hex_int sk) ''request'' ''sendKey''"
  let ?s1 = "snd (alone ?push s)"
  let ?e1 = "e\<lparr>e_sm := other_readings 0 1 0 (e_sm e)\<rparr>"
  have sec: "level_secret (JStr lv) = sec"
    using assms(4,5) by (auto simp: SF_def level_secret_def ecu_levels_def split: if_splits)
  obtain k where cmd: "alone (handle_cmd L (JObj ?msg)) s = alone (bind_act (call_dict L (\<lambda>link. cl_send_key link sk ?key)) k) ?s1"
    and k: "\<And>x. does looks (k x)"
    using key_command [OF assms(1,4)] by metis
  have s1: "br_ecu ?s1 = Some ?e1" "br_conn ?s1 = br_conn s" using push_uds_state [OF assms(1)] by blast+
  let ?e2 = "snd (handle (lb_provider L) (br_conn s) (SecurityAccessSendKey sk (list_of_bytes ?key)) ?e1)"
  obtain n where e2: "snd (alone (on_client L (\<lambda>link. cl_send_key link sk ?key)) ?s1) = ?s1\<lparr>br_next_id := n, br_ecu := Some ?e2\<rparr>"
    using on_client_state [OF op_requests(5) s1(1), of L sk ?key] s1(2) by auto
  have "map_of (sa_levels (e_sa e)) sk = Some (SendKeyCfg sess al ss alg sec)"
    using reachable_levels [OF assms(2)] assms(5) by simp
  from send_key_honest [OF this _ assms(7), of "other_readings 0 1 0 (check_timeout (e_sm e))"] assms(6)
  have "sa_granted (e_sa ?e2) = Some al"
    using assms(3) sec by (auto simp: rpc_send_key_def ecu_current_pair Let_def)
  moreover have "looks (snd (alone (on_client L (\<lambda>link. cl_send_key link sk ?key)) ?s1)) (snd (alone (handle_cmd L (JObj ?msg)) s))"
    unfolding cmd using looks.rel_after [OF k, of "call_dict L (\<lambda>link. cl_send_key link sk ?key)" ?s1]
    by (simp only: call_dict_state)
  ultimately show ?thesis
    using looks_granted [of _ _ ?e2] e2 by fastforce
qed

theorem dashboard_key_unlocks_witness:
  "\<exists>e'. br_ecu (snd (alone (handle_cmd sample_lab (JObj
      [(''cmd'', JStr ''0x27_key''), (''level'', JStr ''calibration''),
       (''key'', JStr (hex_bytes (compute_key_hmac_sha256 (replicate 32 0) (level_secret (JStr ''calibration'')))))]))
      (sample_bridge (snd (run (ecu_step sample_provider) (take 2 calibration_run) (started_ecu (jump_world 30))))))) = Some e' \<and>
    sa_granted (e_sa e') = Some ''CALIBRATION''"
proof (rule dashboard_key_unlocks)
  let ?e = "snd (run (ecu_step sample_provider) (take 2 calibration_run) (started_ecu (jump_world 30)))"
  show "br_ecu (sample_bridge ?e) = Some ?e" by simp
  show "reachable (lb_provider sample_lab) ?e" using reachable_started by simp
  show "e_owner ?e = Some (br_conn (sample_bridge ?e))"
    by (simp add: calibration_run_def ecu_eval)
  show "SF ''calibration'' = Some (1, 2)" by (simp add: SF_def)
  show "map_of ecu_levels 2 = Some (SendKeyCfg EXTENDED ''CALIBRATION'' 1 ''HMAC-SHA256'' ''sim-calibration-secret-dev-only'')"
    by (simp add: ecu_levels_def)
  show "live_session (check_timeout (e_sm ?e)) = EXTENDED" "sa_pending_seeds (e_sa ?e) 1 = Some (replicate 32 0)"
    by (simp_all add: calibration_run_def ecu_eval)
qed

text \<open>The dashboard computes keys with the wrong secret for a level it does not know. For a level that is not in its
  table it asks for the seed of CALIBRATION and takes the secret of ECU_PROGRAMMING; the secret it takes is the
  one the ECU will use exactly for the two levels of the table.\<close>

theorem dashboard_secret_matches_iff:
  "\<exists>ss sk. sf_of (JStr lv) = return_act (ss, sk) \<and>
    (level_secret (JStr lv) = lc_shared_secret (the (map_of ecu_levels sk)) \<longleftrightarrow> SF lv \<noteq> None)"
  by (auto simp: sf_of_def table_get_def return_act_def SF_def level_secret_def ecu_levels_def)

text \<open>C34: The poll of the dashboard defeats the inactivity timeout. It asks for the session state on the connection that
  owns the session, and the ECU takes every such question for activity: as long as a browser is
  connected, each poll restarts the timer, while the countdown shown to the user goes on.\<close>

theorem polling_keeps_session_alive:
  assumes "br_ecu s = Some e" and "br_clients s \<noteq> []"
    and "e_owner e = Some (br_conn s)" and "live_session (e_sm e) \<noteq> DEFAULT"
  shows "\<exists>e'. br_ecu (snd (alone (periodic_push L) s)) = Some e' \<and> e_owner e' = Some (br_conn s) \<and>
    sm_session (e_sm e') = sm_session (e_sm e) \<and>
    sm_last_activity (e_sm e') = next_time (check_timeout (e_sm e))"
proof -
  let ?e1 = "snd (rpc_get_session_state (br_conn s) e)"
  obtain n where s1: "snd (alone (on_client L cl_get_session_state) s) = s\<lparr>br_next_id := n, br_ecu := Some ?e1\<rparr>"
    using on_client_state [OF op_requests(2) assms(1), of L] by auto
  obtain k :: "dict \<Rightarrow> unit act" where poll: "snd (alone (periodic_push L) s) = snd (alone (bind_act (call_dict L cl_get_session_state) k) s)"
    and k: "\<And>x. does looks (k x)"
  proof
    show "snd (alone (periodic_push L) s) = snd (alone (bind_act (call_dict L cl_get_session_state) (\<lambda>sess_resp.
         bind_act session_elapsed (\<lambda>elapsed.
         seq_act
           [broadcast L
              [(''type'', JStr ''session_update''),
               (''session'', JStr (session_name (get_default sess_resp ''session_id'' (JInt 1)))),
               (''timer_remaining'', JInt (timer_remaining elapsed))],
            push_counters L dashboard_levels]))) s)"
      using assms(1,2) by (simp add: periodic_push_def)
    show "does looks (bind_act session_elapsed (\<lambda>elapsed.
         seq_act
           [broadcast L
              [(''type'', JStr ''session_update''),
               (''session'', JStr (session_name (get_default sess_resp ''session_id'' (JInt 1)))),
               (''timer_remaining'', JInt (timer_remaining elapsed))],
            push_counters L dashboard_levels]))" for sess_resp
      by (auto intro!: looks_intros looks_elapsed looks_counters)
  qed
  have "looks (snd (alone (on_client L cl_get_session_state) s)) (snd (alone (periodic_push L) s))"
    unfolding poll using looks.rel_after [OF k, of "call_dict L cl_get_session_state" s] by (simp only: call_dict_state)
  from looks_granted [OF this, of ?e1] s1 assms(3,4) show ?thesis
    by (auto simp: rpc_get_session_state_def ecu_current_pair Let_def live_session_def split: if_splits)
qed

theorem polling_keeps_session_alive_witness:
  "\<exists>e'. br_ecu (snd (alone (periodic_push sample_lab) (sample_bridge elevated_ecu))) = Some e' \<and>
    sm_session (e_sm e') = EXTENDED"
  using polling_keeps_session_alive [of "sample_bridge elevated_ecu" elevated_ecu sample_lab]
  by (auto simp: session_ids) (simp add: sample_session_def session_sm.defs world.defs session_ids)

text \<open>The countdown that the snapshot and the poll show is between 0 and 300 seconds, and is 0 exactly once 300
  seconds have passed since the session was started, for a clock that does not go backwards.\<close>

theorem timer_bounds:
  assumes "br_ecu s = Some e" and "\<And>t. br_session_start s = Some t \<Longrightarrow> t \<le> next_time (e_sm e)"
  shows "\<exists>elapsed. fst (alone session_elapsed s) = Inr elapsed \<and> 0 \<le> timer_remaining elapsed \<and>
    timer_remaining elapsed \<le> 300 \<and> (timer_remaining elapsed = 0 \<longleftrightarrow> 300 \<le> elapsed)"
proof -
  have *: "0 \<le> timer_remaining d \<and> timer_remaining d \<le> 300 \<and> (timer_remaining d = 0 \<longleftrightarrow> 300 \<le> d)" if "0 \<le> d" for d
  proof -
    have "timer_remaining d = max 0 (300 - \<lfloor>d\<rfloor>)"
      using that by (simp add: timer_remaining_def py_trunc_def MAX_TIMER_def)
    moreover have "0 \<le> \<lfloor>d\<rfloor>" using that by simp
    moreover have "300 \<le> \<lfloor>d\<rfloor> \<longleftrightarrow> 300 \<le> d" by (simp add: le_floor_iff)
    ultimately show ?thesis by linarith
  qed
  show ?thesis
  proof (cases "br_session_start s")
    case None
    with * [of 0] show ?thesis by (simp add: session_elapsed_def)
  next
    case (Some t)
    with assms * [of 0] * [of "next_time (e_sm e) - t"] show ?thesis
      by (auto simp: session_elapsed_def alone_bind bridge_monotonic_def monotonic_def next_time_def)
  qed
qed

theorem timer_bounds_witness:
  "\<exists>elapsed. fst (alone session_elapsed (sample_bridge (started_ecu sample_world))) = Inr elapsed \<and>
    timer_remaining elapsed \<le> 300"
proof -
  have "2 \<le> next_time (e_sm (started_ecu sample_world))"
    by (simp add: started_ecu_def next_time_def sample_world_def world.defs session_sm.defs)
  with timer_bounds [of "sample_bridge (started_ecu sample_world)" "started_ecu sample_world"] show ?thesis by auto
qed

end
