(* ===== verification/Bridge_Loop.thy ===== *)
theory Bridge_Loop
  imports Bridge_Safety
begin

text \<open>
  The event loop of the bridge: \<open>handler\<close>, one task for each browser, the task of \<open>periodic_push\<close>, and \<open>_state.lock\<close>.
  A task runs until it is suspended, so a step of the loop is a part of one coroutine; which task
  goes on next, when texts arrive and when the poll wakes up is an arbitrary sequence of events. A
  handler takes the lock for the time of a command; the first snapshot and the poll do not
  take it and may run between any two messages of a command.

  \<open>asyncio.Lock\<close> is fair: it is taken at once only if nobody waits, and is passed on in the order of waiting.
\<close>

section \<open>Tasks\<close>

text \<open>A handler sends the first snapshot, waits for a text, waits for the lock, or runs a command.\<close>

datatype task =
    Arriving "unit act"
  | Listening
  | Queued json
  | Commanding "unit act"

record loop =
  lo_state :: bridge
  lo_task :: "int \<rightharpoonup> task"
  lo_poll :: "unit act option"
  lo_locked :: bool
  lo_waiters :: "int list"

text \<open>\<open>main\<close>: boot, then serve and poll.\<close>

definition loop_start :: "lab \<Rightarrow> world \<Rightarrow> loop" where
  "loop_start L w =
     \<lparr>lo_state = snd (boot L (server_state_init w)), lo_task = Map.empty, lo_poll = None,
      lo_locked = False, lo_waiters = []\<rparr>"

datatype loop_event =
    Open int
  | Receive int string
  | Hangup int
  | Resume int
  | Wake_Poll
  | Resume_Poll

datatype loop_output = Received int json | Started int json

definition add_client :: "int \<Rightarrow> bridge \<Rightarrow> bridge" where
  "add_client ws s = (if ws \<in> set (br_clients s) then s else s\<lparr>br_clients := br_clients s @ [ws]\<rparr>)"

definition discard_client :: "int \<Rightarrow> bridge \<Rightarrow> bridge" where
  "discard_client ws s = s\<lparr>br_clients := filter (\<lambda>c. c \<noteq> ws) (br_clients s)\<rparr>"

section \<open>Steps\<close>

text \<open>
  A handler whose snapshot or command has run to a suspension, to its end, or into an exception, which ends the
  handler.
\<close>

fun ended :: "unit act \<Rightarrow> bool" where
  "ended (Ended _) = True"
| "ended _ = False"

fun raised :: "unit act \<Rightarrow> bool" where
  "raised (Ended (Inl _)) = True"
| "raised _ = False"

fun task_of :: "(unit act \<Rightarrow> task) \<Rightarrow> unit act \<Rightarrow> task option" where
  "task_of busy (Ended (Inl _)) = None"
| "task_of busy (Ended (Inr _)) = Some Listening"
| "task_of busy m = Some (busy m)"

definition left_by :: "int \<Rightarrow> unit act \<times> bridge \<Rightarrow> bridge" where
  "left_by ws r = (if raised (fst r) then discard_client ws (snd r) else snd r)"

definition after_snapshot :: "int \<Rightarrow> unit act \<times> bridge \<Rightarrow> loop \<Rightarrow> loop" where
  "after_snapshot ws r lo =
     lo\<lparr>lo_state := left_by ws r, lo_task := (lo_task lo)(ws := task_of Arriving (fst r))\<rparr>"

definition after_command :: "int \<Rightarrow> unit act \<times> bridge \<Rightarrow> loop \<Rightarrow> loop" where
  "after_command ws r lo =
     lo\<lparr>lo_state := left_by ws r, lo_task := (lo_task lo)(ws := task_of Commanding (fst r)),
        lo_locked := \<not> ended (fst r)\<rparr>"

definition after_poll :: "unit act \<times> bridge \<Rightarrow> loop \<Rightarrow> loop" where
  "after_poll r lo = lo\<lparr>lo_state := snd r, lo_poll := (if ended (fst r) then None else Some (fst r))\<rparr>"

fun loop_step :: "lab \<Rightarrow> loop_event \<Rightarrow> loop \<Rightarrow> loop_output list \<times> loop" where
  "loop_step L (Open ws) lo =
     (if lo_task lo ws \<noteq> None then ([], lo)
      else ([], after_snapshot ws (until_await (push_snapshot L) (add_client ws (lo_state lo))) lo))"
| "loop_step L (Receive ws raw) lo =
     (if lo_task lo ws \<noteq> Some Listening then ([], lo)
      else (case loads raw of
          None \<Rightarrow> ([], lo)
        | Some msg \<Rightarrow>
            if \<not> lo_locked lo \<and> lo_waiters lo = []
            then ([Received ws msg, Started ws msg], after_command ws (until_await (handle_cmd L msg) (lo_state lo)) lo)
            else ([Received ws msg],
                  lo\<lparr>lo_task := (lo_task lo)(ws \<mapsto> Queued msg), lo_waiters := lo_waiters lo @ [ws]\<rparr>)))"
| "loop_step L (Hangup ws) lo =
     (if lo_task lo ws \<noteq> Some Listening then ([], lo)
      else ([], lo\<lparr>lo_state := discard_client ws (lo_state lo), lo_task := (lo_task lo)(ws := None)\<rparr>))"
| "loop_step L (Resume ws) lo =
     (case lo_task lo ws of
        Some (Arriving m) \<Rightarrow> ([], after_snapshot ws (resume m (lo_state lo)) lo)
      | Some (Commanding m) \<Rightarrow> ([], after_command ws (resume m (lo_state lo)) lo)
      | Some (Queued msg) \<Rightarrow>
          if lo_locked lo \<or> hd (lo_waiters lo) \<noteq> ws then ([], lo)
          else ([Started ws msg],
                after_command ws (until_await (handle_cmd L msg) (lo_state lo)) (lo\<lparr>lo_waiters := tl (lo_waiters lo)\<rparr>))
      | _ \<Rightarrow> ([], lo))"
| "loop_step L Wake_Poll lo =
     (if lo_poll lo \<noteq> None then ([], lo)
      else ([], after_poll (until_await (periodic_push L) (lo_state lo)) lo))"
| "loop_step L Resume_Poll lo =
     (case lo_poll lo of
        None \<Rightarrow> ([], lo)
      | Some m \<Rightarrow> ([], after_poll (resume m (lo_state lo)) lo))"

section \<open>What a step does to the tasks\<close>

lemma task_of_eq [simp]:
  "task_of Arriving m = Some (Arriving m') \<longleftrightarrow> m' = m \<and> \<not> ended m"
  "task_of Commanding m = Some (Commanding m') \<longleftrightarrow> m' = m \<and> \<not> ended m"
  "task_of Arriving m \<noteq> Some (Commanding m')" "task_of Commanding m \<noteq> Some (Arriving m')"
  "task_of Arriving m \<noteq> Some (Queued msg)" "task_of Commanding m \<noteq> Some (Queued msg)"
  by (cases m rule: raised.cases; auto)+

lemma after_simps [simp]:
  "lo_state (after_snapshot ws r lo) = left_by ws r" "lo_state (after_command ws r lo) = left_by ws r"
  "lo_state (after_poll r lo) = snd r"
  "lo_task (after_snapshot ws r lo) = (lo_task lo)(ws := task_of Arriving (fst r))"
  "lo_task (after_command ws r lo) = (lo_task lo)(ws := task_of Commanding (fst r))"
  "lo_task (after_poll r lo) = lo_task lo"
  "lo_poll (after_snapshot ws r lo) = lo_poll lo" "lo_poll (after_command ws r lo) = lo_poll lo"
  "lo_poll (after_poll r lo) = (if ended (fst r) then None else Some (fst r))"
  "lo_locked (after_snapshot ws r lo) = lo_locked lo" "lo_locked (after_command ws r lo) = (\<not> ended (fst r))"
  "lo_locked (after_poll r lo) = lo_locked lo"
  "lo_waiters (after_snapshot ws r lo) = lo_waiters lo" "lo_waiters (after_command ws r lo) = lo_waiters lo"
  "lo_waiters (after_poll r lo) = lo_waiters lo"
  by (simp_all add: after_snapshot_def after_command_def after_poll_def)

text \<open>The lock is held by the one handler that runs a command, and those that wait for it are queued in order.\<close>

definition lock_inv :: "loop \<Rightarrow> bool" where
  "lock_inv lo \<longleftrightarrow>
     (lo_locked lo \<longleftrightarrow> (\<exists>ws m. lo_task lo ws = Some (Commanding m))) \<and>
     (\<forall>ws ws' m m'. lo_task lo ws = Some (Commanding m) \<and> lo_task lo ws' = Some (Commanding m') \<longrightarrow> ws = ws') \<and>
     distinct (lo_waiters lo) \<and> (\<forall>ws. ws \<in> set (lo_waiters lo) \<longleftrightarrow> (\<exists>msg. lo_task lo ws = Some (Queued msg)))"

lemma lock_inv_cong:
  assumes "lo_locked lo' = lo_locked lo" "lo_waiters lo' = lo_waiters lo"
    "\<And>ws m. lo_task lo' ws = Some (Commanding m) \<longleftrightarrow> lo_task lo ws = Some (Commanding m)"
    "\<And>ws msg. lo_task lo' ws = Some (Queued msg) \<longleftrightarrow> lo_task lo ws = Some (Queued msg)"
  shows "lock_inv lo' \<longleftrightarrow> lock_inv lo"
  using assms by (simp add: lock_inv_def)

lemma lock_inv_snapshot:
  "lo_task lo ws = None \<or> (\<exists>m. lo_task lo ws = Some (Arriving m)) \<Longrightarrow> lock_inv (after_snapshot ws r lo) \<longleftrightarrow> lock_inv lo"
  by (rule lock_inv_cong) auto

lemma lock_inv_command:
  assumes "lock_inv lo" and "lo_task lo ws = Some (Commanding m) \<or> \<not> lo_locked lo \<and> lo_task lo ws = Some Listening"
  shows "lock_inv (after_command ws r lo)"
proof -
  have "lo_task lo ws' \<noteq> Some (Commanding m')" if "ws' \<noteq> ws" for ws' m'
    using assms that unfolding lock_inv_def by blast
  with assms show ?thesis by (auto simp: lock_inv_def split: if_splits)
qed

lemma lock_inv_step:
  assumes "lock_inv lo"
  shows "lock_inv (snd (loop_step L ev lo))"
proof (cases ev)
  case (Open ws)
  then show ?thesis using assms lock_inv_snapshot by simp
next
  case (Receive ws raw)
  show ?thesis
  proof (cases "lo_task lo ws = Some Listening")
    case True
    have "lock_inv (lo\<lparr>lo_task := (lo_task lo)(ws \<mapsto> Queued msg), lo_waiters := lo_waiters lo @ [ws]\<rparr>)" for msg
    proof -
      let ?l = "lo\<lparr>lo_task := (lo_task lo)(ws \<mapsto> Queued msg), lo_waiters := lo_waiters lo @ [ws]\<rparr>"
      have "lo_task ?l ws' = Some (Commanding m) \<longleftrightarrow> lo_task lo ws' = Some (Commanding m)" for ws' m
        using True by simp
      moreover have "lo_locked ?l = lo_locked lo" by simp
      moreover have "distinct (lo_waiters ?l) \<and>
          (\<forall>ws'. ws' \<in> set (lo_waiters ?l) \<longleftrightarrow> (\<exists>msg. lo_task ?l ws' = Some (Queued msg)))"
        using assms True by (auto simp: lock_inv_def)
      ultimately show ?thesis using assms unfolding lock_inv_def by presburger
    qed
    then show ?thesis
      using Receive assms True lock_inv_command [OF assms] by (auto split: option.split)
  qed (simp add: Receive assms)
next
  case (Hangup ws)
  have "lock_inv (snd (loop_step L (Hangup ws) lo)) \<longleftrightarrow> lock_inv lo" by (rule lock_inv_cong) auto
  with Hangup assms show ?thesis by simp
next
  case (Resume ws)
  show ?thesis
  proof (cases "lo_task lo ws")
    case (Some t)
    show ?thesis
    proof (cases t)
      case (Queued msg)
      let ?lo = "lo\<lparr>lo_waiters := tl (lo_waiters lo)\<rparr>"
      show ?thesis
      proof (cases "lo_locked lo \<or> hd (lo_waiters lo) \<noteq> ws")
        case False
        have "ws \<in> set (lo_waiters lo)" using assms Some Queued by (simp add: lock_inv_def)
        then obtain wss where w: "lo_waiters lo = ws # wss" using False by (cases "lo_waiters lo") auto
        let ?l = "lo\<lparr>lo_waiters := wss, lo_task := (lo_task lo)(ws \<mapsto> Listening)\<rparr>"
        have "lock_inv ?l" using assms w False by (auto simp: lock_inv_def split: if_splits)
        then have "lock_inv (after_command ws r ?l)" for r by (rule lock_inv_command) (use False in auto)
        moreover have "after_command ws r ?l = after_command ws r ?lo" for r
          by (simp add: w after_command_def)
        ultimately show ?thesis using Resume Some Queued False by simp
      qed (use Resume Some Queued assms in simp)
    qed (use Resume Some assms lock_inv_snapshot lock_inv_command in auto)
  qed (simp add: Resume assms)
next
  case Wake_Poll
  then show ?thesis using assms by (auto simp: lock_inv_def)
next
  case Resume_Poll
  then show ?thesis using assms by (auto simp: lock_inv_def split: option.split)
qed

text \<open>Where the coroutine of a task comes from.\<close>

lemma task_after:
  "lo_task (snd (loop_step L ev lo)) ws = Some (Arriving m) \<Longrightarrow>
    lo_task lo ws = Some (Arriving m) \<or> (\<exists>s. m = fst (until_await (push_snapshot L) s)) \<or>
    (\<exists>m' s. lo_task lo ws = Some (Arriving m') \<and> m = fst (resume m' s))"
  "lo_task (snd (loop_step L ev lo)) ws = Some (Commanding m) \<Longrightarrow>
    lo_task lo ws = Some (Commanding m) \<or> (\<exists>msg s. m = fst (until_await (handle_cmd L msg) s)) \<or>
    (\<exists>m' s. lo_task lo ws = Some (Commanding m') \<and> m = fst (resume m' s))"
  "lo_poll (snd (loop_step L ev lo)) = Some m \<Longrightarrow>
    lo_poll lo = Some m \<or> (\<exists>s. m = fst (until_await (periodic_push L) s)) \<or>
    (\<exists>m' s. lo_poll lo = Some m' \<and> m = fst (resume m' s))"
  by (cases ev; auto split: option.splits task.splits if_splits)+

section \<open>What the tasks may do\<close>

text \<open>
  Snapshots and polls only ask for the session state. A command keeps the ECU a reachable one.
\<close>

definition loop_inv :: "lab \<Rightarrow> loop \<Rightarrow> bool" where
  "loop_inv L lo \<longleftrightarrow> bridge_inv L (lo_state lo) \<and> lock_inv lo \<and>
     (\<forall>ws m. lo_task lo ws = Some (Arriving m) \<longrightarrow> does (acts {GetSessionState} L) m) \<and>
     (\<forall>m. lo_poll lo = Some m \<longrightarrow> does (acts {GetSessionState} L) m) \<and>
     (\<forall>ws m. lo_task lo ws = Some (Commanding m) \<longrightarrow> does (keeps L) m)"

text \<open>A step that is none of a command only asks.\<close>

lemma acts_clients [simp]:
  "acts R L s (add_client ws s')  \<longleftrightarrow> acts R L s s'" "acts R L (add_client ws s) s'  \<longleftrightarrow> acts R L s s'"
  "acts R L s (discard_client ws s')  \<longleftrightarrow> acts R L s s'"
  by (cases "br_ecu s"; simp add: acts_def add_client_def discard_client_def)+

lemma acts_left [simp]: "acts R L s (left_by ws r) \<longleftrightarrow> acts R L s (snd r)"
  by (simp add: left_by_def)

lemma quiet_step:
  assumes "loop_inv L lo" and "\<And>ws. ev = Resume ws \<Longrightarrow> \<nexists>m. lo_task lo ws = Some (Commanding m)"
    and "\<And>ws msg. Started ws msg \<notin> set (fst (loop_step L ev lo))"
  shows "acts {GetSessionState} L (lo_state lo) (lo_state (snd (loop_step L ev lo)))"
proof (cases ev)
  case (Open ws)
  then show ?thesis
    using acts.rel_until [OF acts_snapshot, of L "add_client ws (lo_state lo)"] by (simp add: acts.rel_refl)
next
  case (Receive ws raw)
  with assms(3) show ?thesis by (force simp: acts.rel_refl split: option.split)
next
  case (Resume ws)
  have "acts {GetSessionState} L (lo_state lo) (snd (resume m (lo_state lo)))" if "lo_task lo ws = Some (Arriving m)" for m
    using that assms(1) by (intro acts.rel_resume) (simp add: loop_inv_def)
  with Resume assms(2,3) show ?thesis by (force simp: acts.rel_refl split: option.split task.split)
next
  case Wake_Poll
  then show ?thesis using acts.rel_until [OF acts_poll] by (simp add: acts.rel_refl)
next
  case Resume_Poll
  have "acts {GetSessionState} L (lo_state lo) (snd (resume m (lo_state lo)))" if "lo_poll lo = Some m" for m
    using that assms(1) by (intro acts.rel_resume) (simp add: loop_inv_def)
  with Resume_Poll show ?thesis by (simp add: acts.rel_refl split: option.split)
qed (simp add: acts.rel_refl)

lemma keeps_client [simp]:
  "bridge_inv L (discard_client ws s) = bridge_inv L s" "bridge_inv L (add_client ws s) = bridge_inv L s"
  by (simp_all add: bridge_inv_def discard_client_def add_client_def)

lemma bridge_inv_left [simp]: "bridge_inv L (left_by ws r) = bridge_inv L (snd r)"
  by (simp add: left_by_def)

lemma bridge_inv_run:
  assumes "does (keeps L) m" "bridge_inv L s"
  shows "bridge_inv L (snd (until_await m s))" "bridge_inv L (snd (resume m s))"
  using keeps.rel_until [OF assms(1), of s] keeps.rel_resume [OF assms(1), of s] assms(2) by (auto simp: keeps_def)

interpretation bridge_loop: invariant_machine "loop_step L" "loop_inv L" for L
proof unfold_locales
  fix lo ev
  assume inv: "loop_inv L lo"
  have b: "bridge_inv L (lo_state lo)" using inv by (simp add: loop_inv_def)
  have lock: "lock_inv (snd (loop_step L ev lo))" using inv lock_inv_step by (simp add: loop_inv_def)
  have "bridge_inv L (lo_state (snd (loop_step L ev lo)))"
  proof (cases "\<exists>ws m. ev = Resume ws \<and> lo_task lo ws = Some (Commanding m)")
    case True
    then obtain ws m where r: "ev = Resume ws" "lo_task lo ws = Some (Commanding m)" by blast
    then have "does (keeps L) m" using inv by (simp add: loop_inv_def)
    with r b bridge_inv_run(2) show ?thesis by simp
  next
    case quiet: False
    show ?thesis
    proof (cases "\<exists>ws msg. Started ws msg \<in> set (fst (loop_step L ev lo))")
      case True
      then show ?thesis using b bridge_inv_run(1) [OF keeps_handle_cmd]
        by (cases ev) (auto split: option.splits task.splits if_splits)
    next
      case False
      with quiet quiet_step [OF inv, of ev] have "acts {GetSessionState} L (lo_state lo) (lo_state (snd (loop_step L ev lo)))"
        by blast
      with keeps_if_acts b show ?thesis by (fastforce simp: keeps_def)
    qed
  qed
  moreover have "does (acts {GetSessionState} L) m" if "lo_task (snd (loop_step L ev lo)) ws = Some (Arriving m)" for ws m
    using that task_after(1) [of L ev lo ws m] inv acts_snapshot by (auto simp: loop_inv_def intro: does_until does_resume)
  moreover have "does (keeps L) m" if "lo_task (snd (loop_step L ev lo)) ws = Some (Commanding m)" for ws m
    using that task_after(2) [of L ev lo ws m] inv keeps_handle_cmd by (auto simp: loop_inv_def intro: does_until does_resume)
  moreover have "does (acts {GetSessionState} L) m" if "lo_poll (snd (loop_step L ev lo)) = Some m" for m
    using that task_after(3) [of L ev lo m] inv acts_poll by (auto simp: loop_inv_def intro: does_until does_resume)
  ultimately show "loop_inv L (snd (loop_step L ev lo))" using lock unfolding loop_inv_def by blast
qed

lemma loop_start_inv: "loop_inv L (loop_start L w)"
  by (simp add: loop_inv_def loop_start_def boot_inv lock_inv_def)

lemma loop_run_inv: "loop_inv L (snd (run (loop_step L) evs (loop_start L w)))"
  by (rule bridge_loop.inv_run [OF loop_start_inv])

section \<open>The order of the commands\<close>

definition received :: "loop_output list \<Rightarrow> (int \<times> json) list" where
  "received outs = concat (map (\<lambda>out. case out of Received ws msg \<Rightarrow> [(ws, msg)] | _ \<Rightarrow> []) outs)"

definition started :: "loop_output list \<Rightarrow> (int \<times> json) list" where
  "started outs = concat (map (\<lambda>out. case out of Started ws msg \<Rightarrow> [(ws, msg)] | _ \<Rightarrow> []) outs)"

definition waiting :: "loop \<Rightarrow> (int \<times> json) list" where
  "waiting lo = map (\<lambda>ws. (ws, case lo_task lo ws of Some (Queued msg) \<Rightarrow> msg | _ \<Rightarrow> JNull)) (lo_waiters lo)"

lemma received_started_simps [simp]:
  "received [] = []" "received (Received ws msg # outs) = (ws, msg) # received outs"
  "received (Started ws msg # outs) = received outs" "received (outs @ outs') = received outs @ received outs'"
  "started [] = []" "started (Received ws msg # outs) = started outs"
  "started (Started ws msg # outs) = (ws, msg) # started outs" "started (outs @ outs') = started outs @ started outs'"
  by (simp_all add: received_def started_def)

lemma waiting_cong:
  assumes "lo_waiters lo' = lo_waiters lo" "\<And>ws. ws \<in> set (lo_waiters lo) \<Longrightarrow> lo_task lo' ws = lo_task lo ws"
  shows "waiting lo' = waiting lo"
  using assms by (simp add: waiting_def)

lemma waiting_other:
  assumes "lock_inv lo" "lo_waiters lo' = lo_waiters lo" "\<And>ws'. ws' \<noteq> ws \<Longrightarrow> lo_task lo' ws' = lo_task lo ws'"
    "\<nexists>msg. lo_task lo ws = Some (Queued msg)"
  shows "waiting lo' = waiting lo"
proof (rule waiting_cong [OF assms(2)])
  fix ws'
  assume "ws' \<in> set (lo_waiters lo)"
  then show "lo_task lo' ws' = lo_task lo ws'" using assms by (cases "ws' = ws") (auto simp: lock_inv_def)
qed

lemma fifo_step:
  assumes "lock_inv lo"
  shows "waiting lo @ received (fst (loop_step L ev lo)) = started (fst (loop_step L ev lo)) @ waiting (snd (loop_step L ev lo))"
proof -
  note same = waiting_other [OF assms]
  show ?thesis
  proof (cases ev)
    case (Open ws)
    then show ?thesis using same [of "after_snapshot ws r lo" ws for r] by simp
  next
    case (Receive ws raw)
    show ?thesis
    proof (cases "lo_task lo ws = Some Listening")
      case True
      have "waiting (after_command ws r lo) = waiting lo" for r using same [of "after_command ws r lo" ws] True by simp
      moreover have "waiting (lo\<lparr>lo_task := (lo_task lo)(ws \<mapsto> Queued msg), lo_waiters := lo_waiters lo @ [ws]\<rparr>) =
          waiting lo @ [(ws, msg)]" for msg
        using True assms by (auto simp: waiting_def lock_inv_def)
      ultimately show ?thesis using Receive True by (auto simp: waiting_def split: option.split)
    qed (simp add: Receive)
  next
    case (Hangup ws)
    then show ?thesis
      using same [of "lo\<lparr>lo_state := discard_client ws (lo_state lo), lo_task := (lo_task lo)(ws := None)\<rparr>" ws] by simp
  next
    case (Resume ws)
    show ?thesis
    proof (cases "\<exists>msg. lo_task lo ws = Some (Queued msg)")
      case False
      then have "waiting (after_command ws r lo) = waiting lo" "waiting (after_snapshot ws r lo) = waiting lo" for r
        using same [of "after_command ws r lo" ws] same [of "after_snapshot ws r lo" ws] by simp_all
      with Resume False show ?thesis by (auto split: option.split task.split)
    next
      case True
      then obtain msg where q: "lo_task lo ws = Some (Queued msg)" by blast
      then obtain w wss where w: "lo_waiters lo = w # wss" using assms by (cases "lo_waiters lo") (auto simp: lock_inv_def)
      have "waiting (after_command ws r (lo\<lparr>lo_waiters := tl (lo_waiters lo)\<rparr>)) = tl (waiting lo)" if "w = ws" for r
        using that w assms by (auto simp: waiting_def lock_inv_def intro!: map_cong)
      then show ?thesis using Resume q w by (auto simp: waiting_def)
    qed
  next
    case Wake_Poll
    then show ?thesis using waiting_cong [of "after_poll r lo" lo for r] by simp
  next
    case Resume_Poll
    then show ?thesis using waiting_cong [of "after_poll r lo" lo for r] by (simp split: option.split)
  qed
qed

lemma fifo_run:
  "lock_inv lo \<Longrightarrow> waiting lo @ received (concat (fst (run (loop_step L) evs lo))) =
    started (concat (fst (run (loop_step L) evs lo))) @ waiting (snd (run (loop_step L) evs lo))"
proof (induction evs arbitrary: lo)
  case (Cons ev evs)
  from Cons.IH [OF lock_inv_step [OF Cons.prems]] fifo_step [OF Cons.prems, of L ev] show ?case
    by simp (metis append.assoc)
qed simp

end
