(* ===== verification/Bridge_Schedule.thy ===== *)
theory Bridge_Schedule
  imports Bridge_Loop "HOL-Library.Countable"
begin

text \<open>
  Properties of the bridge in every schedule of its event loop: what can happen inside a command of another
  browser, in which order commands run, that each command ends and each queued command is started if the
  loop keeps resuming the handlers, and that a command nobody disturbs does what it does alone.
\<close>

section \<open>Infinite schedules\<close>

primrec loop_at :: "lab \<Rightarrow> (nat \<Rightarrow> loop_event) \<Rightarrow> loop \<Rightarrow> nat \<Rightarrow> loop" where
  "loop_at L ev lo 0 = lo"
| "loop_at L ev lo (Suc n) = snd (loop_step L (ev n) (loop_at L ev lo n))"

definition keeps_resuming :: "(nat \<Rightarrow> loop_event) \<Rightarrow> int \<Rightarrow> bool" where
  "keeps_resuming ev ws \<longleftrightarrow> (\<forall>n. \<exists>k \<ge> n. ev k = Resume ws)"

lemma loop_at_lock_inv: "lock_inv lo \<Longrightarrow> lock_inv (loop_at L ev lo n)"
  by (induction n) (simp_all add: lock_inv_step)

lemma commanding_kept:
  "lo_task lo ws = Some (Commanding m) \<Longrightarrow> ev \<noteq> Resume ws \<Longrightarrow> lo_task (snd (loop_step L ev lo)) ws = Some (Commanding m)"
  by (cases ev) (auto split: option.split task.split)

lemma commanding_until_resumed:
  assumes "lo_task (loop_at L ev lo n) ws = Some (Commanding m)" "keeps_resuming ev ws"
  shows "\<exists>k \<ge> n. ev k = Resume ws \<and> lo_task (loop_at L ev lo k) ws = Some (Commanding m)"
proof -
  let ?k = "LEAST k. k \<ge> n \<and> ev k = Resume ws"
  have k: "?k \<ge> n \<and> ev ?k = Resume ws"
    by (rule LeastI_ex) (use assms(2) in \<open>auto simp: keeps_resuming_def\<close>)
  have "lo_task (loop_at L ev lo i) ws = Some (Commanding m)" if "n \<le> i" "i \<le> ?k" for i
    using that
  proof (induction i rule: dec_induct)
    case (step i)
    then have "ev i \<noteq> Resume ws" using not_less_Least [of i "\<lambda>k. k \<ge> n \<and> ev k = Resume ws"] by auto
    with step show ?case by (simp add: commanding_kept)
  qed (rule assms(1))
  with k show ?thesis by blast
qed

text \<open>A coroutine is a finite tree in every direction, so a command that is resumed again and again ends.\<close>

lemma command_ends:
  assumes "keeps_resuming ev ws"
  shows "lo_task (loop_at L ev lo n) ws = task_of Commanding (fst (until_await m s)) \<Longrightarrow>
    \<exists>k \<ge> n. lo_task (loop_at L ev lo k) ws \<in> {None, Some Listening}"
proof (induction m arbitrary: n s)
  case (Ended r)
  then show ?case by (cases r) auto
next
  case (Atomic f g)
  from Atomic.IH [of "g s" n "f s"] Atomic.prems show ?case by simp
next
  case (Await m)
  then have "lo_task (loop_at L ev lo n) ws = Some (Commanding (Await m))" by simp
  from commanding_until_resumed [OF this assms] obtain k where k: "k \<ge> n" "ev k = Resume ws"
    "lo_task (loop_at L ev lo k) ws = Some (Commanding (Await m))" by blast
  then have "lo_task (loop_at L ev lo (Suc k)) ws = task_of Commanding (fst (until_await m (lo_state (loop_at L ev lo k))))"
    by simp
  from Await.IH [OF this] k(1) show ?case by (meson Suc_leD order_trans)
qed

lemma commanding_ends:
  assumes "lo_task (loop_at L ev lo n) ws = Some (Commanding m)" "keeps_resuming ev ws"
  shows "\<exists>k > n. lo_task (loop_at L ev lo k) ws \<in> {None, Some Listening}"
proof -
  let ?at = "loop_at L ev lo"
  from commanding_until_resumed [OF assms] obtain j where j: "j \<ge> n" "ev j = Resume ws"
    "lo_task (?at j) ws = Some (Commanding m)" by blast
  obtain m' where "resume m (lo_state (?at j)) = until_await m' (lo_state (?at j))" by (metis resume.elims)
  with j have "lo_task (?at (Suc j)) ws = task_of Commanding (fst (until_await m' (lo_state (?at j))))" by simp
  from command_ends [OF assms(2) this] obtain k where "k \<ge> Suc j" "lo_task (?at k) ws \<in> {None, Some Listening}" by blast
  with j(1) show ?thesis by (intro exI [of _ k]) auto
qed

section \<open>Waiting for the lock\<close>

text \<open>As long as the first in the queue has not been given the lock, the queue only grows at its end.\<close>

lemma queue_step:
  assumes "lock_inv lo" "lo_waiters lo = w # rest" "\<not> (\<not> lo_locked lo \<and> ev = Resume w)"
  shows "\<exists>new. lo_waiters (snd (loop_step L ev lo)) = w # rest @ new"
    and "\<not> lo_locked lo \<Longrightarrow> \<not> lo_locked (snd (loop_step L ev lo))"
proof -
  have none: "\<nexists>ws m. lo_task lo ws = Some (Commanding m)" if "\<not> lo_locked lo"
    using assms(1) that by (simp add: lock_inv_def)
  show "\<exists>new. lo_waiters (snd (loop_step L ev lo)) = w # rest @ new"
    using assms(2,3) by (cases ev) (auto split: option.split task.split)
  show "\<not> lo_locked (snd (loop_step L ev lo))" if "\<not> lo_locked lo"
    using assms(2,3) none [OF that] that by (cases ev) (auto split: option.split task.split)
qed

lemma lock_released:
  "lo_task lo ws = Some (Commanding m) \<Longrightarrow> lo_task (snd (loop_step L ev lo)) ws \<in> {None, Some Listening} \<Longrightarrow>
    \<not> lo_locked (snd (loop_step L ev lo))"
proof (cases "ev = Resume ws")
  case True
  assume "lo_task lo ws = Some (Commanding m)" "lo_task (snd (loop_step L ev lo)) ws \<in> {None, Some Listening}"
  with True show ?thesis by (cases "fst (resume m (lo_state lo))" rule: raised.cases) auto
qed (simp add: commanding_kept)

lemma lock_is_freed:
  assumes "\<And>ws. keeps_resuming ev ws" "lock_inv lo" "lo_locked (loop_at L ev lo n)"
  shows "\<exists>k > n. \<not> lo_locked (loop_at L ev lo k)"
proof -
  let ?at = "loop_at L ev lo"
  obtain ws m where cmd: "lo_task (?at n) ws = Some (Commanding m)"
    using loop_at_lock_inv [OF assms(2), of L ev n] assms(3) by (auto simp: lock_inv_def)
  from commanding_ends [OF cmd assms(1)] obtain k where k: "k > n" "lo_task (?at k) ws \<in> {None, Some Listening}" by blast
  let ?P = "\<lambda>i. i \<ge> n \<and> lo_task (?at i) ws \<in> {None, Some Listening}"
  let ?i = "LEAST i. ?P i"
  have i: "?P ?i" by (rule LeastI [of ?P k]) (use k in auto)
  have before: "\<exists>m. lo_task (?at i) ws = Some (Commanding m)" if "n \<le> i" "i < ?i" for i
    using that
  proof (induction i rule: dec_induct)
    case (step i)
    then obtain m where m: "lo_task (?at i) ws = Some (Commanding m)" by auto
    have "\<not> ?P (Suc i)" using step by (intro not_less_Least) auto
    then have "lo_task (?at (Suc i)) ws \<notin> {None, Some Listening}" using step by simp
    with m show ?case
      using commanding_kept [of "?at i" ws m "ev i" L]
      by (cases "ev i = Resume ws"; cases "fst (resume m (lo_state (?at i)))" rule: raised.cases) auto
  qed (use cmd in blast)
  have "n < ?i" using i cmd by (cases "?i = n") auto
  then obtain p where p: "?i = Suc p" "n \<le> p" by (cases "?i") auto
  with before [of p] obtain m where "lo_task (?at p) ws = Some (Commanding m)" by auto
  with lock_released [of "?at p" ws m L "ev p"] i p \<open>n < ?i\<close> show ?thesis by (intro exI [of _ "?i"]) auto
qed

lemma queued_kept:
  "lo_task lo ws = Some (Queued msg) \<Longrightarrow> \<not> (\<not> lo_locked lo \<and> ev = Resume (hd (lo_waiters lo))) \<Longrightarrow>
    lo_task (snd (loop_step L ev lo)) ws = Some (Queued msg)"
  by (cases ev) (auto split: option.split task.split)

lemma first_waiter_starts:
  assumes "\<And>ws. keeps_resuming ev ws" "lock_inv lo" "lo_waiters (loop_at L ev lo n) = w # rest"
  shows "\<exists>k \<ge> n. \<exists>new. ev k = Resume w \<and> \<not> lo_locked (loop_at L ev lo k) \<and>
    lo_waiters (loop_at L ev lo k) = w # rest @ new \<and>
    (\<forall>ws msg. lo_task (loop_at L ev lo n) ws = Some (Queued msg) \<longrightarrow> lo_task (loop_at L ev lo k) ws = Some (Queued msg))"
proof -
  let ?at = "loop_at L ev lo"
  let ?P = "\<lambda>k. k \<ge> n \<and> \<not> lo_locked (?at k) \<and> ev k = Resume w"
  note inv = loop_at_lock_inv [OF assms(2), of L ev]
  have queue: "(\<exists>new. lo_waiters (?at k) = w # rest @ new) \<and>
      (\<forall>ws msg. lo_task (?at n) ws = Some (Queued msg) \<longrightarrow> lo_task (?at k) ws = Some (Queued msg))"
    if "n \<le> k" "\<And>i. i < k \<Longrightarrow> \<not> ?P i" for k
    using that
  proof (induction k rule: dec_induct)
    case (step k)
    then obtain new where w: "lo_waiters (?at k) = w # rest @ new" by auto
    have notP: "\<not> (\<not> lo_locked (?at k) \<and> ev k = Resume w)" using step.prems [of k] step.hyps by simp
    from queue_step(1) [OF inv w notP, of L] queued_kept [of "?at k" _ _ "ev k" L] step notP w show ?case by auto
  qed (use assms(3) in simp)
  have "\<exists>k. ?P k"
  proof (rule ccontr)
    assume none: "\<nexists>k. ?P k"
    obtain f where f: "f \<ge> n" "\<not> lo_locked (?at f)"
      using lock_is_freed [OF assms(1,2), of L n] less_imp_le_nat le_refl by (cases "lo_locked (?at n)") blast+
    have "\<not> lo_locked (?at k)" if "f \<le> k" for k
      using that
    proof (induction k rule: dec_induct)
      case (step k)
      have "n \<le> k" using step.hyps f(1) by simp
      with queue [of k] none obtain new where "lo_waiters (?at k) = w # rest @ new" by blast
      from queue_step(2) [OF inv this, where ev = "ev k" and L = L] none \<open>n \<le> k\<close> step.IH show ?case by auto
    qed (rule f(2))
    moreover obtain k where "k \<ge> f" "ev k = Resume w" using assms(1) [of w] unfolding keeps_resuming_def by blast
    ultimately show False using none f(1) by (meson order_trans)
  qed
  then have "?P (LEAST k. ?P k)" by (rule LeastI_ex)
  moreover have "\<not> ?P i" if "i < (LEAST k. ?P k)" for i using that by (rule not_less_Least)
  ultimately show ?thesis using queue [of "LEAST k. ?P k"] by blast
qed

lemma waiter_starts:
  assumes "\<And>ws. keeps_resuming ev ws" "lock_inv lo"
  shows "lo_waiters (loop_at L ev lo n) = front @ ws # rest \<Longrightarrow> lo_task (loop_at L ev lo n) ws = Some (Queued msg) \<Longrightarrow>
    \<exists>k \<ge> n. Started ws msg \<in> set (fst (loop_step L (ev k) (loop_at L ev lo k)))"
proof (induction front arbitrary: n rest)
  case Nil
  with first_waiter_starts [OF assms, of L n ws rest] show ?case by fastforce
next
  case (Cons w front)
  let ?at = "loop_at L ev lo"
  from first_waiter_starts [OF assms, of L n w "front @ ws # rest"] Cons.prems obtain k new where
    k: "k \<ge> n" "ev k = Resume w" "\<not> lo_locked (?at k)" "lo_waiters (?at k) = w # front @ ws # rest @ new"
    and msg: "lo_task (?at k) ws = Some (Queued msg)" by auto
  note inv = loop_at_lock_inv [OF assms(2), of L ev k]
  have "w \<in> set (lo_waiters (?at k))" "ws \<noteq> w" using k(4) inv by (auto simp: lock_inv_def)
  then obtain msg' where "lo_task (?at k) w = Some (Queued msg')"
    using inv unfolding lock_inv_def by blast
  with k msg \<open>ws \<noteq> w\<close> have "lo_waiters (?at (Suc k)) = front @ ws # (rest @ new)"
    "lo_task (?at (Suc k)) ws = Some (Queued msg)" by simp_all
  from Cons.IH [OF this] obtain k' where "k' \<ge> Suc k" "Started ws msg \<in> set (fst (loop_step L (ev k') (?at k')))" by blast
  with k(1) show ?case by (intro exI [of _ k']) auto
qed

section \<open>Undisturbed commands\<close>

lemma after_command_again: "after_command ws r (after_command ws r' lo) = after_command ws r lo"
  by (simp add: after_command_def)

lemma resumed_to_end:
  "\<exists>n. snd (run (loop_step L) (replicate n (Resume ws)) (after_command ws (until_await m s) lo)) =
     after_command ws (Ended (fst (alone m s)), snd (alone m s)) lo"
proof (induction m arbitrary: s)
  case (Ended r)
  then show ?case by (auto intro!: exI [of _ 0])
next
  case (Atomic f g)
  from Atomic.IH [of "g s" "f s"] show ?case by simp
next
  case (Await m)
  from Await.IH [of s] obtain n where
    "snd (run (loop_step L) (replicate n (Resume ws)) (after_command ws (until_await m s) lo)) =
     after_command ws (Ended (fst (alone m s)), snd (alone m s)) lo" by blast
  then have "snd (run (loop_step L) (replicate (Suc n) (Resume ws)) (after_command ws (until_await (Await m) s) lo)) =
     after_command ws (Ended (fst (alone (Await m) s)), snd (alone (Await m) s)) lo"
    by (simp add: after_command_again left_by_def)
  then show ?case by blast
qed

section \<open>A schedule and a loop\<close>

text \<open>A schedule that resumes every handler infinitely often, and a loop in which one browser's command runs and another's waits.\<close>

definition sample_schedule :: "nat \<Rightarrow> loop_event" where
  "sample_schedule n = Resume (from_nat (fst (prod_decode n)))"

lemma sample_schedule: "keeps_resuming sample_schedule ws"
  unfolding keeps_resuming_def sample_schedule_def
proof
  fix n
  show "\<exists>k \<ge> n. Resume (from_nat (fst (prod_decode k))) = Resume ws"
    by (rule exI [of _ "prod_encode (to_nat ws, n)"]) (simp add: le_prod_encode_2)
qed

definition sample_loop :: loop where
  "sample_loop =
     \<lparr>lo_state = sample_bridge (started_ecu sample_world),
      lo_task = [5 \<mapsto> Commanding (Await (return_act ())), 6 \<mapsto> Queued (JInt 0), 7 \<mapsto> Listening],
      lo_poll = None, lo_locked = True, lo_waiters = [6]\<rparr>"

definition idle_loop :: loop where
  "idle_loop = \<lparr>lo_state = sample_bridge (started_ecu sample_world), lo_task = [7 \<mapsto> Listening], lo_poll = None, lo_locked = False, lo_waiters = []\<rparr>"

lemma sample_loop_inv: "loop_inv sample_lab sample_loop"
proof -
  have "reachable sample_provider (started_ecu sample_world)"
    using reachable_started [of sample_provider "[]"] by simp
  then show ?thesis
    by (auto simp: loop_inv_def bridge_inv_def sample_loop_def lock_inv_def return_act_def split: if_splits)
qed

section \<open>Properties\<close>

text \<open>C27: The bridge leaves the ECU to its rules. Whatever texts the browsers send, however the handlers and the poll are
  interleaved, power cycles included, the ECU behind the bridge is one that requests have led to from a
  start, so its invariants hold.\<close>

theorem bridge_drives_reachable_ecu:
  "\<exists>e. br_ecu (lo_state (snd (run (loop_step L) evs (loop_start L w)))) = Some e \<and> reachable (lb_provider L) e"
  using loop_run_inv [of L evs w] by (simp add: loop_inv_def bridge_inv_def)

text \<open>C28: Commands are executed one at a time and in the order of arrival. In every schedule the commands started so far
  and those waiting for the lock, in the order of the queue, are together the commands received, in the
  order they came: none is lost, repeated or overtaken. At most one handler runs a command.\<close>

theorem commands_in_order:
  "let (outs, lo) = run (loop_step L) evs (loop_start L w) in
     received (concat outs) = started (concat outs) @ waiting lo \<and>
     (\<exists>w. {ws. \<exists>m. lo_task lo ws = Some (Commanding m)} \<subseteq> {w})"
proof -
  have "lock_inv (loop_start L w)" "waiting (loop_start L w) = []"
    using loop_start_inv [of L w] by (simp_all add: loop_inv_def loop_start_def waiting_def)
  moreover have "lock_inv (snd (run (loop_step L) evs (loop_start L w)))"
    using loop_run_inv [of L evs w] by (simp add: loop_inv_def)
  then have "\<exists>w'. {ws. \<exists>m. lo_task (snd (run (loop_step L) evs (loop_start L w))) ws = Some (Commanding m)} \<subseteq> {w'}"
    unfolding lock_inv_def by blast
  ultimately show ?thesis
    using fifo_run [of "loop_start L w" L evs] by (simp add: case_prod_unfold Let_def)
qed

text \<open>C30: A command is not disturbed. While a browser's command is suspended, no step of any other task (the poll, the
  snapshot for a new browser, another browser's text) does more to the ECU than ask for its session state on the
  bridge's connection, and the ECU and its connection stay those of the command: \<open>_state.client\<close>, which \<open>handle_cmd\<close> reads
  once, is the same to the end.\<close>

theorem command_not_disturbed:
  assumes "loop_inv L lo" and "lo_task lo ws = Some (Commanding m)"
    and "ev \<noteq> Resume ws" and "br_ecu (lo_state lo) = Some e"
  shows "\<exists>inps. list_all (own_input {GetSessionState} (br_conn (lo_state lo))) inps \<and>
    br_ecu (lo_state (snd (loop_step L ev lo))) = Some (snd (run (ecu_step (lb_provider L)) inps e)) \<and>
    br_conn (lo_state (snd (loop_step L ev lo))) = br_conn (lo_state lo)"
proof -
  have locked: "lo_locked lo" and one: "\<And>ws' m'. lo_task lo ws' = Some (Commanding m') \<Longrightarrow> ws' = ws"
    using assms(1,2) unfolding loop_inv_def lock_inv_def by blast+
  have "Started ws' msg \<notin> set (fst (loop_step L ev lo))" for ws' msg
    using locked by (cases ev) (auto split: option.split task.split)
  with one assms(3) have "acts {GetSessionState} L (lo_state lo) (lo_state (snd (loop_step L ev lo)))"
    by (intro quiet_step [OF assms(1)]) blast+
  with assms(4) show ?thesis by (auto simp: acts_def)
qed

theorem command_not_disturbed_witness:
  "br_conn (lo_state (snd (loop_step sample_lab Wake_Poll sample_loop))) = 1"
  using command_not_disturbed [OF sample_loop_inv, of 5 "Await (return_act ())" Wake_Poll "started_ecu sample_world"]
  by (auto simp: sample_loop_def)

text \<open>C29: Every command is served. In a schedule that resumes every handler again and again, whatever else arrives: a
  browser that waits for the lock is given it and its command started, and a command that has started ends, after
  which its browser is listened to again or, if the command has raised, disconnected.\<close>

theorem commands_are_served:
  assumes "\<And>ws. keeps_resuming ev ws" and "loop_inv L lo"
  shows "(lo_task (loop_at L ev lo n) ws = Some (Queued msg) \<longrightarrow>
      (\<exists>k \<ge> n. Started ws msg \<in> set (fst (loop_step L (ev k) (loop_at L ev lo k))))) \<and>
    (lo_task (loop_at L ev lo n) ws = Some (Commanding m) \<longrightarrow>
      (\<exists>k > n. lo_task (loop_at L ev lo k) ws \<in> {None, Some Listening}))"
proof -
  have inv: "lock_inv lo" using assms(2) by (simp add: loop_inv_def)
  have "ws \<in> set (lo_waiters (loop_at L ev lo n))" if "lo_task (loop_at L ev lo n) ws = Some (Queued msg)"
    using that loop_at_lock_inv [OF inv, of L ev n] unfolding lock_inv_def by blast
  then show ?thesis
    using waiter_starts [OF assms(1) inv] commanding_ends assms(1) by (meson split_list)
qed

theorem commands_are_served_witness:
  "\<exists>k. Started 6 (JInt 0) \<in>
     set (fst (loop_step sample_lab (sample_schedule k) (loop_at sample_lab sample_schedule sample_loop k)))"
proof -
  have "lo_task (loop_at sample_lab sample_schedule sample_loop 0) 6 = Some (Queued (JInt 0))"
    by (simp add: sample_loop_def)
  with commands_are_served [OF sample_schedule sample_loop_inv, of 0 6 "JInt 0"] show ?thesis by blast
qed

text \<open>C31: A command that nobody disturbs does what its coroutine does alone: after the text has arrived, resuming its
  handler a number of times leaves the state of the uninterrupted run, and the browser disconnected if the command has
  raised. So the theorems about single commands hold of the loop.\<close>

theorem undisturbed_command:
  assumes "lo_task lo ws = Some Listening" and "\<not> lo_locked lo" and "lo_waiters lo = []" and "loads raw = Some msg"
  shows "\<exists>n. snd (run (loop_step L) (Receive ws raw # replicate n (Resume ws)) lo) =
    (case alone (handle_cmd L msg) (lo_state lo) of
       (Inl _, s) \<Rightarrow> lo\<lparr>lo_state := discard_client ws s, lo_task := (lo_task lo)(ws := None)\<rparr>
     | (Inr _, s) \<Rightarrow> lo\<lparr>lo_state := s\<rparr>)"
proof -
  let ?r = "alone (handle_cmd L msg) (lo_state lo)"
  obtain n where "snd (run (loop_step L) (Receive ws raw # replicate n (Resume ws)) lo) =
      after_command ws (Ended (fst ?r), snd ?r) lo"
    using resumed_to_end [of L ws "handle_cmd L msg" "lo_state lo" lo] assms by auto
  moreover have "after_command ws (Ended (Inr x), s) lo = lo\<lparr>lo_state := s\<rparr>"
    "after_command ws (Ended (Inl ex), s) lo = lo\<lparr>lo_state := discard_client ws s, lo_task := (lo_task lo)(ws := None)\<rparr>" for x ex s
    using assms(1,2) by (auto simp: after_command_def left_by_def fun_upd_idem)
  ultimately show ?thesis by (intro exI [of _ n]) (simp split: prod.split sum.split)
qed

theorem undisturbed_command_witness:
  "\<exists>n. lo_task (snd (run (loop_step sample_lab) (Receive 7 (dumps (JInt 0)) # replicate n (Resume 7)) idle_loop)) 7 = None"
proof -
  have "loads (dumps (JInt 0)) = Some (JInt 0)" by (rule loads_dumps) simp
  from undisturbed_command [OF _ _ _ this, of idle_loop 7 sample_lab] obtain n where
    "snd (run (loop_step sample_lab) (Receive 7 (dumps (JInt 0)) # replicate n (Resume 7)) idle_loop) =
      idle_loop\<lparr>lo_state := discard_client 7 (lo_state idle_loop), lo_task := (lo_task idle_loop)(7 := None)\<rparr>"
    by (auto simp: idle_loop_def handle_cmd_def as_dict_def raise_act_def simp del: dumps.simps)
  then show ?thesis by (intro exI [of _ n]) (simp del: dumps.simps)
qed

end
