(* ===== verification/Bridge_Replay.thy ===== *)
theory Bridge_Replay
  imports Bridge_Safety
begin

text \<open>
  The replay demonstration of the dashboard, \<open>inject_replay_nonce\<close>, from the browser's command to the state of the ECU: it
  authenticates for real, then injects the used nonce and sends the same proof again.
\<close>

section \<open>Calls that are answered\<close>

lemma on_client_call:
  assumes "br_ecu s = Some e" "reachable (lb_provider L) e"
    and "handle (lb_provider L) (br_conn s) req e = (Inr d, e')"
  shows "alone (call_dict L (\<lambda>link. client_call link req)) s =
    (Inr d, s\<lparr>br_next_id := br_next_id s + 1, br_ecu := Some e'\<rparr>)"
  using assms client_call_ecu [OF reachable_audit [OF assms(2)], of "lb_text L" "lb_provider L" "br_conn s" req]
  by (simp add: call_dict_def alone_bind on_client_def client_view_def as_dict_def)

lemma alone_with_store: "br_cert_store s = Some cs \<Longrightarrow> alone (with_store f) s = alone (f cs) s"
  by (simp add: with_store_def)

section \<open>What keeps a grant\<close>

text \<open>The ECU holds the level, and has accepted the nonces.\<close>

definition holds_level :: "string \<Rightarrow> bytes set \<Rightarrow> bridge \<Rightarrow> bool" where
  "holds_level lv used s \<longleftrightarrow>
     (\<exists>e. br_ecu s = Some e \<and> au_granted (e_auth e) = Some lv \<and> au_used_nonces (e_auth e) = used)"

lemma communicate_keeps_grant:
  "au_granted (e_auth (snd (rpc_communicate_certificate P c pem e))) = au_granted (e_auth e) \<and>
    au_used_nonces (e_auth (snd (rpc_communicate_certificate P c pem e))) = au_used_nonces (e_auth e)"
  by (auto simp: rpc_communicate_certificate_def communicate_certificate_def ecu_current_pair Let_def
      split: prod.split sum.split option.split)

lemma replay_keeps_grant:
  assumes "au_pending_challenge (e_auth e) \<in> {None} \<union> Some ` au_used_nonces (e_auth e)"
  shows "au_granted (e_auth (snd (rpc_verify_proof P c proof e))) = au_granted (e_auth e) \<and>
    au_used_nonces (e_auth (snd (rpc_verify_proof P c proof e))) = au_used_nonces (e_auth e)"
  using assms
  by (auto simp: rpc_verify_proof_def verify_proof_def ecu_current_pair Let_def emit_eq
      split: prod.split sum.split option.split)

lemma looks_holds_level: "looks s s' \<Longrightarrow> holds_level lv used s \<Longrightarrow> holds_level lv used s'"
  by (auto simp: looks_def holds_level_def)

text \<open>The challenge that is answered is the one that waits for its proof.\<close>

lemma json_of_list_of_bytes_inj [simp]:
  "json_of_ints (list_of_bytes bs) = json_of_ints (list_of_bytes bs') \<longleftrightarrow> bs = bs'"
  using bytes_of_value_list [of bs] bytes_of_value_list [of bs'] by (metis sum.inject(2))

lemma challenge_pending:
  assumes "rpc_communicate_certificate P c pem e =
    (Inr (positive [(''challenge'', json_of_ints (list_of_bytes nonce)), (''ecu_cert'', cert)]), e1)"
  shows "au_pending_challenge (e_auth e1) = Some nonce"
  using assms
  by (auto simp: rpc_communicate_certificate_def communicate_certificate_def ecu_current_pair Let_def positive_def negative_def
      split: prod.splits sum.splits option.splits if_splits)

lemma accepted_proof:
  assumes "rpc_verify_proof P c proof e1 = (Inr (positive [(''access_level'', JStr lv)]), e2)"
    and "au_pending_challenge (e_auth e1) = Some nonce"
  shows "au_granted (e_auth e2) = Some lv \<and> nonce \<in> au_used_nonces (e_auth e2)"
  using assms
  by (auto simp: rpc_verify_proof_def verify_proof_def ecu_current_pair Let_def positive_def negative_def emit_eq opt_json_def
      split: prod.splits sum.splits option.splits if_splits)

section \<open>The second half of the demonstration\<close>

text \<open>A second exchange, in which the used nonce is injected and the proof sent again.\<close>

definition replay_again :: "lab \<Rightarrow> string \<Rightarrow> bytes \<Rightarrow> bytes \<Rightarrow> unit act" where
  "replay_again L tpem nonce proof =
     bind_act (on_client L (\<lambda>link. cl_communicate_certificate link tpem)) (\<lambda>_.
     bind_act (on_client L (\<lambda>link. cl_inject_replay_nonce link nonce)) (\<lambda>_.
     bind_act (push_uds L ''client->ecu'' ''0x29'' ''0x12'' ''inject'' ''replay nonce'') (\<lambda>_.
     bind_act (call_dict L (\<lambda>link. cl_verify_proof link proof)) (\<lambda>resp.
     seq_act [push_nrc L ''0x29'' resp, push_audit_tail L]))))"

lemma replay_tail:
  assumes "holds_level lv used s" and "nonce \<in> used"
  shows "holds_level lv used (snd (alone (replay_again L pem nonce proof) s))"
proof -
  let ?push = "push_uds L ''client->ecu'' ''0x29'' ''0x12'' ''inject'' ''replay nonce''"
  let ?k = "\<lambda>resp. seq_act [push_nrc L ''0x29'' resp, push_audit_tail L]"
  have looks_k: "does looks (?k resp)" for resp
    by (auto intro!: looks_intros looks_push looks_audit)
  have client_holds: "holds_level lv used (snd (alone (on_client L f) s'))"
    if "op_request f req" "br_ecu s' = Some e" "holds_level lv used s'"
      "au_granted (e_auth (snd (handle (lb_provider L) (br_conn s') req e))) = au_granted (e_auth e)"
      "au_used_nonces (e_auth (snd (handle (lb_provider L) (br_conn s') req e))) = au_used_nonces (e_auth e)"
    for f :: "ecu link \<Rightarrow> int \<times> ecu \<Rightarrow> (exn + 'z) \<times> int \<times> ecu" and req e s'
    using on_client_state [OF that(1,2), of L] that(2-5) by (auto simp: holds_level_def)
  have verify: "holds_level lv used (snd (alone (bind_act (call_dict L (\<lambda>link. cl_verify_proof link proof)) ?k) s'))"
    if "holds_level lv used s'" "br_ecu s' = Some e" "au_pending_challenge (e_auth e) = Some nonce" for s' e
  proof -
    have "au_pending_challenge (e_auth e) \<in> {None} \<union> Some ` au_used_nonces (e_auth e)"
      using that assms(2) by (auto simp: holds_level_def)
    with client_holds [OF op_requests(10) that(2,1), of "proof"] replay_keeps_grant
    have "holds_level lv used (snd (alone (on_client L (\<lambda>link. cl_verify_proof link proof)) s'))" by simp
    moreover have "looks (snd (alone (call_dict L (\<lambda>link. cl_verify_proof link proof)) s'))
        (snd (alone (bind_act (call_dict L (\<lambda>link. cl_verify_proof link proof)) ?k) s'))"
      by (rule looks.rel_after) (rule looks_k)
    ultimately show ?thesis using looks_holds_level by (simp add: call_dict_state)
  qed
  have injected: "holds_level lv used (snd (alone
     (bind_act (on_client L (\<lambda>link. cl_inject_replay_nonce link nonce)) (\<lambda>_.
     bind_act ?push (\<lambda>_.
     bind_act (call_dict L (\<lambda>link. cl_verify_proof link proof)) ?k))) s'))"
    if holds: "holds_level lv used s'" for s'
  proof -
    obtain e where e: "br_ecu s' = Some e" using holds by (auto simp: holds_level_def)
    let ?e = "e\<lparr>e_auth := inject_pending_nonce_for_test nonce (e_auth e)\<rparr>"
    let ?s = "snd (alone (on_client L (\<lambda>link. cl_inject_replay_nonce link nonce)) s')"
    have s: "holds_level lv used ?s" "br_ecu ?s = Some ?e"
      using on_client_state [OF op_requests(8) e, of L nonce] holds e
      by (auto simp: holds_level_def rpc_inject_replay_nonce_def inject_pending_nonce_for_test_def)
    let ?t = "snd (alone ?push ?s)"
    have t: "br_ecu ?t = Some (?e\<lparr>e_sm := other_readings 0 1 0 (e_sm ?e)\<rparr>)" using push_uds_state [OF s(2)] by blast
    with s have h: "holds_level lv used ?t" by (auto simp: holds_level_def)
    have pushed: "holds_level lv used (snd (alone (bind_act ?push (\<lambda>_.
        bind_act (call_dict L (\<lambda>link. cl_verify_proof link proof)) ?k)) ?s))"
    proof (rule alone_bind_pred [where Q = "holds_level lv used", OF h])
      show "holds_level lv used (snd (alone (bind_act (call_dict L (\<lambda>link. cl_verify_proof link proof)) ?k) s''))"
        if "alone ?push ?s = (Inr x, s'')" for x s''
        using verify [OF h t] that by (simp add: inject_pending_nonce_for_test_def)
    qed
    show ?thesis by (rule alone_bind_pred [where Q = "holds_level lv used", OF s(1)]) (use pushed in simp)
  qed
  obtain e where "br_ecu s = Some e" using assms(1) by (auto simp: holds_level_def)
  from client_holds [OF op_requests(9) this assms(1), of pem] communicate_keeps_grant
  have communicated: "holds_level lv used (snd (alone (on_client L (\<lambda>link. cl_communicate_certificate link pem)) s))"
    by simp
  show ?thesis
    unfolding replay_again_def
  proof (rule alone_bind_pred [where Q = "holds_level lv used", OF communicated])
    show "holds_level lv used (snd (alone
       (bind_act (on_client L (\<lambda>link. cl_inject_replay_nonce link nonce)) (\<lambda>_.
        bind_act ?push (\<lambda>_.
        bind_act (call_dict L (\<lambda>link. cl_verify_proof link proof)) ?k))) s'))"
      if "alone (on_client L (\<lambda>link. cl_communicate_certificate link pem)) s = (Inr x, s')" for x s'
      using injected [OF communicated] that by simp
  qed
qed

section \<open>Properties\<close>

text \<open>C35: The replay demonstration rejects the replay and leaves the ECU open. If the ECU answers the certificate with a
  challenge and accepts the proof of it, then at the end of the command, whatever the later calls answer, no further proof has been
  accepted; but the level of the genuine proof is still granted. \<open>cmd_replay\<close> has no \<open>push_access\<close>, so no browser is told.\<close>

theorem replay_demo_leaves_grant:
  assumes "br_ecu s = Some e" and "reachable (lb_provider L) e"
    and "br_last_seed s \<noteq> None" and "br_cert_store s = Some cs"
    and "handle (lb_provider L) (br_conn s) (AuthenticateCommunicateCertificate (tester_cert_pem (lb_provider L) cs)) e =
      (Inr (positive [(''challenge'', json_of_ints (list_of_bytes nonce)), (''ecu_cert'', cert)]), e1)"
    and "handle (lb_provider L) (br_conn s) (AuthenticateVerifyProof (list_of_bytes
        (sign_ecdsa (lb_provider L) (cs_tester_key cs) (lb_random L (br_draws s)) nonce))) e1 =
      (Inr (positive [(''access_level'', JStr lv)]), e2)"
  shows "\<exists>e'. br_ecu (snd (alone (handle_cmd L (JObj [(''cmd'', JStr ''inject_replay_nonce'')])) s)) = Some e' \<and>
    au_granted (e_auth e') = Some lv \<and> au_used_nonces (e_auth e') = au_used_nonces (e_auth e2)"
proof -
  let ?pem = "tester_cert_pem (lb_provider L) cs"
  let ?key = "sign_ecdsa (lb_provider L) (cs_tester_key cs) (lb_random L (br_draws s)) nonce"
  let ?d = "positive [(''challenge'', json_of_ints (list_of_bytes nonce)), (''ecu_cert'', cert)]"
  let ?s1 = "s\<lparr>br_next_id := br_next_id s + 1, br_ecu := Some e1\<rparr>"
  let ?s2 = "?s1\<lparr>br_draws := br_draws s + 1\<rparr>"
  let ?used = "au_used_nonces (e_auth e2)"
  have accepted: "au_granted (e_auth e2) = Some lv" "nonce \<in> ?used"
    using accepted_proof [OF _ challenge_pending] assms(5,6) by auto
  have first: "alone (call_dict L (\<lambda>link. cl_communicate_certificate link ?pem)) s = (Inr ?d, ?s1)"
    using on_client_call [OF assms(1,2,5)] by (simp add: client_calls)
  have d: "truthy (get_json ?d ''positive'')" "challenge_of ?d = Inr nonce"
    by (simp_all add: positive_def get_json_def dict_get_def challenge_of_def)
  have sign: "alone (tester_sign L nonce) ?s1 = (Inr ?key, ?s2)"
    using assms(4) by (simp add: tester_sign_def with_store_def fresh_random_def alone_bind)
  let ?s3 = "snd (alone (on_client L (\<lambda>link. cl_verify_proof link ?key)) ?s2)"
  have holds: "holds_level lv ?used ?s3"
    using on_client_state [OF op_requests(10), of ?s2 e1 L ?key] accepted(1) assms(6) by (auto simp: holds_level_def)
  have "alone (cmd_replay L) s =
      alone (bind_act (on_client L (\<lambda>link. cl_verify_proof link ?key)) (\<lambda>_. replay_again L ?pem nonce ?key)) ?s2"
    using assms(3)
    by (simp only: cmd_replay_def alone_reads if_False alone_with_store [OF assms(4)] Let_def alone_then [OF first] d
        simp_thms alone_then [OF sign] replay_again_def)
  moreover have "holds_level lv ?used (snd (alone
      (bind_act (on_client L (\<lambda>link. cl_verify_proof link ?key)) (\<lambda>_. replay_again L ?pem nonce ?key)) ?s2))"
    by (rule alone_bind_pred [where Q = "holds_level lv ?used", OF holds])
      (use replay_tail [OF holds accepted(2)] in simp)
  ultimately have "holds_level lv ?used (snd (alone (cmd_replay L) s))" by simp
  then show ?thesis by (simp add: handle_cmd_def as_dict_def return_act_def get_json_def dict_get_def holds_level_def)
qed

definition replay_bridge :: bridge where
  "replay_bridge =
     (sample_bridge (snd (run (ecu_step sample_provider) [Call 1 (DiagnosticSessionControl 3)] (started_ecu lab_world))))
       \<lparr>br_last_seed := Some [0], br_cert_store := Some sample_store\<rparr>"

theorem replay_demo_leaves_grant_witness:
  "\<exists>e'. br_ecu (snd (alone (handle_cmd sample_lab (JObj [(''cmd'', JStr ''inject_replay_nonce'')])) replay_bridge)) =
      Some e' \<and> au_granted (e_auth e') = Some ''ENGINEERING''"
proof -
  let ?e = "snd (run (ecu_step sample_provider) [Call 1 (DiagnosticSessionControl 3)] (started_ecu lab_world))"
  have key: "verify_proof_signature sample_provider (cs_tester_cert sample_store) (3 # replicate 16 0)
      (replicate 16 0) = Inr True"
    by (simp add: verify_proof_signature_def sample_store_def generate_in_memory_def Let_def signed_leaf_def
        sample_provider_def)
  have sign: "sign_ecdsa sample_provider (cs_tester_key sample_store) k (replicate 16 0) = 3 # replicate 16 0" for k
    by (simp add: sign_ecdsa_def sample_store_simps sample_provider_def)
  obtain e1 where 1: "handle sample_provider 1 (AuthenticateCommunicateCertificate sample_pem) ?e =
      (Inr (positive [(''challenge'', json_of_ints (list_of_bytes (replicate 16 0))), (''ecu_cert'', JNull)]), e1)"
    and e1: "e1 = snd (handle sample_provider 1 (AuthenticateCommunicateCertificate sample_pem) ?e)"
    by (simp add: ecu_eval lab_world_def sample_communicate authentication_init_def policy_simps list_of_bytes_def)
  obtain e2 where 2: "handle sample_provider 1 (AuthenticateVerifyProof (list_of_bytes (3 # replicate 16 0))) e1 =
      (Inr (positive [(''access_level'', JStr ''ENGINEERING'')]), e2)"
    unfolding e1
    by (simp add: ecu_eval lab_world_def sample_communicate authentication_init_def verify_proof_def key policy_simps)
  have "br_ecu replay_bridge = Some ?e" "br_conn replay_bridge = 1" "br_last_seed replay_bridge \<noteq> None"
    "br_cert_store replay_bridge = Some sample_store"
    by (simp_all add: replay_bridge_def)
  moreover have "reachable (lb_provider sample_lab) ?e"
    using reachable_started [of sample_provider "[Call 1 (DiagnosticSessionControl 3)]" lab_world] by simp
  ultimately show ?thesis
    using replay_demo_leaves_grant [of replay_bridge ?e sample_lab sample_store "replicate 16 0" JNull e1 "''ENGINEERING''" e2]
      1 2 by (simp add: sign flip: sample_pem_def) blast
qed

end
