(* ===== verification/Access_Model.thy ===== *)
theory Access_Model
  imports ECU_Runs
begin

text \<open>
  What the ECU promises about access, without clocks, cryptography, counters and messages: who owns the
  session, which challenges are outstanding, which levels are held, and the events that may change
  this. The detailed ECU refines the model: each call is a sequence of events whose guards hold, and the
  events that grant a level are exactly the answers that report one.

  The model has an event for the inactivity timeout, and that event alone takes the session away without the
  levels. So a run in which no session times out keeps every level with the connection that earned it.
\<close>

section \<open>The abstract machine\<close>

record access =
  ac_session :: int
  ac_owner :: "int option"
  ac_seeds :: "int set"
  ac_key_level :: "string option"
  ac_proving :: bool
  ac_cert_level :: "string option"

datatype access_event =
    Expire
  | Enter int int
  | Leave int
  | TamperReset int
  | Release
  | Sweep
  | SeedIssued int int
  | KeyAccepted int int string
  | KeySpent int int
  | CertAccepted int
  | ProofAccepted int string
  | ProofSpent int
  | Dropped int

definition cleared :: "access \<Rightarrow> access" where
  "cleared a =
     a\<lparr>ac_owner := None, ac_seeds := {}, ac_key_level := None, ac_proving := False, ac_cert_level := None\<rparr>"

definition owned :: "access \<Rightarrow> int \<Rightarrow> bool" where
  "owned a c \<longleftrightarrow> ac_session a \<noteq> DEFAULT \<and> ac_owner a = Some c"

definition key_busy :: "access \<Rightarrow> bool" where
  "key_busy a \<longleftrightarrow> ac_seeds a \<noteq> {} \<or> ac_key_level a \<noteq> None"

definition cert_busy :: "access \<Rightarrow> bool" where
  "cert_busy a \<longleftrightarrow> ac_proving a \<or> ac_cert_level a \<noteq> None"

text \<open>Session and level of a seed subfunction, and the seed subfunction of a key subfunction.\<close>

definition seed_rule :: "int \<rightharpoonup> int \<times> string" where
  "seed_rule = [1 \<mapsto> (EXTENDED, ''CALIBRATION''), 3 \<mapsto> (PROGRAMMING, ''ECU_PROGRAMMING'')]"

definition key_rule :: "int \<rightharpoonup> int" where
  "key_rule = [2 \<mapsto> 1, 4 \<mapsto> 3]"

definition proof_level :: "int \<Rightarrow> string" where
  "proof_level sess = (if sess = PROGRAMMING then ''FULL_ACCESS'' else ''ENGINEERING'')"

inductive access_step :: "access \<Rightarrow> access_event \<Rightarrow> access \<Rightarrow> bool" where
  expire: "ac_session a \<noteq> DEFAULT \<Longrightarrow> access_step a Expire (a\<lparr>ac_session := DEFAULT\<rparr>)"
| enter: "ac_session a = DEFAULT \<or> owned a c \<Longrightarrow> session_move (ac_session a) t \<Longrightarrow> t \<noteq> DEFAULT \<Longrightarrow>
    access_step a (Enter c t) (a\<lparr>ac_session := t, ac_owner := Some c\<rparr>)"
| leave: "ac_session a = DEFAULT \<or> owned a c \<Longrightarrow> access_step a (Leave c) ((cleared a)\<lparr>ac_session := DEFAULT\<rparr>)"
| tamper_reset: "access_step a (TamperReset c) ((cleared a)\<lparr>ac_session := DEFAULT\<rparr>)"
| release: "ac_session a = DEFAULT \<Longrightarrow> access_step a Release (a\<lparr>ac_owner := None\<rparr>)"
| sweep: "ac_session a = DEFAULT \<Longrightarrow> access_step a Sweep (cleared a)"
| seed_issued: "owned a c \<Longrightarrow> seed_rule sf = Some (ac_session a, lv) \<Longrightarrow> \<not> cert_busy a \<Longrightarrow>
    access_step a (SeedIssued c sf) (a\<lparr>ac_seeds := insert sf (ac_seeds a)\<rparr>)"
| key_accepted: "owned a c \<Longrightarrow> key_rule ss = Some sf \<Longrightarrow> seed_rule sf = Some (ac_session a, lv) \<Longrightarrow> sf \<in> ac_seeds a \<Longrightarrow>
    access_step a (KeyAccepted c ss lv) (a\<lparr>ac_seeds := ac_seeds a - {sf}, ac_key_level := Some lv\<rparr>)"
| key_spent: "owned a c \<Longrightarrow> key_rule ss = Some sf \<Longrightarrow> seed_rule sf = Some (ac_session a, lv) \<Longrightarrow> sf \<in> ac_seeds a \<Longrightarrow>
    access_step a (KeySpent c ss) (a\<lparr>ac_seeds := ac_seeds a - {sf}\<rparr>)"
| cert_accepted: "owned a c \<Longrightarrow> \<not> key_busy a \<Longrightarrow> access_step a (CertAccepted c) (a\<lparr>ac_proving := True\<rparr>)"
| proof_accepted: "owned a c \<Longrightarrow> ac_proving a \<Longrightarrow> lv = proof_level (ac_session a) \<Longrightarrow>
    access_step a (ProofAccepted c lv) (a\<lparr>ac_proving := False, ac_cert_level := Some lv\<rparr>)"
| proof_spent: "owned a c \<Longrightarrow> ac_proving a \<Longrightarrow> access_step a (ProofSpent c) (a\<lparr>ac_proving := False\<rparr>)"
| dropped: "ac_session a = DEFAULT \<or> owned a c \<Longrightarrow>
    access_step a (Dropped c) (a\<lparr>ac_proving := False, ac_cert_level := None\<rparr>)"

inductive_cases access_step_elim: "access_step a ev a'"

inductive access_run :: "access \<Rightarrow> access_event list \<Rightarrow> access \<Rightarrow> bool" where
  access_nil: "access_run a [] a"
| access_snoc: "access_run a evs b \<Longrightarrow> access_step b ev c \<Longrightarrow> access_run a (evs @ [ev]) c"

lemma access_run_append: "access_run b evs' c \<Longrightarrow> access_run a evs b \<Longrightarrow> access_run a (evs @ evs') c"
  by (induction b evs' c rule: access_run.induct) (simp_all flip: append_assoc add: access_snoc)

lemma access_run_one: "access_step a ev b \<Longrightarrow> access_run a [ev] b"
  using access_snoc [OF access_nil] by fastforce

text \<open>The levels granted in a sequence of events, with the connection each was granted to.\<close>

fun granted_by :: "access_event \<Rightarrow> (int \<times> string) list" where
  "granted_by (KeyAccepted c _ lv) = [(c, lv)]"
| "granted_by (ProofAccepted c lv) = [(c, lv)]"
| "granted_by _ = []"

definition grants :: "access_event list \<Rightarrow> (int \<times> string) list" where
  "grants evs = concat (map granted_by evs)"

lemma grants_simps [simp]:
  "grants [] = []" "grants (ev # evs) = granted_by ev @ grants evs" "grants (evs @ evs') = grants evs @ grants evs'"
  by (simp_all add: grants_def)

section \<open>What the abstract machine keeps\<close>

definition levels_of :: "access \<Rightarrow> string set" where
  "levels_of a = set_option (ac_key_level a) \<union> set_option (ac_cert_level a)"

definition no_access :: "access \<Rightarrow> bool" where
  "no_access a \<longleftrightarrow> ac_session a = DEFAULT \<and> \<not> key_busy a \<and> \<not> cert_busy a"

text \<open>The two mechanisms exclude each other, in every run.\<close>

lemma access_exclusion:
  "access_run a evs b \<Longrightarrow> no_access a \<Longrightarrow> \<not> (key_busy b \<and> cert_busy b)"
proof (induction a evs b rule: access_run.induct)
  case (access_snoc a evs b ev c)
  from access_snoc.hyps(2) access_snoc.IH [OF access_snoc.prems] show ?case
    by (cases rule: access_step.cases) (auto simp: key_busy_def cert_busy_def cleared_def)
qed (simp add: no_access_def)

text \<open>As long as no session expires, a level is held in a session whose owner was the last to be granted one, and
  it is that one.\<close>

lemma access_earned:
  "access_run a evs b \<Longrightarrow> no_access a \<Longrightarrow> Expire \<notin> set evs \<Longrightarrow> lv \<in> levels_of b \<Longrightarrow>
    \<exists>c. owned b c \<and> grants evs \<noteq> [] \<and> last (grants evs) = (c, lv)"
proof (induction a evs b arbitrary: lv rule: access_run.induct)
  case (access_snoc a evs b ev d)
  have excl: "\<not> (key_busy b \<and> cert_busy b)" using access_exclusion access_snoc.hyps(1) access_snoc.prems(1) .
  have IH: "\<exists>c. owned b c \<and> grants evs \<noteq> [] \<and> last (grants evs) = (c, lv)" if "lv \<in> levels_of b" for lv
    using access_snoc.IH that access_snoc.prems by simp
  have IH': "\<exists>c. owned b c \<and> grants evs \<noteq> [] \<and> last (grants evs) = (c, lv)"
    if "ac_key_level b = Some lv \<or> ac_cert_level b = Some lv" for lv
    using IH that by (auto simp: levels_of_def)
  from access_snoc.hyps(2) access_snoc.prems excl IH' show ?case
    by (cases rule: access_step.cases)
      (fastforce simp: levels_of_def owned_def cleared_def key_busy_def cert_busy_def)+
qed (auto simp: no_access_def levels_of_def key_busy_def cert_busy_def)

end
