(* ===== verification/Access_Refinement.thy ===== *)
theory Access_Refinement
  imports Access_Model
begin

text \<open>
  The ECU refines the abstract machine of \<open>Access_Model\<close>. \<open>access_of\<close> forgets the clocks, the keys, the counters and
  the log. A call is simulated by a short sequence of events (\<open>sim\<close>); the lemmas follow the handlers. An
  event of the timeout occurs only in a call that finds an elevated session a timeout after its last activity
  (\<open>times_out\<close>).
\<close>

section \<open>The abstraction\<close>

definition access_of :: "ecu \<Rightarrow> access" where
  "access_of e =
     \<lparr>ac_session = sm_session (e_sm e), ac_owner = e_owner e, ac_seeds = dom (sa_pending_seeds (e_sa e)),
      ac_key_level = sa_granted (e_sa e), ac_proving = (au_pending_tester_cert (e_auth e) \<noteq> None),
      ac_cert_level = au_granted (e_auth e)\<rparr>"

lemma access_of_simps [simp]:
  "ac_session (access_of e) = sm_session (e_sm e)" "ac_owner (access_of e) = e_owner e"
  "ac_seeds (access_of e) = dom (sa_pending_seeds (e_sa e))" "ac_key_level (access_of e) = sa_granted (e_sa e)"
  "ac_proving (access_of e) = (au_pending_tester_cert (e_auth e) \<noteq> None)"
  "ac_cert_level (access_of e) = au_granted (e_auth e)"
  by (simp_all add: access_of_def)

lemma access_of_cleared:
  "access_of (clear_access_levels e) = cleared (access_of e)"
  by (simp add: access_of_def cleared_def clear_access_levels_def clear_access_def auth_clear_access_def)

lemma busy_of [simp]:
  "key_busy (access_of e) \<longleftrightarrow> sa_busy (e_sa e)" "cert_busy (access_of e) \<longleftrightarrow> auth_busy (e_auth e)"
  by (auto simp: key_busy_def cert_busy_def sa_busy_def auth_busy_def)

section \<open>Timeouts\<close>

text \<open>
  The inactivity timeout concerns elevated sessions only. Between two states a session may time out if the first has an
  elevated session and the clock is read a timeout after its last activity. From the Default session a
  session can be entered and time out only if the readings themselves span a timeout.
\<close>

definition active_since :: "session_sm \<Rightarrow> seconds" where
  "active_since sm = (if sm_session sm = DEFAULT then next_time sm else min (sm_last_activity sm) (next_time sm))"

definition times_out :: "session_sm \<Rightarrow> session_sm \<Rightarrow> bool" where
  "times_out sm sm' \<longleftrightarrow> (\<exists>k \<in> set [mono_reads sm ..< mono_reads sm'].
     sm_timeout sm \<le> mono_clock sm k - active_since sm)"

definition later :: "session_sm \<Rightarrow> session_sm \<Rightarrow> bool" where
  "later sm sm' \<longleftrightarrow> mono_reads sm \<le> mono_reads sm' \<and> mono_clock sm' = mono_clock sm \<and> sm_timeout sm' = sm_timeout sm \<and>
     active_since sm \<le> active_since sm'"

lemma later_step: "clock_ok sm \<Longrightarrow> later sm (snd (session_step op sm))"
proof -
  assume ok: "clock_ok sm"
  have le: "next_time sm \<le> next_time s" if "advances sm s" for s :: session_sm
    using advances_next_time [OF ok that] .
  have adv: "advances sm (snd (session_step op sm))"
    by (cases op) (simp_all add: advances_def [of _ "_\<lparr>mono_reads := _, wall_reads := _, rand_reads := _\<rparr>"])
  let ?s = "snd (session_step op sm)"
  have "sm_last_activity ?s = sm_last_activity sm \<and> (sm_session sm = DEFAULT \<longrightarrow> sm_session ?s = DEFAULT) \<or>
      next_time sm \<le> sm_last_activity ?s"
    using le by (cases op) (auto simp: transition_def Let_def reset_def live_session_def)
  moreover have "sm_timeout ?s = sm_timeout sm" by (cases op) simp_all
  ultimately show ?thesis using adv le [OF adv]
    by (auto simp: later_def active_since_def advances_def min_le_iff_disj)
qed

lemma later_trans: "later a b \<Longrightarrow> later b c \<Longrightarrow> later a c"
  by (auto simp: later_def)

lemma later_reach:
  assumes "session_reach sm sm'" "clock_ok sm"
  shows "later sm sm'"
proof -
  have "later sm (snd (run session_step ops sm)) \<and> clock_ok (snd (run session_step ops sm))" for ops
  proof (induction ops rule: rev_induct)
    case (snoc op ops)
    let ?s = "snd (run session_step ops sm)"
    have step: "later ?s (snd (session_step op ?s))" using later_step snoc by blast
    with snoc have "clock_ok (snd (session_step op ?s))" by (auto simp: later_def clock_ok_def)
    with snoc step later_trans show ?case by auto
  qed (use assms(2) in \<open>simp add: later_def\<close>)
  then show ?thesis using assms(1) by (auto simp: session_reach_def)
qed

lemma times_out_weaken:
  assumes "later a b" "later c d" "times_out b c"
  shows "times_out a d"
proof -
  obtain k where k: "mono_reads b \<le> k" "k < mono_reads c"
    "sm_timeout b \<le> mono_clock b k - active_since b"
    using assms(3) by (auto simp: times_out_def)
  with assms(1) have "sm_timeout a \<le> mono_clock a k - active_since a"
    unfolding later_def by (metis diff_left_mono order_trans)
  with k assms(1,2) show ?thesis unfolding times_out_def later_def by (intro bexI [of _ k]) auto
qed

section \<open>Simulation of a call\<close>

definition sim :: "(int \<times> string) list \<Rightarrow> ecu \<Rightarrow> ecu \<Rightarrow> bool" where
  "sim gs e e' \<longleftrightarrow> (clock_ok (e_sm e) \<longrightarrow> later (e_sm e) (e_sm e')) \<and>
     (\<exists>evs. access_run (access_of e) evs (access_of e') \<and> grants evs = gs \<and>
        (clock_ok (e_sm e) \<longrightarrow> Expire \<in> set evs \<longrightarrow> times_out (e_sm e) (e_sm e')))"

lemma sim_trans [trans]:
  assumes "sim gs e e1" "sim hs e1 e2"
  shows "sim (gs @ hs) e e2"
proof -
  obtain evs where 1: "access_run (access_of e) evs (access_of e1)" "grants evs = gs"
    "clock_ok (e_sm e) \<Longrightarrow> Expire \<in> set evs \<Longrightarrow> times_out (e_sm e) (e_sm e1)" "clock_ok (e_sm e) \<Longrightarrow> later (e_sm e) (e_sm e1)"
    using assms(1) by (auto simp: sim_def)
  obtain evs' where 2: "access_run (access_of e1) evs' (access_of e2)" "grants evs' = hs"
    "clock_ok (e_sm e1) \<Longrightarrow> Expire \<in> set evs' \<Longrightarrow> times_out (e_sm e1) (e_sm e2)" "clock_ok (e_sm e1) \<Longrightarrow> later (e_sm e1) (e_sm e2)"
    using assms(2) by (auto simp: sim_def)
  have time: "later (e_sm e) (e_sm e2) \<and> (Expire \<in> set (evs @ evs') \<longrightarrow> times_out (e_sm e) (e_sm e2))"
    if ok: "clock_ok (e_sm e)"
  proof -
    have l1: "later (e_sm e) (e_sm e1)" using 1(4) ok .
    then have ok1: "clock_ok (e_sm e1)" using ok by (simp add: later_def clock_ok_def)
    have l2: "later (e_sm e1) (e_sm e2)" using 2(4) ok1 .
    have refl: "later s s" for s by (simp add: later_def)
    from 1(3) [OF ok] 2(3) [OF ok1] show ?thesis
      using times_out_weaken [OF refl l2] times_out_weaken [OF l1 refl] later_trans [OF l1 l2] by auto
  qed
  with access_run_append [OF 2(1) 1(1)] 1(2) 2(2) show ?thesis
    unfolding sim_def by (intro conjI exI [of _ "evs @ evs'"]) auto
qed

lemmas sim_quiet = sim_trans [of "[]" e e1 gs e2 for e e1 gs e2, simplified]
lemmas sim_end = sim_trans [of gs e e1 "[]" e2 for e e1 gs e2, simplified]

lemma sim_same: "session_reach (e_sm e) (e_sm e') \<Longrightarrow> access_of e' = access_of e \<Longrightarrow> sim [] e e'"
  unfolding sim_def by (auto intro!: exI [of _ "[]"] access_nil later_reach)

lemma sim_eventI:
  assumes "access_step (access_of e) ev a" "access_of e' = a" "ev \<noteq> Expire" "gs = granted_by ev"
    and "clock_ok (e_sm e) \<Longrightarrow> later (e_sm e) (e_sm e')"
  shows "sim gs e e'"
  using assms unfolding sim_def by (auto intro!: exI [of _ "[ev]"] access_run_one)

lemma later_intros [intro]:
  "later sm sm"
  "clock_ok sm \<Longrightarrow> later sm (touch (sm\<lparr>sm_session := t\<rparr>))"
  "clock_ok sm \<Longrightarrow> later sm (touch sm)"
  "clock_ok sm \<Longrightarrow> later sm (reset sm)"
proof -
  assume ok: "clock_ok sm"
  then have "later sm (touch sm)" by (intro later_reach) auto
  have "next_time sm \<le> next_time (touch (sm\<lparr>sm_session := t\<rparr>))" by (rule advances_next_time [OF ok]) simp
  moreover have "mono_reads sm \<le> mono_reads (touch (sm\<lparr>sm_session := t\<rparr>)) \<and>
      mono_clock (touch (sm\<lparr>sm_session := t\<rparr>)) = mono_clock sm \<and> next_time (sm\<lparr>sm_session := t\<rparr>) = next_time sm"
    by (simp add: touch_def monotonic_def next_time_def Let_def)
  ultimately show "later sm (touch (sm\<lparr>sm_session := t\<rparr>))" "later sm (touch sm)"
    using \<open>later sm (touch sm)\<close> by (auto simp: later_def active_since_def min_le_iff_disj)
qed (auto simp: later_def [of sm sm] intro: later_reach)

text \<open>Every call of \<open>current\<close> may find the session timed out.\<close>

lemma sim_check: "sim [] e (e\<lparr>e_sm := check_timeout (e_sm e)\<rparr>)"
proof (cases "expired (e_sm e)")
  case False
  then have "live_session (e_sm e) = sm_session (e_sm e)" by (simp add: live_session_def)
  then show ?thesis by (intro sim_same) (auto simp: access_of_def)
next
  case True
  let ?sm = "check_timeout (e_sm e)"
  have def: "live_session (e_sm e) = DEFAULT" "sm_session (e_sm e) \<noteq> DEFAULT"
    using True by (simp_all add: live_session_def expired_def)
  have "access_of (e\<lparr>e_sm := ?sm\<rparr>) = (access_of e)\<lparr>ac_session := DEFAULT\<rparr>"
    using def by (simp add: access_of_def)
  with def have "access_step (access_of e) Expire (access_of (e\<lparr>e_sm := ?sm\<rparr>))"
    by (metis access_of_simps(1) expire)
  moreover have "mono_reads ?sm = Suc (mono_reads (e_sm e))"
    using def by (simp add: check_timeout_def monotonic_def Let_def case_prod_unfold)
  then have "times_out (e_sm e) ?sm"
    using True by (auto simp: times_out_def active_since_def expired_def next_time_def min_def)
  ultimately show ?thesis
    unfolding sim_def by (auto intro!: exI [of _ "[Expire]"] access_run_one later_reach)
qed

lemmas sim_checked = sim_quiet [OF sim_check]

section \<open>The handlers\<close>

text \<open>The level a call reports as granted, with the connection that made the call.\<close>

fun access_grants :: "ecu_input \<Rightarrow> exn + dict \<Rightarrow> (int \<times> string) list" where
  "access_grants (Call c req) (Inr resp) =
     (if (case req of SecurityAccessSendKey _ _ \<Rightarrow> True | AuthenticateVerifyProof _ \<Rightarrow> True | _ \<Rightarrow> False)
      then (case (dict_get resp ''positive'', dict_get resp ''access_level'') of
              (Some (JBool True), Some (JStr lv)) \<Rightarrow> [(c, lv)]
            | _ \<Rightarrow> [])
      else [])"
| "access_grants _ _ = []"

lemma access_grants_simps [simp]:
  "access_grants (Call c req) (Inr (negative nrc)) = []"
  "access_grants (Call c (SecurityAccessSendKey ss key)) (Inr (positive [(''access_level'', JStr lv)])) = [(c, lv)]"
  "access_grants (Call c (AuthenticateVerifyProof p)) (Inr (positive [(''access_level'', JStr lv)])) = [(c, lv)]"
  by (simp_all add: negative_def positive_def opt_json_def dict_get_def split: request.split)

declare access_grants.simps(1) [simp del]

text \<open>What the simulation needs to know of the state, all of it kept by every call.\<close>

definition sim_ok :: "ecu \<Rightarrow> bool" where
  "sim_ok e \<longleftrightarrow> valid_session (e_sm e) \<and> sa_levels (e_sa e) = ecu_levels \<and> mech_inv e"

lemma sim_ok_check: "sim_ok e \<Longrightarrow> sim_ok (e\<lparr>e_sm := check_timeout (e_sm e)\<rparr>)"
  by (simp add: sim_ok_def)

lemma access_of_eqI:
  "sm_session (e_sm e') = sm_session (e_sm e) \<Longrightarrow> e_owner e' = e_owner e \<Longrightarrow> e_sa e' = e_sa e \<Longrightarrow> e_auth e' = e_auth e \<Longrightarrow>
    access_of e' = access_of e"
  by (simp add: access_of_def)

text \<open>The guard at the head of a handler: it goes on for the owner of the session, or in the Default session.\<close>

lemma owned_check:
  "\<not> (live_session (e_sm e) \<noteq> DEFAULT \<and> e_owner e \<noteq> Some c) \<Longrightarrow>
    sm_session (e_sm e') = live_session (e_sm e) \<Longrightarrow> e_owner e' = e_owner e \<Longrightarrow>
    ac_session (access_of e') = DEFAULT \<or> owned (access_of e') c"
  by (auto simp: owned_def)

lemma sim_release: "sm_session (e_sm e) = DEFAULT \<Longrightarrow> sim [] e (e\<lparr>e_owner := None\<rparr>)"
  by (rule sim_eventI [OF release]) (auto simp: access_of_def)

lemma sim_sweep: "sm_session (e_sm e) = DEFAULT \<Longrightarrow> sim [] e (clear_access_levels e)"
  by (rule sim_eventI [OF sweep]) (auto simp: access_of_cleared)

lemma sim_dropped:
  "ac_session (access_of e) = DEFAULT \<or> owned (access_of e) c \<Longrightarrow>
    sim [] e (e\<lparr>e_auth := snd (deauthenticate (e_auth e))\<rparr>)"
  by (rule sim_eventI [OF dropped]) (auto simp: access_of_def deauthenticate_def)

lemma sim_emit: "sim [] e (emit_event ev e)"
  by (rule sim_same) (auto simp: access_of_def)

lemma sim_quiet_calls:
  "sim [] e (snd (rpc_get_session_state c e))" "sim [] e (snd (rpc_check_access lv e))"
  "sim [] e (snd (rpc_deauthenticate c e))" "sim [] e (snd (rpc_inject_replay_nonce n e))"
proof -
  let ?e = "e\<lparr>e_sm := check_timeout (e_sm e)\<rparr>"
  show "sim [] e (snd (rpc_check_access lv e))"
    using sim_checked [OF sim_sweep [of ?e]] sim_check
    by (simp add: rpc_check_access_def ecu_current_pair Let_def)
  have "sim [] ?e (?e\<lparr>e_sm := touch (e_sm ?e)\<rparr>)" by (rule sim_same) (auto simp: access_of_def)
  from sim_checked [OF this] sim_checked [OF sim_release [of ?e]] sim_check [of e]
  show "sim [] e (snd (rpc_get_session_state c e))"
    by (auto simp: rpc_get_session_state_def ecu_current_pair Let_def)
  from sim_checked [OF sim_dropped [of ?e c]] sim_check [of e]
  show "sim [] e (snd (rpc_deauthenticate c e))"
    by (auto simp: rpc_deauthenticate_def ecu_current_pair Let_def case_prod_unfold owned_def)
  show "sim [] e (snd (rpc_inject_replay_nonce n e))"
    by (auto simp: rpc_inject_replay_nonce_def access_of_def inject_pending_nonce_for_test_def
        intro!: sim_same split: sum.split)
qed

lemma sim_inject_tamper: "sim [] e (snd (rpc_inject_tamper c e))"
proof (rule sim_eventI [OF tamper_reset])
  show "access_of (snd (rpc_inject_tamper c e)) = (cleared (access_of e))\<lparr>ac_session := DEFAULT\<rparr>"
    by (simp add: rpc_inject_tamper_def access_of_def cleared_def clear_access_def auth_clear_access_def)
  show "later (e_sm e) (e_sm (snd (rpc_inject_tamper c e)))" if "clock_ok (e_sm e)"
    using that by (intro later_reach) (auto simp: rpc_inject_tamper_def intro: session_reach_steps)
qed simp_all

lemma session_move_of_transition:
  assumes "valid_session sm" "fst (fst (transition t sm))"
  shows "session_move (live_session sm) t"
  using assms valid_live [OF assms(1)]
  by (auto simp: transition_def Let_def session_move_iff VALID_def session_ids split: if_splits)

lemma transition_cases:
  obtains "fst (transition t sm) = (True, None)" "snd (transition t sm) = touch ((check_timeout sm)\<lparr>sm_session := t\<rparr>)"
  | "fst (transition t sm) = (False, Some 0x22)" "snd (transition t sm) = check_timeout sm"
proof (cases "fst (fst (transition t sm))")
  case True
  then have "snd (transition t sm) = touch ((check_timeout sm)\<lparr>sm_session := t\<rparr>)"
    using touch_session_same [of "check_timeout sm" t] by (auto simp: transition_def Let_def split: if_splits)
  with True transition_result [of t sm] that(1) show thesis by auto
next
  case False
  then have "snd (transition t sm) = check_timeout sm" by (auto simp: transition_def Let_def split: if_splits)
  with False transition_result [of t sm] that(2) show thesis by auto
qed

text \<open>Entering a session: the clock is read once more before the owner is set.\<close>

lemma sim_enter:
  assumes "ac_session (access_of e) = DEFAULT \<or> owned (access_of e) c" "session_move (sm_session (e_sm e)) t" "t \<noteq> DEFAULT"
  shows "sim [] e (e\<lparr>e_owner := Some c, e_sm := check_timeout (touch ((e_sm e)\<lparr>sm_session := t\<rparr>))\<rparr>)"
proof -
  let ?e' = "e\<lparr>e_sm := touch ((e_sm e)\<lparr>sm_session := t\<rparr>), e_owner := Some c\<rparr>"
  have "sim [] e ?e'"
    by (rule sim_eventI [OF enter [OF assms(1), of t]]) (use assms(2,3) in \<open>auto simp: access_of_def\<close>)
  from sim_quiet [OF this sim_check] show ?thesis by simp
qed

lemma sim_leave:
  assumes "ac_session (access_of e) = DEFAULT \<or> owned (access_of e) c"
  shows "sim [] e (clear_access_levels (e\<lparr>e_sm := touch ((e_sm e)\<lparr>sm_session := DEFAULT\<rparr>)\<rparr>))"
  by (rule sim_eventI [OF leave [OF assms]])
    (auto simp: access_of_cleared, simp add: access_of_def cleared_def)

lemma sim_session_control:
  assumes "sim_ok e"
  shows "sim [] e (snd (rpc_session_control c t e))"
proof (cases "live_session (e_sm e) \<noteq> DEFAULT \<and> e_owner e \<noteq> Some c")
  case True
  then show ?thesis using sim_check by (simp add: rpc_session_control_def ecu_current_pair Let_def)
next
  case guard: False
  let ?e1 = "e\<lparr>e_sm := check_timeout (e_sm e)\<rparr>"
  let ?e2 = "?e1\<lparr>e_sm := check_timeout (e_sm ?e1)\<rparr>"
  have e2: "sim [] e ?e2" using sim_checked [OF sim_check [of ?e1]] by simp
  have own: "ac_session (access_of ?e2) = DEFAULT \<or> owned (access_of ?e2) c"
    using guard by (auto simp: owned_def live_session_def [of "check_timeout (e_sm e)"])
  show ?thesis
  proof (cases rule: transition_cases [of t "e_sm ?e1"])
    case 2
    with e2 guard show ?thesis
      by (auto simp: rpc_session_control_def ecu_current_pair Let_def case_prod_unfold)
  next
    case 1
    let ?sm = "touch ((e_sm ?e2)\<lparr>sm_session := t\<rparr>)"
    have move: "session_move (sm_session (e_sm ?e2)) t"
      using session_move_of_transition [of "e_sm ?e1" t] 1 assms by (simp add: sim_ok_def)
    let ?e4 = "e\<lparr>e_sm := check_timeout ?sm\<rparr>"
    have res: "snd (rpc_session_control c t e) =
        (if live_session ?sm \<noteq> DEFAULT
         then emit_event (audit_event_of ''SESSION_START'' 0x10 None c ''success'' None) (?e4\<lparr>e_owner := Some c\<rparr>)
         else emit_event (audit_event_of ''SESSION_END'' 0x10 None c ''success'' None) (clear_access_levels ?e4))"
      using 1 guard by (auto simp: rpc_session_control_def ecu_current_pair Let_def case_prod_unfold)
    show ?thesis
    proof (cases "t = DEFAULT")
      case True
      then have "live_session ?sm = DEFAULT" "check_timeout ?sm = ?sm"
        by (simp_all add: live_session_def check_timeout_def)
      with sim_quiet [OF e2 sim_quiet [OF sim_leave [OF own] sim_emit]] True show ?thesis
        unfolding res by simp
    next
      case False
      note enter = sim_quiet [OF e2 sim_enter [OF own move False]]
      show ?thesis
      proof (cases "live_session ?sm = DEFAULT")
        case True
        have "sim [] e (clear_access_levels ?e4)"
          using sim_quiet [OF enter sim_sweep] True
          by (simp add: clear_access_levels_def)
        from sim_quiet [OF this sim_emit] True show ?thesis unfolding res by simp
      next
        case False
        have swap: "?e4\<lparr>e_owner := Some c\<rparr> = e\<lparr>e_owner := Some c, e_sm := check_timeout ?sm\<rparr>" by simp
        from False sim_quiet [OF enter sim_emit] show ?thesis unfolding res swap by simp
      qed
    qed
  qed
qed

text \<open>The policy's table of subfunctions.\<close>

lemma seed_rule_levels:
  "map_of ecu_levels sf = Some cfg \<Longrightarrow> is_request_seed cfg \<Longrightarrow>
    seed_rule sf = Some (lc_required_session cfg, lc_access_level cfg) \<and> lc_required_session cfg \<noteq> DEFAULT"
  by (auto simp: ecu_levels_def seed_rule_def session_ids split: if_splits)

lemma key_rule_levels:
  "map_of ecu_levels ss = Some cfg \<Longrightarrow> is_send_key cfg \<Longrightarrow> key_rule ss = Some (lc_request_seed_subfunction cfg) \<and>
    seed_rule (lc_request_seed_subfunction cfg) = Some (lc_required_session cfg, lc_access_level cfg) \<and>
    lc_required_session cfg \<noteq> DEFAULT"
  by (auto simp: ecu_levels_def seed_rule_def key_rule_def session_ids split: if_splits)

lemma sim_readings:
  "sm' = sm \<or> sm' = check_timeout sm \<or> sm' = snd (monotonic (check_timeout sm)) \<Longrightarrow> e_sm e = sm \<Longrightarrow>
    sim [] e (e\<lparr>e_sm := sm'\<rparr>)"
  using sim_check [of e] sim_checked [of "[]" e "e\<lparr>e_sm := snd (monotonic (check_timeout sm))\<rparr>"]
    sim_same [of "e\<lparr>e_sm := check_timeout sm\<rparr>" "e\<lparr>e_sm := snd (monotonic (check_timeout sm))\<rparr>"]
    sim_same [of e e]
  by (auto simp: access_of_def)

lemma sim_mechanism: "sim [] e (e\<lparr>e_mechanism := m\<rparr>)"
  by (rule sim_same) (auto simp: access_of_def)

lemma sim_request_seed:
  assumes "sim_ok e"
  shows "sim [] e (snd (rpc_request_seed c sf e))"
proof (cases "(live_session (e_sm e) \<noteq> DEFAULT \<and> e_owner e \<noteq> Some c) \<or> e_mechanism e = Some ''0x29''")
  case True
  then show ?thesis using sim_check by (auto simp: rpc_request_seed_def ecu_current_pair Let_def)
next
  case guard: False
  let ?sm = "check_timeout (e_sm e)"
  let ?e1 = "e\<lparr>e_sm := ?sm\<rparr>"
  obtain res s' sm' where eq: "request_seed sf (e_sa e) ?sm = (res, s', sm')"
    by (cases "request_seed sf (e_sa e) ?sm") auto
  let ?e2 = "?e1\<lparr>e_sa := s', e_sm := sm'\<rparr>"
  have "snd (rpc_request_seed c sf e) = (if fst res then ?e2\<lparr>e_mechanism := Some ''0x27''\<rparr> else ?e2)"
    using guard eq by (auto simp: rpc_request_seed_def ecu_current_pair Let_def case_prod_unfold)
  moreover have "sim [] ?e1 ?e2"
    using eq
  proof (cases rule: request_seed_elim)
    case refused
    then show ?thesis using sim_readings [of sm' ?sm ?e1] by auto
  next
    case (locked_out cfg)
    then show ?thesis using sim_readings [of sm' ?sm ?e1] by auto
  next
    case (too_early cfg)
    then have "sim [] ?e1 (?e1\<lparr>e_sm := sm'\<rparr>)" using sim_readings [of sm' ?sm ?e1] by auto
    from sim_quiet [OF this sim_same] show ?thesis using too_early(7) by (simp add: access_of_def)
  next
    case (issued cfg seed sm1)
    let ?sm2 = "check_timeout ?sm"
    have rule: "seed_rule sf = Some (lc_required_session cfg, lc_access_level cfg)" "lc_required_session cfg \<noteq> DEFAULT"
      using seed_rule_levels [of sf cfg] issued(1,2) assms by (simp_all add: sim_ok_def)
    have sess: "live_session ?sm = lc_required_session cfg" by (rule issued(3))
    then have live: "live_session (e_sm e) \<noteq> DEFAULT" using rule(2) by (auto simp: live_session_def split: if_splits)
    have sm1: "sm1 = snd (os_urandom (sa_challenge_size (e_sa e)) (snd (monotonic ?sm2)))" using issued(6) by simp
    have "sim [] (?e1\<lparr>e_sm := ?sm2\<rparr>) ?e2"
    proof (rule sim_eventI [OF seed_issued])
      show "owned (access_of (?e1\<lparr>e_sm := ?sm2\<rparr>)) c" using guard live sess rule(2) by (simp add: owned_def)
      show "seed_rule sf = Some (ac_session (access_of (?e1\<lparr>e_sm := ?sm2\<rparr>)), lc_access_level cfg)"
        using rule sess by simp
      show "\<not> cert_busy (access_of (?e1\<lparr>e_sm := ?sm2\<rparr>))"
        using assms guard by (auto simp: sim_ok_def mech_inv_def)
      show "access_of ?e2 = (access_of (?e1\<lparr>e_sm := ?sm2\<rparr>))
          \<lparr>ac_seeds := insert sf (ac_seeds (access_of (?e1\<lparr>e_sm := ?sm2\<rparr>)))\<rparr>"
        using issued(8,9) sm1 by (simp add: access_of_def)
      show "later (e_sm (?e1\<lparr>e_sm := ?sm2\<rparr>)) (e_sm ?e2)" if "clock_ok (e_sm (?e1\<lparr>e_sm := ?sm2\<rparr>))"
        using that issued(8) sm1 by (auto intro!: later_reach intro: session_reach_steps)
    qed simp_all
    from sim_quiet [OF sim_readings this] show ?thesis by simp
  qed
  ultimately show ?thesis
    using sim_checked sim_checked [OF sim_quiet [OF _ sim_mechanism]] by (simp split: if_splits)
qed

lemma sim_send_key:
  assumes "sim_ok e" "rpc_send_key c ss key e = (out, e')"
  shows "sim (access_grants (Call c (SecurityAccessSendKey ss key)) out) e e'"
proof (cases "live_session (e_sm e) \<noteq> DEFAULT \<and> e_owner e \<noteq> Some c")
  case True
  then show ?thesis using assms(2) sim_check by (auto simp: rpc_send_key_def ecu_current_pair Let_def)
next
  case guard: False
  let ?sm = "check_timeout (e_sm e)"
  let ?e1 = "e\<lparr>e_sm := ?sm\<rparr>"
  show ?thesis
  proof (cases "py_bytes key")
    case (Inl ex)
    with assms(2) guard sim_check show ?thesis by (auto simp: rpc_send_key_def ecu_current_pair Let_def)
  next
    case (Inr bs)
    obtain res s' sm' where eq: "send_key ss bs (e_sa e) ?sm = (res, s', sm')"
      by (cases "send_key ss bs (e_sa e) ?sm") auto
    let ?e2 = "?e1\<lparr>e_sa := s', e_sm := sm'\<rparr>"
    let ?e1' = "?e1\<lparr>e_sm := check_timeout ?sm\<rparr>"
    have e': "e' = ?e2 \<or> (\<exists>ev. e' = emit_event ev ?e2)"
      and out: "out = map_sum id (\<lambda>(ok, lv, nrc). if ok then positive [(''access_level'', opt_json JStr lv)] else negative nrc) res"
      using assms(2) guard Inr eq
      by (auto simp: rpc_send_key_def ecu_current_pair Let_def split: sum.splits if_splits)
    have rules: "key_rule ss = Some (lc_request_seed_subfunction cfg)"
      "seed_rule (lc_request_seed_subfunction cfg) = Some (ac_session (access_of ?e1'), lc_access_level cfg)"
      "owned (access_of ?e1') c"
      if cfg: "map_of (sa_levels (e_sa e)) ss = Some cfg" "is_send_key cfg" "live_session ?sm = lc_required_session cfg" for cfg
    proof -
      from key_rule_levels [of ss cfg] cfg assms(1)
      have r: "key_rule ss = Some (lc_request_seed_subfunction cfg)" "lc_required_session cfg \<noteq> DEFAULT"
        "seed_rule (lc_request_seed_subfunction cfg) = Some (lc_required_session cfg, lc_access_level cfg)"
        by (simp_all add: sim_ok_def)
      have "live_session (e_sm e) \<noteq> DEFAULT" using cfg(3) r(2) by (auto simp: live_session_def split: if_splits)
      with r guard cfg(3) show "key_rule ss = Some (lc_request_seed_subfunction cfg)"
        "seed_rule (lc_request_seed_subfunction cfg) = Some (ac_session (access_of ?e1'), lc_access_level cfg)"
        "owned (access_of ?e1') c" by (simp_all add: owned_def)
    qed
    have "sim (access_grants (Call c (SecurityAccessSendKey ss key)) out) ?e1 ?e2"
      using eq
    proof (cases rule: send_key_elim)
      case (refused nrc)
      then show ?thesis using sim_readings [of sm' ?sm ?e1] out by auto
    next
      case (failed cfg seed r)
      note fr = record_failure_frame [OF failed(6)]
      have "sim [] ?e1' ?e2"
      proof (rule sim_eventI [OF key_spent [OF rules(3,1,2)]])
        show "lc_request_seed_subfunction cfg \<in> ac_seeds (access_of ?e1')" using failed(4) by auto
        show "access_of ?e2 = (access_of ?e1')\<lparr>ac_seeds := ac_seeds (access_of ?e1') - {lc_request_seed_subfunction cfg}\<rparr>"
          using fr by (simp add: access_of_def)
        show "later (e_sm ?e1') (e_sm ?e2)" if "clock_ok (e_sm ?e1')"
          using that failed(6) by (auto simp: record_failure_def Let_def case_prod_unfold
              intro!: later_reach intro: session_reach_steps split: option.splits if_splits)
      qed (use failed in simp_all)
      from sim_quiet [OF sim_readings this] show ?thesis using out failed(7) by (cases r) auto
    next
      case (accepted cfg seed)
      have "sim [(c, lc_access_level cfg)] ?e1' ?e2"
      proof (rule sim_eventI [OF key_accepted [OF rules(3,1,2)]])
        show "lc_request_seed_subfunction cfg \<in> ac_seeds (access_of ?e1')" using accepted(4) by auto
        show "access_of ?e2 = (access_of ?e1')\<lparr>ac_seeds := ac_seeds (access_of ?e1') - {lc_request_seed_subfunction cfg},
            ac_key_level := Some (lc_access_level cfg)\<rparr>"
          using accepted(7,8) by (simp add: access_of_def record_success_def)
        show "later (e_sm ?e1') (e_sm ?e2)" if "clock_ok (e_sm ?e1')" using that accepted(7) by auto
      qed (use accepted in simp_all)
      from sim_quiet [OF sim_readings this] show ?thesis using out accepted(6) by simp
    qed
    then have "sim (access_grants (Call c (SecurityAccessSendKey ss key)) out) e ?e2" by (rule sim_checked)
    with e' sim_end [OF this sim_emit] show ?thesis by blast
  qed
qed

lemma sim_clock:
  "session_reach (e_sm e) sm' \<Longrightarrow> sm_session sm' = sm_session (e_sm e) \<Longrightarrow> sim [] e (e\<lparr>e_sm := sm'\<rparr>)"
  by (rule sim_same) (auto simp: access_of_def)

lemma sim_communicate:
  assumes "sim_ok e"
  shows "sim [] e (snd (rpc_communicate_certificate P c pem e))"
proof (cases "live_session (e_sm e) = DEFAULT \<or> e_owner e \<noteq> Some c \<or> e_mechanism e = Some ''0x27''")
  case True
  then show ?thesis using sim_check by (auto simp: rpc_communicate_certificate_def ecu_current_pair Let_def)
next
  case guard: False
  let ?sm = "check_timeout (e_sm e)"
  let ?e1 = "e\<lparr>e_sm := ?sm\<rparr>"
  obtain res a' sm' where eq: "communicate_certificate P pem (live_session (e_sm e)) (e_auth e) ?sm = (res, a', sm')"
    by (cases "communicate_certificate P pem (live_session (e_sm e)) (e_auth e) ?sm") auto
  let ?e2 = "?e1\<lparr>e_auth := a', e_sm := sm'\<rparr>"
  have e': "snd (rpc_communicate_certificate P c pem e) = ?e2 \<or>
      snd (rpc_communicate_certificate P c pem e) = ?e2\<lparr>e_mechanism := Some ''0x29''\<rparr>"
    using guard eq by (auto simp: rpc_communicate_certificate_def ecu_current_pair Let_def split: sum.splits)
  have "sim [] ?e1 ?e2"
    using eq
  proof (cases rule: communicate_certificate_elim)
    case (raised ex)
    then show ?thesis using sim_clock [of ?e1 sm'] by auto
  next
    case (refused nrc)
    then show ?thesis using sim_clock [of ?e1 sm'] by auto
  next
    case (challenged cert cs n smn)
    have smn: "smn = snd (os_urandom (au_nonce_size (e_auth e)) (snd (utcnow ?sm)))" using challenged(4) by simp
    show ?thesis
    proof (rule sim_eventI [OF cert_accepted])
      show "owned (access_of ?e1) c" using guard by (simp add: owned_def)
      show "\<not> key_busy (access_of ?e1)" using assms guard by (auto simp: sim_ok_def mech_inv_def)
      show "access_of ?e2 = (access_of ?e1)\<lparr>ac_proving := True\<rparr>" using challenged(5,7) smn by (simp add: access_of_def)
      show "later (e_sm ?e1) (e_sm ?e2)" if "clock_ok (e_sm ?e1)"
        using that challenged(7) smn by (auto intro!: later_reach intro: session_reach_steps)
    qed simp_all
  qed
  then have "sim [] e ?e2" by (rule sim_checked)
  with e' sim_quiet [OF this sim_mechanism] show ?thesis by auto
qed

lemma sim_verify_proof:
  assumes "rpc_verify_proof P c p e = (out, e')"
  shows "sim (access_grants (Call c (AuthenticateVerifyProof p)) out) e e'"
proof (cases "live_session (e_sm e) = DEFAULT \<or> e_owner e \<noteq> Some c")
  case True
  then show ?thesis using assms sim_check by (auto simp: rpc_verify_proof_def ecu_current_pair Let_def split: if_splits)
next
  case guard: False
  let ?sm = "check_timeout (e_sm e)"
  let ?e1 = "e\<lparr>e_sm := ?sm\<rparr>"
  show ?thesis
  proof (cases "py_bytes p")
    case (Inl ex)
    with assms guard sim_check show ?thesis by (auto simp: rpc_verify_proof_def ecu_current_pair Let_def)
  next
    case (Inr bs)
    obtain res a' sm' where eq: "verify_proof P bs (live_session (e_sm e)) (e_auth e) ?sm = (res, a', sm')"
      by (cases "verify_proof P bs (live_session (e_sm e)) (e_auth e) ?sm") auto
    let ?e2 = "?e1\<lparr>e_auth := a', e_sm := sm'\<rparr>"
    have e': "e' = ?e2 \<or> (\<exists>ev. e' = emit_event ev ?e2)"
      and out: "out = map_sum id (\<lambda>(ok, lv, nrc). if ok then positive [(''access_level'', opt_json JStr lv)] else negative nrc) res"
      using assms guard Inr eq
      by (auto simp: rpc_verify_proof_def ecu_current_pair Let_def split: sum.splits if_splits)
    have own: "owned (access_of ?e1) c" using guard by (simp add: owned_def)
    have spent: "sim [] ?e1 ?e2" if "au_pending_tester_cert (e_auth e) = Some cert" "sm' = ?sm"
      "a' = (e_auth e)\<lparr>au_pending_challenge := None, au_pending_tester_cert := None\<rparr>" for cert
      by (rule sim_eventI [OF proof_spent [OF own]]) (use that in \<open>auto simp: access_of_def\<close>)
    have "sim (access_grants (Call c (AuthenticateVerifyProof p)) out) ?e1 ?e2"
      using eq
    proof (cases rule: verify_proof_elim)
      case none
      then show ?thesis using sim_same [of ?e1 ?e2] out by auto
    next
      case (replayed n cert)
      then show ?thesis using spent out by simp
    next
      case (invalid n cert)
      then show ?thesis using spent out by (simp split: verify_outcome.split)
    next
      case (accepted n cert lv)
      have "sim [(c, lv)] ?e1 ?e2"
        by (rule sim_eventI [OF proof_accepted [OF own]])
          (use accepted in \<open>auto simp: access_of_def proof_level_def\<close>)
      then show ?thesis using out accepted(6) by simp
    qed
    then have "sim (access_grants (Call c (AuthenticateVerifyProof p)) out) e ?e2" by (rule sim_checked)
    with e' sim_end [OF this sim_emit] show ?thesis by blast
  qed
qed

section \<open>The ECU\<close>

lemma access_grants_other:
  "(\<And>ss key. req \<noteq> SecurityAccessSendKey ss key) \<Longrightarrow> (\<And>p. req \<noteq> AuthenticateVerifyProof p) \<Longrightarrow>
    access_grants (Call c req) out = []"
  by (cases out) (auto simp: access_grants.simps(1) split: request.split)

lemma step_simulated:
  assumes "sim_ok e" "ecu_step P inp e = (out, e')"
  shows "sim (access_grants inp out) e e'"
proof (cases inp)
  case (Call c req)
  have other: "sim (access_grants inp out) e e'"
    if "sim [] e (snd (handle P c req e))" "\<And>ss key. req \<noteq> SecurityAccessSendKey ss key"
      "\<And>p. req \<noteq> AuthenticateVerifyProof p"
    using that access_grants_other [of req c out] assms(2) Call by (metis ecu_step.simps(1) snd_conv)
  have same: "sim [] e e" by (rule sim_same) simp_all
  show ?thesis
  proof (cases req)
    case (SecurityAccessSendKey ss key)
    then show ?thesis using sim_send_key [OF assms(1)] assms(2) Call by simp
  next
    case (AuthenticateVerifyProof p)
    then show ?thesis using sim_verify_proof assms(2) Call by simp
  qed (rule other; simp add: same sim_quiet_calls sim_inject_tamper sim_session_control [OF assms(1)]
      sim_request_seed [OF assms(1)] sim_communicate [OF assms(1)] rpc_send_uds_pdu_def
      rpc_get_access_level_def rpc_get_attempt_counter_def rpc_get_auth_access_level_def rpc_get_audit_log_def)+
next
  case (StoreRevoke th)
  then show ?thesis using assms(2) sim_same [of e e']
    by (auto simp: access_of_def revoke_thumbprint_def)
next
  case (OtherReadings k n m)
  then show ?thesis using assms(2) sim_clock [of e "other_readings k n m (e_sm e)"]
      session_reach_elsewhere [where sm = "e_sm e" and k = k and n = n and m = m]
    by (auto simp: other_readings_def)
qed

text \<open>
  The sequences of inputs in which no session times out: no call that starts in an elevated session reads the clock
  a timeout after the session's last activity, and none that starts in the Default session lasts a timeout. How
  long the Default session lasts does not matter.
\<close>

fun timely :: "provider \<Rightarrow> ecu_input list \<Rightarrow> ecu \<Rightarrow> bool" where
  "timely P [] e = True"
| "timely P (inp # inps) e =
     (let e' = snd (ecu_step P inp e)
      in (case inp of Call _ _ \<Rightarrow> \<not> times_out (e_sm e) (e_sm e') | _ \<Rightarrow> True) \<and> timely P inps e')"

lemma timely_Cons: "\<not> times_out (e_sm e) (e_sm (snd (ecu_step P inp e))) \<Longrightarrow> timely P inps (snd (ecu_step P inp e)) \<Longrightarrow>
    timely P (inp # inps) e"
  by (cases inp) (simp_all add: Let_def)

lemma reachable_sim_ok: "reachable P e \<Longrightarrow> sim_ok e"
  using reachable_inv reachable_levels by (fastforce simp: sim_ok_def ecu_inv_def handler_inv_def)

lemma reachable_later:
  assumes "reachable P e" "clock_ok (e_sm e)"
  shows "later (e_sm e) (e_sm (snd (ecu_step P inp e)))" "clock_ok (e_sm (snd (ecu_step P inp e)))"
proof -
  have "sim (access_grants inp (fst (ecu_step P inp e))) e (snd (ecu_step P inp e))"
    by (rule step_simulated [OF reachable_sim_ok [OF assms(1)]]) simp
  with assms(2) show "later (e_sm e) (e_sm (snd (ecu_step P inp e)))" by (simp add: sim_def)
  with assms(2) show "clock_ok (e_sm (snd (ecu_step P inp e)))" by (simp add: later_def clock_ok_def)
qed

text \<open>It is enough that the whole run reads the clock within a timeout of the last activity at its start.\<close>

lemma timely_if_short:
  "reachable P e \<Longrightarrow> clock_ok (e_sm e) \<Longrightarrow> later (e_sm e) (e_sm (snd (run (ecu_step P) inps e))) \<and>
    (\<not> times_out (e_sm e) (e_sm (snd (run (ecu_step P) inps e))) \<longrightarrow> timely P inps e)"
proof (induction inps arbitrary: e)
  case Nil
  then show ?case by (simp add: later_intros)
next
  case (Cons inp inps)
  note step = reachable_later [OF Cons.prems, of inp]
  note IH = Cons.IH [OF reachable_step [OF Cons.prems(1)] step(2)]
  have "timely P (inp # inps) e" if "\<not> times_out (e_sm e) (e_sm (snd (run (ecu_step P) (inp # inps) e)))"
    using that IH times_out_weaken [OF later_intros(1) conjunct1 [OF IH]] times_out_weaken [OF step(1) later_intros(1)]
    by (intro timely_Cons) auto
  with IH step(1) later_trans show ?case by auto
qed

text \<open>Only a call can find the session timed out.\<close>

lemma input_simulated:
  assumes "sim_ok e" "ecu_step P inp e = (out, e')"
  shows "\<exists>evs. access_run (access_of e) evs (access_of e') \<and> grants evs = access_grants inp out \<and>
    (clock_ok (e_sm e) \<and> timely P [inp] e \<longrightarrow> Expire \<notin> set evs)"
proof (cases inp)
  case (Call c req)
  then show ?thesis using step_simulated [OF assms] assms(2) by (auto simp: sim_def)
qed (use assms(2) in \<open>auto simp: access_of_def revoke_thumbprint_def other_readings_def intro!: exI [of _ "[]"] access_nil\<close>)

lemma run_simulated:
  "reachable P e \<Longrightarrow> run (ecu_step P) inps e = (outs, e') \<Longrightarrow>
    \<exists>evs. access_run (access_of e) evs (access_of e') \<and> grants evs = concat (map2 access_grants inps outs) \<and>
      (clock_ok (e_sm e) \<and> timely P inps e \<longrightarrow> Expire \<notin> set evs)"
proof (induction inps arbitrary: e outs)
  case Nil
  then show ?case by (auto intro!: exI [of _ "[]"] access_nil)
next
  case (Cons inp inps)
  obtain out e1 where step: "ecu_step P inp e = (out, e1)" by fastforce
  obtain outs1 where rest: "run (ecu_step P) inps e1 = (outs1, e')" "outs = out # outs1"
    using Cons.prems(2) step by (auto simp: prod_eq_iff)
  obtain evs where 1: "access_run (access_of e) evs (access_of e1)" "grants evs = access_grants inp out"
    "clock_ok (e_sm e) \<and> timely P [inp] e \<longrightarrow> Expire \<notin> set evs"
    using input_simulated [OF reachable_sim_ok [OF Cons.prems(1)] step] by blast
  have r: "reachable P e1" using reachable_step [OF Cons.prems(1), of inp] step by simp
  from Cons.IH [OF r rest(1)] obtain evs' where 2: "access_run (access_of e1) evs' (access_of e')"
    "grants evs' = concat (map2 access_grants inps outs1)"
    "clock_ok (e_sm e1) \<and> timely P inps e1 \<longrightarrow> Expire \<notin> set evs'" by blast
  have "clock_ok (e_sm e1)" if "clock_ok (e_sm e)" using reachable_later(2) [OF Cons.prems(1) that, of inp] step by simp
  with 1 2 access_run_append [OF 2(1) 1(1)] step rest(2) show ?case
    by (auto simp: Let_def intro!: exI [of _ "evs @ evs'"])
qed

section \<open>Properties\<close>

text \<open>C8: The ECU refines the abstract access machine. Every run of the ECU from a reachable state, over any calls by any
  connections, is a run of the machine between the abstractions of its ends; the grants of that run are
  the answers that report a level, in their order and with the connections that got them; and if no call that
  starts in an elevated session reads the clock a timeout after its last activity, and none that starts in the Default
  session lasts that long, no session expires in it. So a level, a challenge or the
  owner changes only by the events of the machine, with their guards.\<close>

theorem ecu_refines_access:
  assumes "reachable P e"
  shows "let (outs, e') = run (ecu_step P) inps e in
    \<exists>evs. access_run (access_of e) evs (access_of e') \<and>
      grants evs = concat (map2 access_grants inps outs) \<and>
      (clock_ok (e_sm e) \<and> timely P inps e \<longrightarrow> Expire \<notin> set evs)"
  using run_simulated [OF assms] by (auto simp: Let_def split: prod.split)

text \<open>C9: A level belongs to whom it was granted. Suppose that since the start no call that began in an elevated session
  has read the clock a timeout after the last activity of that session, and no call that began in the Default
  session has lasted that long; the ECU may stay in the Default session for any time. If \<open>check_access\<close> then grants
  a privileged level, this level was the last one granted, and the connection it was granted to
  owns the session. The hypothesis cannot be left out: a grant survives the timeout of its
  session.\<close>

theorem level_held_by_earner:
  assumes "ecu_start ecu_policy to cs rd ld w = Inr e0" and "clock_ok (e_sm e0)"
    and "run (ecu_step P) inps e0 = (outs, e)" and "timely P inps e0"
    and "fst (rpc_check_access lv e) = Inr [(''granted'', JBool True)]" and "lv \<noteq> ''READ_ONLY''"
  shows "\<exists>c. e_owner e = Some c \<and> concat (map2 access_grants inps outs) \<noteq> [] \<and>
    last (concat (map2 access_grants inps outs)) = (c, lv)"
proof -
  have r: "reachable P e0" using assms(1) unfolding reachable_def by (metis run.simps(1) snd_conv)
  obtain evs where evs: "access_run (access_of e0) evs (access_of e)" "Expire \<notin> set evs"
    "grants evs = concat (map2 access_grants inps outs)"
    using run_simulated [OF r assms(3)] assms(2,4) by blast
  have "no_access (access_of e0)"
    using ecu_start_inv [OF assms(1)] assms(1) security_access_init_simps session_init_simps
    by (auto simp: ecu_start_def no_access_def sa_busy_def auth_busy_def authentication_init_def split: sum.splits)
  from access_earned [OF evs(1) this evs(2), of lv] evs(3)
  have "lv \<in> levels_of (access_of e) \<Longrightarrow> ?thesis" by (auto simp: owned_def)
  moreover have "lv \<in> levels_of (access_of e)"
    using assms(5,6) by (auto simp: rpc_check_access_def ecu_current_pair Let_def is_access_granted_def levels_of_def
        session_ids split: if_splits)
  ultimately show ?thesis by blast
qed

lemma jump_world_clock_ok: "clock_ok (e_sm (started_ecu (jump_world k)))"
  by (auto simp: clock_ok_def mono_def started_ecu_def jump_world_def world.defs session_sm.defs)

text \<open>In this world the ECU stays in the Default session for longer than a timeout before the first call.\<close>

lemma calibrated_idle:
  "fst (rpc_check_access ''CALIBRATION'' (snd (run (ecu_step P) calibration_run (started_ecu (jump_world 6)))))
     = Inr [(''granted'', JBool True)]"
  by (simp add: calibration_run_def calibration_key_def ecu_eval is_access_granted_def)

lemma calibration_outputs:
  "concat (map2 access_grants calibration_run (fst (run (ecu_step P) calibration_run (started_ecu (jump_world 6)))))
     = [(1, ''CALIBRATION'')]"
  by (simp add: calibration_run_def calibration_key_def ecu_eval)
    (simp add: access_grants.simps(1) positive_def dict_get_def opt_json_def)

theorem ecu_refines_access_witness:
  "\<exists>evs. access_run (access_of (started_ecu (jump_world 6))) evs
       (access_of (snd (run (ecu_step sample_provider) calibration_run (started_ecu (jump_world 6))))) \<and>
     grants evs = [(1, ''CALIBRATION'')]"
  using ecu_refines_access [OF reachable_started [of sample_provider "[]"], of calibration_run "jump_world 6"]
    calibration_outputs [of sample_provider]
  by (auto simp: case_prod_unfold Let_def)

theorem level_held_by_earner_witness:
  "e_owner (snd (run (ecu_step sample_provider) calibration_run (started_ecu (jump_world 6)))) = Some 1"
proof -
  let ?e = "started_ecu (jump_world 6)"
  have r: "reachable sample_provider ?e" using reachable_started [of sample_provider "[]"] by simp
  have "\<not> times_out (e_sm ?e) (e_sm (snd (run (ecu_step sample_provider) calibration_run ?e)))"
    by (simp add: calibration_run_def calibration_key_def ecu_eval times_out_def active_since_def)
  then have "timely sample_provider calibration_run ?e"
    using timely_if_short [OF r jump_world_clock_ok, of calibration_run] by blast
  from level_held_by_earner [OF started_ecu jump_world_clock_ok _ this _ , of _ _ "''CALIBRATION''"]
    calibration_outputs [of sample_provider] calibrated_idle [of sample_provider]
  show ?thesis
    by (cases "run (ecu_step sample_provider) calibration_run ?e") auto
qed

end
