(* ===== verification/Connection.thy ===== *)
theory Connection
  imports Client
begin

text \<open>
  The life of a connection. \<open>RpcClient\<close> of \<open>protocol/rpc.py\<close> as an object that is created, connected, used and
  disconnected, and the calls of many clients at one server. The client of \<open>Client\<close> is one that stays
  connected; here it is shown what connecting and disconnecting mean for the ECU (nothing), and that a call
  takes effect once, between its sending and its answer, whatever the other connections do.
\<close>

section \<open>The client object\<close>

text \<open>\<open>_sock\<close> and \<open>_fh\<close> are set and closed together. An open socket is known by its server-side id.\<close>

datatype socket = No_Socket | Open_Socket int | Closed_Socket

record rpc_client =
  rc_socket :: socket
  rc_next_id :: int

definition rpc_client_init :: rpc_client where
  "rpc_client_init = \<lparr>rc_socket = No_Socket, rc_next_id = 0\<rparr>"

text \<open>\<open>connect\<close>: \<open>create_connection\<close> makes a connection or raises.\<close>

definition rpc_connect :: "exn + int \<Rightarrow> rpc_client \<Rightarrow> (exn + unit) \<times> rpc_client" where
  "rpc_connect made rc =
     (case made of
        Inl ex \<Rightarrow> (Inl ex, rc)
      | Inr c \<Rightarrow> (Inr (), rc\<lparr>rc_socket := Open_Socket c\<rparr>))"

text \<open>\<open>disconnect\<close>: closing ignores errors and can be repeated; the attributes keep the closed objects.\<close>

definition rpc_disconnect :: "rpc_client \<Rightarrow> rpc_client" where
  "rpc_disconnect rc =
     (case rc_socket rc of No_Socket \<Rightarrow> rc | _ \<Rightarrow> rc\<lparr>rc_socket := Closed_Socket\<rparr>)"

text \<open>\<open>call\<close> takes the next id first; without an open socket \<open>sendall\<close> raises.\<close>

definition socket_link :: "(int \<Rightarrow> 's link) \<Rightarrow> socket \<Rightarrow> 's link" where
  "socket_link links sock line s =
     (case sock of
        No_Socket \<Rightarrow> (Inl (AttributeError ''sendall''), s)
      | Open_Socket c \<Rightarrow> links c line s
      | Closed_Socket \<Rightarrow> (Inl (LibraryError ''OSError''), s))"

definition rpc_client_call ::
  "(int \<Rightarrow> 's link) \<Rightarrow> string \<Rightarrow> dict \<Rightarrow> rpc_client \<times> 's \<Rightarrow> (exn + json) \<times> rpc_client \<times> 's" where
  "rpc_client_call links m params = (\<lambda>(rc, s).
     (let (r, n, s') = rpc_call (socket_link links (rc_socket rc)) m params (rc_next_id rc, s)
      in (r, rc\<lparr>rc_next_id := n\<rparr>, s')))"

text \<open>\<open>DiagnosticClient\<close> passes \<open>connect\<close> and \<open>disconnect\<close> on.\<close>

definition cl_connect :: "exn + int \<Rightarrow> rpc_client \<Rightarrow> (exn + unit) \<times> rpc_client" where
  "cl_connect made rc = rpc_connect made rc"

definition cl_disconnect :: "rpc_client \<Rightarrow> rpc_client" where
  "cl_disconnect rc = rpc_disconnect rc"

section \<open>A client and the ECU\<close>

datatype client_op = Connect "exn + int" | Disconnect | Request request

datatype client_out = Connected "exn + unit" | Disconnected | Answered "exn + json"

fun client_step :: "(exn \<Rightarrow> string) \<Rightarrow> provider \<Rightarrow> client_op \<Rightarrow> rpc_client \<times> ecu \<Rightarrow> client_out \<times> (rpc_client \<times> ecu)" where
  "client_step T P (Connect made) (rc, e) = (let (r, rc') = cl_connect made rc in (Connected r, (rc', e)))"
| "client_step T P Disconnect (rc, e) = (Disconnected, (cl_disconnect rc, e))"
| "client_step T P (Request req) (rc, e) =
     (let (r, st) = rpc_client_call (ecu_link T P) (fst (request_call req)) (snd (request_call req)) (rc, e)
      in (Answered r, st))"

text \<open>The calls that a sequence of client operations makes at the ECU, and what the client is answered if the ECU is in
  the state \<open>e\<close>.\<close>

fun after_op :: "client_op \<Rightarrow> socket \<Rightarrow> socket" where
  "after_op (Connect (Inr c)) sock = Open_Socket c"
| "after_op Disconnect sock = (if sock = No_Socket then No_Socket else Closed_Socket)"
| "after_op _ sock = sock"

fun calls_of :: "client_op list \<Rightarrow> socket \<Rightarrow> ecu_input list" where
  "calls_of [] sock = []"
| "calls_of (Request req # ops) sock = (case sock of Open_Socket c \<Rightarrow> [Call c req] | _ \<Rightarrow> []) @ calls_of ops sock"
| "calls_of (op # ops) sock = calls_of ops (after_op op sock)"

fun answers_of :: "client_out list \<Rightarrow> (exn + json) list" where
  "answers_of [] = []"
| "answers_of (Answered r # outs) = r # answers_of outs"
| "answers_of (_ # outs) = answers_of outs"

definition no_socket :: "exn + json \<Rightarrow> bool" where
  "no_socket r \<longleftrightarrow> r = Inl (AttributeError ''sendall'') \<or> r = Inl (LibraryError ''OSError'')"

lemma socket_after_op: "rc_socket (fst (snd (client_step T P op (rc, e)))) = after_op op (rc_socket rc)"
  by (cases op; cases "rc_socket rc")
    (auto simp: cl_connect_def rpc_connect_def cl_disconnect_def rpc_disconnect_def rpc_client_call_def case_prod_unfold
      Let_def split: sum.split)

lemma request_unconnected:
  assumes "\<nexists>c. rc_socket rc = Open_Socket c"
  shows "\<exists>r. client_step T P (Request req) (rc, e) = (Answered r, rc\<lparr>rc_next_id := rc_next_id rc + 1\<rparr>, e) \<and> no_socket r"
  using assms
  by (cases "rc_socket rc")
    (auto simp: rpc_client_call_def rpc_call_def socket_link_def no_socket_def case_prod_unfold Let_def)

lemma request_connected:
  assumes "reachable P e" and "rc_socket rc = Open_Socket c"
  shows "client_step T P (Request req) (rc, e) =
    (Answered (client_view T (fst (handle P c req e))), rc\<lparr>rc_next_id := rc_next_id rc + 1\<rparr>, snd (handle P c req e))"
proof -
  have "socket_link (ecu_link T P) (Open_Socket c) = ecu_link T P c"
    by (simp add: socket_link_def fun_eq_iff)
  with assms client_call_ecu [OF reachable_audit [OF assms(1)], of T P c req "rc_next_id rc"] show ?thesis
    by (simp add: rpc_client_call_def client_call_def)
qed

lemma client_view_not_no_socket [simp]: "\<not> no_socket (client_view T out)"
  by (cases out) (auto simp: no_socket_def client_view_def)

section \<open>Many connections\<close>

fun event_conn :: "server_event \<Rightarrow> int" where
  "event_conn (Accept c) = c"
| "event_conn (Receive c _) = c"
| "event_conn (Serve c) = c"

fun sent_by :: "int \<Rightarrow> server_event list \<Rightarrow> bytes" where
  "sent_by c [] = []"
| "sent_by c (Receive c' chunk # evs) = (if c' = c then chunk @ sent_by c evs else sent_by c evs)"
| "sent_by c (_ # evs) = sent_by c evs"

text \<open>Two servers that differ in the bytes that wait on one connection.\<close>

definition same_but :: "int \<Rightarrow> server \<Rightarrow> server \<Rightarrow> bool" where
  "same_but c s s' \<longleftrightarrow> sv_ecu s = sv_ecu s' \<and> (\<forall>c'. c' \<noteq> c \<longrightarrow> sv_conns s c' = sv_conns s' c')"

lemma same_but_other:
  "same_but c s s' \<Longrightarrow> event_conn ev \<noteq> c \<Longrightarrow>
    same_but c (snd (server_step T P ev s)) (snd (server_step T P ev s')) \<and>
    sv_conns (snd (server_step T P ev s)) c = sv_conns s c"
  by (cases ev) (auto simp: same_but_def case_prod_unfold Let_def split: option.split)

lemma same_but_receive:
  "same_but c s s' \<Longrightarrow> same_but c (snd (server_step T P (Receive c chunk) s)) s'"
  by (auto simp: same_but_def split: option.split)

lemma run_other_conns:
  assumes "\<And>ev. ev \<in> set evs \<Longrightarrow> event_conn ev = c \<Longrightarrow> \<exists>chunk. ev = Receive c chunk \<and> chunk \<noteq> []"
    and "sv_conns s c = Some buf" and "same_but c s s'"
  shows "same_but c (snd (run (server_step T P) evs s))
      (snd (run (server_step T P) (filter (\<lambda>ev. event_conn ev \<noteq> c) evs) s')) \<and>
    sv_conns (snd (run (server_step T P) evs s)) c = Some (buf @ sent_by c evs)"
  using assms
proof (induction evs arbitrary: s s' buf)
  case (Cons ev evs)
  have own: "\<And>ev. ev \<in> set evs \<Longrightarrow> event_conn ev = c \<Longrightarrow> \<exists>chunk. ev = Receive c chunk \<and> chunk \<noteq> []"
    using Cons.prems(1) by simp
  show ?case
  proof (cases "event_conn ev = c")
    case True
    then obtain chunk where ev: "ev = Receive c chunk" "chunk \<noteq> []" using Cons.prems(1) [of ev] by auto
    let ?s = "snd (server_step T P ev s)"
    have "sv_conns ?s c = Some (buf @ chunk)" "same_but c ?s s'"
      using ev Cons.prems(2,3) same_but_receive by (simp, simp add: same_but_def)
    from Cons.IH [OF own this] ev True show ?thesis by simp
  next
    case False
    let ?s = "snd (server_step T P ev s)" and ?s' = "snd (server_step T P ev s')"
    have "sv_conns ?s c = Some buf" "same_but c ?s ?s'"
      using same_but_other [OF Cons.prems(3) False] Cons.prems(2) by auto
    moreover have "sent_by c (ev # evs) = sent_by c evs" using False by (cases ev) auto
    ultimately show ?thesis using Cons.IH [OF own, of ?s "buf" ?s'] False by simp
  qed
qed (simp add: same_but_def)

lemma reachable_server:
  "reachable P (sv_ecu s) \<Longrightarrow> reachable P (sv_ecu (snd (run (server_step T P) evs s)))"
proof -
  obtain inps where "sv_ecu (snd (run (server_step T P) evs s)) = snd (run (ecu_step P) inps (sv_ecu s))"
    using server_machine.rel_run [OF TrueI] unfolding served_def by blast
  then show "reachable P (sv_ecu s) \<Longrightarrow> reachable P (sv_ecu (snd (run (server_step T P) evs s)))"
    using reachable_run by simp
qed

section \<open>Properties\<close>

text \<open>C12: Connections mean nothing to the ECU. Over any sequence of connects, disconnects and requests of a client, the ECU
  does exactly the requests made while the client was connected, in the name of the connection of that time, and the
  client is answered exactly by these; every other request raises at the client. Request ids are consecutive over all
  connections. So an elevated session, its grants and its owner outlive the connection.\<close>

theorem client_run_refines:
  assumes "reachable P e"
  shows "let (outs, rc', e') = run (client_step T P) ops (rc, e);
             (answers, e'') = run (ecu_step P) (calls_of ops (rc_socket rc)) e in
    e' = e'' \<and> filter (\<lambda>r. \<not> no_socket r) (answers_of outs) = map (client_view T) answers \<and>
    rc_next_id rc' = rc_next_id rc + int (length (answers_of outs))"
  using assms
proof (induction ops arbitrary: rc e)
  case (Cons op ops)
  show ?case
  proof (cases op)
    case (Request req)
    show ?thesis
    proof (cases "\<exists>c. rc_socket rc = Open_Socket c")
      case True
      then obtain c where c: "rc_socket rc = Open_Socket c" by blast
      note step = request_connected [OF Cons.prems c, of T req]
      have "reachable P (snd (handle P c req e))" using reachable_step [OF Cons.prems, of "Call c req"] by simp
      from Cons.IH [OF this, of "rc\<lparr>rc_next_id := rc_next_id rc + 1\<rparr>"] c show ?thesis
        unfolding Request by (simp del: client_step.simps add: step case_prod_unfold Let_def)
    next
      case False
      from request_unconnected [OF this, of T P req e] obtain r where
        step: "client_step T P (Request req) (rc, e) = (Answered r, rc\<lparr>rc_next_id := rc_next_id rc + 1\<rparr>, e)" "no_socket r"
        by blast
      moreover have "(case rc_socket rc of Open_Socket c \<Rightarrow> [Call c req] | _ \<Rightarrow> []) = []"
        using False by (auto split: socket.split)
      ultimately show ?thesis using Cons.IH [OF Cons.prems, of "rc\<lparr>rc_next_id := rc_next_id rc + 1\<rparr>"]
        unfolding Request by (simp del: client_step.simps add: case_prod_unfold Let_def)
    qed
  qed (use Cons.IH [OF Cons.prems] socket_after_op [of T P op rc e] in
      \<open>auto simp: case_prod_unfold Let_def cl_connect_def rpc_connect_def cl_disconnect_def rpc_disconnect_def
        split: sum.splits socket.splits\<close>)
qed simp

theorem client_run_refines_witness:
  "let (outs, st) = run (client_step (\<lambda>_. []) sample_provider)
       [Request GetSessionState, Connect (Inr 5), Request GetSessionState, Disconnect, Request GetSessionState]
       (rpc_client_init, started_ecu sample_world) in
    length (filter (\<lambda>r. \<not> no_socket r) (answers_of outs)) = 1"
  using client_run_refines [OF reachable_started [of sample_provider "[]"], of "\<lambda>_. []"
      "[Request GetSessionState, Connect (Inr 5), Request GetSessionState, Disconnect, Request GetSessionState]"
      rpc_client_init sample_world]
  by (simp del: client_step.simps add: case_prod_unfold Let_def rpc_client_init_def)

text \<open>C11: A call takes effect once, between its sending and its answer. While the bytes of a request arrive on a connection, in
  any pieces, the server serves any lines of any other connections, and the ECU is as if nothing had been sent; the
  moment the thread of the connection takes the line, the ECU performs the request, and the bytes sent back are read
  by the client as the result of the handler in that state. So concurrent calls have the effect of one call after another.\<close>

theorem call_takes_effect_once:
  assumes "reachable P (sv_ecu s)" and "sv_conns s c = Some []" and "sent_by c evs = request_line req n"
    and "\<And>ev. ev \<in> set evs \<Longrightarrow> event_conn ev = c \<Longrightarrow> \<exists>chunk. ev = Receive c chunk \<and> chunk \<noteq> []"
  shows "let others = snd (run (server_step T P) (filter (\<lambda>ev. event_conn ev \<noteq> c) evs) s);
             sending = snd (run (server_step T P) evs s);
             (out, done) = server_step T P (Serve c) sending;
             (r, e) = handle P c req (sv_ecu others) in
    sv_ecu sending = sv_ecu others \<and> sv_ecu done = e \<and>
    read_response (readline out) = client_view T r \<and> sv_conns done c = Some []"
proof -
  let ?others = "snd (run (server_step T P) (filter (\<lambda>ev. event_conn ev \<noteq> c) evs) s)"
  let ?sending = "snd (run (server_step T P) evs s)"
  have sent: "sv_conns ?sending c = Some (request_line req n)" and same: "sv_ecu ?sending = sv_ecu ?others"
    using run_other_conns [OF assms(4,2), where s' = s and T = T and P = P] assms(3) by (auto simp: same_but_def)
  have "reachable P (sv_ecu ?sending)"
    using reachable_server [OF assms(1)] .
  then have "wf_json (JObj d)" if "fst (handle P c req (sv_ecu ?sending)) = Inr d" for d
    using wf_handle [OF reachable_audit that] by blast
  moreover have "wf_json (JInt n)" by simp
  ultimately have "read_response (readline (reply_line T (fst (handle P c req (sv_ecu ?sending))) n)) =
      client_view T (fst (handle P c req (sv_ecu ?sending)))"
    by (cases "fst (handle P c req (sv_ecu ?sending))")
      (auto simp: reply_line_def client_view_def read_result_response read_error_response simp del: wf_json.simps)
  with sent same show ?thesis
    by (simp add: serve_one_request_Nil case_prod_unfold Let_def)
qed

definition two_clients :: "server_event list" where
  "two_clients =
     [Receive 7 (request_line GetSessionState 1), Accept 8, Receive 8 (request_line InjectTamper 1), Serve 8]"

theorem call_takes_effect_once_witness:
  "let s = snd (run (server_step (\<lambda>_. []) sample_provider) two_clients
         \<lparr>sv_ecu = started_ecu sample_world, sv_conns = [7 \<mapsto> []]\<rparr>) in
     read_response (readline (fst (server_step (\<lambda>_. []) sample_provider (Serve 7) s))) =
       Inr (JObj [(''session_id'', JInt 1)])"
proof -
  let ?s = "\<lparr>sv_ecu = started_ecu sample_world, sv_conns = [7 \<mapsto> []]\<rparr>"
  have "reachable sample_provider (sv_ecu ?s)" using reachable_started [of sample_provider "[]"] by simp
  moreover have "ev \<in> set two_clients \<Longrightarrow> event_conn ev = 7 \<Longrightarrow> \<exists>chunk. ev = Receive 7 chunk \<and> chunk \<noteq> []" for ev
    by (auto simp: two_clients_def)
  moreover have "sent_by 7 two_clients = request_line GetSessionState 1" by (simp add: two_clients_def)
  ultimately show ?thesis
    using call_takes_effect_once [of sample_provider ?s 7 two_clients GetSessionState 1 "\<lambda>_. []"]
    by (simp add: two_clients_def client_view_def serve_one_request_Nil case_prod_unfold Let_def ecu_eval)
qed

end
