(* ===== verification/Policy_File.thy ===== *)
theory Policy_File
  imports ECU
begin

text \<open>
  The file \<open>sim/config/ecu_policy.json\<close> and its reading by \<open>_load_policy\<close>. \<open>policy_file\<close> is the value of the
  whole file; an arrow and two dashes in its comments are written in ASCII. \<open>policy_of\<close> looks up the keys as the
  constructors of the components do, and the record of \<open>Policy\<close> is what it finds. The other keys are read by no part of the program.
\<close>

section \<open>The file\<close>

definition file_session :: json where
  "file_session = JObj [
    (''timeout_seconds'', JInt 300),
    (''default_session_id'', JInt 1),
    (''extended_session_id'', JInt 3),
    (''programming_session_id'', JInt 2),
    (''allowed_transitions'', JObj [
      (''1'', JArr [JInt 2, JInt 3]),
      (''3'', JArr [JInt 1, JInt 2]),
      (''2'', JArr [JInt 1, JInt 3])]),
    (''comment_transitions'', JStr ''Keys are source session IDs, values are allowed destination session IDs. Direct Default->Programming is NOT in this list; it is blocked at application logic level (requires Extended or 0x29 first).'')]"

definition file_security_access_0x27 :: json where
  "file_security_access_0x27 = JObj [
    (''comment'', JStr ''Subfunction pairs: odd = requestSeed, even = sendKey. Each pair maps to an access level.''),
    (''levels'', JObj [
      (''calibration'', JObj [
        (''request_seed_subfunction'', JStr ''0x01''),
        (''send_key_subfunction'', JStr ''0x02''),
        (''algorithm'', JStr ''HMAC-SHA256''),
        (''shared_secret_env_var'', JStr ''SAL_0x27_SECRET_CALIBRATION''),
        (''shared_secret_default_sim'', JStr ''sim-calibration-secret-dev-only''),
        (''required_session'', JStr ''extended''),
        (''grants_access_level'', JStr ''CALIBRATION'')]),
      (''ecu_programming'', JObj [
        (''request_seed_subfunction'', JStr ''0x03''),
        (''send_key_subfunction'', JStr ''0x04''),
        (''algorithm'', JStr ''HMAC-SHA256''),
        (''shared_secret_env_var'', JStr ''SAL_0x27_SECRET_PROGRAMMING''),
        (''shared_secret_default_sim'', JStr ''sim-programming-secret-dev-only''),
        (''required_session'', JStr ''programming''),
        (''grants_access_level'', JStr ''ECU_PROGRAMMING'')])])]"

definition file_authentication_0x29 :: json where
  "file_authentication_0x29 = JObj [
    (''comment'', JStr ''PKI-based authentication. Certs generated at first run, stored in sim/hal/certs/.''),
    (''root_ca'', JObj [
      (''cert_path'', JStr ''sim/hal/certs/root_ca.pem''),
      (''key_path'', JStr ''sim/hal/certs/root_ca_key.pem''),
      (''algorithm'', JStr ''ECDSA-P256''),
      (''validity_days'', JInt 3650)]),
    (''ecu_cert'', JObj [
      (''cert_path'', JStr ''sim/hal/certs/ecu_cert.pem''),
      (''key_path'', JStr ''sim/hal/certs/ecu_key.pem''),
      (''subject_cn'', JStr ''VirtualECU-SAL-001''),
      (''validity_days'', JInt 730)]),
    (''tester_cert'', JObj [
      (''cert_path'', JStr ''sim/hal/certs/tester_cert.pem''),
      (''key_path'', JStr ''sim/hal/certs/tester_key.pem''),
      (''subject_cn'', JStr ''DiagnosticTester-SAL-001''),
      (''validity_days'', JInt 365)]),
    (''modes'', JObj [
      (''unidirectional'', JObj [
        (''description'', JStr ''Tester authenticates to ECU only''),
        (''grants_access_level'', JStr ''ENGINEERING''),
        (''required_session'', JStr ''extended'')]),
      (''bidirectional'', JObj [
        (''description'', JStr ''Mutual authentication - tester and ECU exchange and verify certs''),
        (''grants_access_level'', JStr ''FULL_ACCESS''),
        (''required_session'', JStr ''programming'')])]),
    (''revoked_cert_thumbprints'', JArr [
      JStr ''comment: SHA-256 thumbprints of revoked tester certs go here. Populated during TC-06 tests.'',
      JStr ''0000000000000000000000000000000000000000000000000000000000000000''])]"

definition file_access_levels :: json where
  "file_access_levels = JObj [
    (''READ_ONLY'', JObj [
      (''description'', JStr ''Non-sensitive read operations: read DTCs, read non-protected data IDs''),
      (''required_session'', JStr ''default''),
      (''required_auth'', JStr ''none'')]),
    (''CALIBRATION'', JObj [
      (''description'', JStr ''Write calibration data, clear DTCs''),
      (''required_session'', JStr ''extended''),
      (''required_auth'', JStr ''0x27_calibration'')]),
    (''ECU_PROGRAMMING'', JObj [
      (''description'', JStr ''Flash download, memory write, ECU reprogramming''),
      (''required_session'', JStr ''programming''),
      (''required_auth'', JStr ''0x27_ecu_programming'')]),
    (''ENGINEERING'', JObj [
      (''description'', JStr ''Read/write protected parameters, diagnostic mode activation''),
      (''required_session'', JStr ''extended''),
      (''required_auth'', JStr ''0x29_unidirectional'')]),
    (''FULL_ACCESS'', JObj [
      (''description'', JStr ''Key provisioning, security parameter write, ECU lifecycle management''),
      (''required_session'', JStr ''programming''),
      (''required_auth'', JStr ''0x29_bidirectional'')])]"

definition file_lockout :: json where
  "file_lockout = JObj [
    (''max_auth_attempts'', JInt 3),
    (''lockout_duration_seconds'', JInt 3600),
    (''required_delay_seconds'', JInt 10),
    (''comment'', JStr ''Attempt counters are tracked per access level independently. Lockout on CALIBRATION does not affect ECU_PROGRAMMING.'')]"

definition file_crypto :: json where
  "file_crypto = JObj [
    (''challenge_size_bytes'', JInt 32),
    (''nonce_size_bytes'', JInt 16),
    (''seed_algorithm'', JStr ''os.urandom''),
    (''key_comparison'', JStr ''hmac.compare_digest''),
    (''cert_signature_algorithm'', JStr ''ECDSA''),
    (''cert_hash_algorithm'', JStr ''SHA-256''),
    (''cert_curve'', JStr ''P-256'')]"

definition file_negative_response_codes :: json where
  "file_negative_response_codes = JObj [
    (''0x13'', JStr ''incorrectMessageLengthOrInvalidFormat''),
    (''0x22'', JStr ''conditionsNotCorrect''),
    (''0x24'', JStr ''requestSequenceError''),
    (''0x35'', JStr ''invalidKey''),
    (''0x36'', JStr ''exceededNumberOfAttempts''),
    (''0x37'', JStr ''requiredTimeDelayNotExpired''),
    (''0x73'', JStr ''unsupportedCertificateFormat''),
    (''0x74'', JStr ''certificateVerificationFailed''),
    (''0x75'', JStr ''certificateExpired''),
    (''0x76'', JStr ''certificateSignatureInvalid''),
    (''0x78'', JStr ''certificateChainVerificationFailed'')]"

definition file_audit_log :: json where
  "file_audit_log = JObj [
    (''log_path'', JStr ''logs/audit.jsonl''),
    (''hash_algorithm'', JStr ''SHA-256''),
    (''chain_field'', JStr ''prev_hash''),
    (''genesis_hash'', JStr ''0000000000000000000000000000000000000000000000000000000000000000''),
    (''required_fields'', JArr [
      JStr ''timestamp'',
      JStr ''event_type'',
      JStr ''service_id'',
      JStr ''access_level'',
      JStr ''client_id'',
      JStr ''result'',
      JStr ''nrc_code'',
      JStr ''prev_hash'',
      JStr ''entry_hash'']),
    (''event_types'', JArr [
      JStr ''AUTH_ATTEMPT'',
      JStr ''AUTH_SUCCESS'',
      JStr ''AUTH_FAILURE'',
      JStr ''SESSION_START'',
      JStr ''SESSION_TIMEOUT'',
      JStr ''SESSION_END'',
      JStr ''SESSION_TAMPER_RESET'',
      JStr ''LOCKOUT_TRIGGERED'',
      JStr ''LOCKOUT_EXPIRED'',
      JStr ''DEAUTHENTICATE'',
      JStr ''REPLAY_DETECTED'',
      JStr ''BRUTE_FORCE_DETECTED''])]"

definition policy_file :: json where
  "policy_file = JObj [
    (''version'', JStr ''1.0.0''),
    (''description'', JStr ''Virtual ECU security policy for secure-access-lab Phase 1 simulation''),
    (''session'', file_session),
    (''security_access_0x27'', file_security_access_0x27),
    (''authentication_0x29'', file_authentication_0x29),
    (''access_levels'', file_access_levels),
    (''lockout'', file_lockout),
    (''crypto'', file_crypto),
    (''negative_response_codes'', file_negative_response_codes),
    (''audit_log'', file_audit_log)]"

section \<open>Reading it\<close>

text \<open>\<open>_load_policy\<close>: the text of the file as a value.\<close>

definition load_policy :: "string \<Rightarrow> exn + json" where
  "load_policy text = (case loads text of None \<Rightarrow> Inl (ValueError ''policy'') | Some j \<Rightarrow> Inr j)"

text \<open>What the constructors find in a policy: \<open>None\<close> if a key is missing or its value has another type than in the file.\<close>

fun at_key :: "string \<Rightarrow> json \<Rightarrow> json option" where
  "at_key k (JObj d) = dict_get d k"
| "at_key k _ = None"

fun at_path :: "string list \<Rightarrow> json \<Rightarrow> json option" where
  "at_path [] j = Some j"
| "at_path (k # ks) j = Option.bind (at_key k j) (at_path ks)"

fun int_of_json :: "json \<Rightarrow> int option" where
  "int_of_json (JInt n) = Some n"
| "int_of_json _ = None"

fun str_of_json :: "json \<Rightarrow> string option" where
  "str_of_json (JStr s) = Some s"
| "str_of_json _ = None"

fun ints_of_json :: "json \<Rightarrow> int list option" where
  "ints_of_json (JArr xs) = those (map int_of_json xs)"
| "ints_of_json _ = None"

fun items_of_json :: "(json \<Rightarrow> 'a option) \<Rightarrow> json \<Rightarrow> (string \<times> 'a) list option" where
  "items_of_json f (JObj d) = those (map (\<lambda>(k, v). map_option (Pair k) (f v)) d)"
| "items_of_json f _ = None"

definition int_at :: "string list \<Rightarrow> json \<Rightarrow> int option" where
  "int_at ks j = Option.bind (at_path ks j) int_of_json"

definition str_at :: "string list \<Rightarrow> json \<Rightarrow> string option" where
  "str_at ks j = Option.bind (at_path ks j) str_of_json"

definition level_policy_of :: "json \<Rightarrow> level_policy option" where
  "level_policy_of j =
     Option.bind (str_at [''request_seed_subfunction''] j) (\<lambda>seed_sf.
     Option.bind (str_at [''send_key_subfunction''] j) (\<lambda>key_sf.
     Option.bind (str_at [''algorithm''] j) (\<lambda>algorithm.
     Option.bind (str_at [''shared_secret_default_sim''] j) (\<lambda>secret.
     Option.bind (str_at [''required_session''] j) (\<lambda>session.
     Option.bind (str_at [''grants_access_level''] j) (\<lambda>level.
     Some \<lparr>lp_request_seed_subfunction = seed_sf, lp_send_key_subfunction = key_sf, lp_algorithm = algorithm,
       lp_shared_secret_default_sim = secret, lp_required_session = session, lp_grants_access_level = level\<rparr>))))))"

definition policy_of :: "json \<Rightarrow> policy option" where
  "policy_of j =
     Option.bind (int_at [''session'', ''timeout_seconds''] j) (\<lambda>timeout.
     Option.bind (Option.bind (at_path [''session'', ''allowed_transitions''] j) (items_of_json ints_of_json)) (\<lambda>allowed.
     Option.bind (Option.bind (at_path [''security_access_0x27'', ''levels''] j) (items_of_json level_policy_of)) (\<lambda>levels.
     Option.bind (int_at [''lockout'', ''max_auth_attempts''] j) (\<lambda>attempts.
     Option.bind (int_at [''lockout'', ''lockout_duration_seconds''] j) (\<lambda>lockout.
     Option.bind (int_at [''lockout'', ''required_delay_seconds''] j) (\<lambda>delay.
     Option.bind (int_at [''crypto'', ''challenge_size_bytes''] j) (\<lambda>challenge.
     Option.bind (int_at [''crypto'', ''nonce_size_bytes''] j) (\<lambda>nonce.
     Option.bind (str_at [''audit_log'', ''genesis_hash''] j) (\<lambda>genesis.
     Some \<lparr>pol_timeout_seconds = timeout, pol_allowed_transitions = allowed, pol_levels = levels,
       pol_max_auth_attempts = attempts, pol_lockout_duration_seconds = lockout, pol_required_delay_seconds = delay,
       pol_challenge_size_bytes = nat challenge, pol_nonce_size_bytes = nat nonce,
       pol_genesis_hash = genesis\<rparr>)))))))))"

text \<open>\<open>VirtualECU(...)\<close> and \<open>start\<close>, from the text of the policy file.\<close>

definition ecu_from_file ::
  "string \<Rightarrow> seconds option \<Rightarrow> cert_store option \<Rightarrow> seconds option \<Rightarrow> seconds option \<Rightarrow> world \<Rightarrow> exn + ecu"
where
  "ecu_from_file text session_timeout cs required_delay lockout_duration w =
     (case load_policy text of
        Inl ex \<Rightarrow> Inl ex
      | Inr j \<Rightarrow>
          (case policy_of j of
             None \<Rightarrow> Inl (KeyError ''policy'')
           | Some policy \<Rightarrow> ecu_start policy session_timeout cs required_delay lockout_duration w))"

section \<open>What the program finds in the file\<close>

lemmas policy_file_sections =
  file_session_def file_security_access_0x27_def file_authentication_0x29_def file_access_levels_def file_lockout_def
  file_crypto_def file_negative_response_codes_def file_audit_log_def

lemma at_key_file:
  "at_key ''session'' policy_file = Some file_session"
  "at_key ''security_access_0x27'' policy_file = Some file_security_access_0x27"
  "at_key ''lockout'' policy_file = Some file_lockout"
  "at_key ''crypto'' policy_file = Some file_crypto"
  "at_key ''audit_log'' policy_file = Some file_audit_log"
  by (simp_all add: policy_file_def dict_get_def)

lemma genesis_in_file: "str_at [''audit_log'', ''genesis_hash''] policy_file = Some (replicate 64 (CHR ''0''))"
  by (simp add: str_at_def at_key_file) (simp add: file_audit_log_def dict_get_def numeral_eq_Suc)

lemma levels_in_file:
  "Option.bind (at_path [''security_access_0x27'', ''levels''] policy_file) (items_of_json level_policy_of) =
    Some [(''calibration'', calibration_policy), (''ecu_programming'', ecu_programming_policy)]"
  by (simp add: at_key_file)
    (simp add: file_security_access_0x27_def dict_get_def level_policy_of_def str_at_def policy_simps)

lemma policy_of_file: "policy_of policy_file = Some ecu_policy"
  unfolding policy_of_def levels_in_file genesis_in_file
  by (simp add: int_at_def at_key_file)
    (simp add: file_session_def file_lockout_def file_crypto_def dict_get_def ecu_policy_def)

lemma wf_policy_file: "wf_json policy_file"
  by (simp add: policy_file_def policy_file_sections)

text \<open>C36: The ECU runs the policy of its file. From any text whose value is that of the policy file, \<open>VirtualECU\<close> starts
  as the one started with \<open>ecu_policy\<close>, the policy that the theorems about the started ECU assume, whatever the overrides
  of its constructor.\<close>

theorem policy_file_read:
  assumes "loads text = Some policy_file"
  shows "ecu_from_file text to cs rd ld w = ecu_start ecu_policy to cs rd ld w"
  using assms by (simp add: ecu_from_file_def load_policy_def policy_of_file)

theorem policy_file_read_witness:
  "ecu_from_file (dumps policy_file) None None None None sample_world = ecu_start ecu_policy None None None None sample_world"
  by (rule policy_file_read [OF loads_dumps [OF wf_policy_file]])

end
