(* ===== verification/ECU_Liveness.thy ===== *)
theory ECU_Liveness
  imports ECU_Runs
begin

text \<open>
  The ECU lets honest testers in. The safety theorems would hold of an ECU that refuses everything; here a
  tester that follows the protocol of 0x27 or 0x29 without falling silent, at an ECU that nobody else uses, is granted its level.
\<close>

section \<open>A session that is served\<close>

text \<open>A connection owns the session \<open>S\<close>, which does not end before time \<open>T\<close>.\<close>

definition serving :: "int \<Rightarrow> int \<Rightarrow> seconds \<Rightarrow> ecu \<Rightarrow> bool" where
  "serving c S T e \<longleftrightarrow> e_owner e = Some c \<and> sm_session (e_sm e) = S \<and> S \<noteq> DEFAULT \<and> clock_ok (e_sm e) \<and>
     sm_allowed (e_sm e) = policy_allowed \<and> T < sm_last_activity (e_sm e) + sm_timeout (e_sm e) \<and>
     sm_last_activity (e_sm e) \<le> next_time (e_sm e)"

lemma live_if_served:
  "sm_session sm = S \<Longrightarrow> T < sm_last_activity sm + sm_timeout sm \<Longrightarrow> next_time sm \<le> T \<Longrightarrow> live_session sm = S"
  by (simp add: live_session_def expired_def)

lemma before: "clock_ok sm \<Longrightarrow> advances sm sm' \<Longrightarrow> next_time sm' \<le> T \<Longrightarrow> next_time sm \<le> T"
  using advances_next_time by (meson order_trans)

lemma serving_live:
  assumes "serving c S T e" "advances (check_timeout (e_sm e)) sm'" "next_time sm' \<le> T"
  shows "live_session (e_sm e) = S" "live_session (check_timeout (e_sm e)) = S"
proof -
  have clk: "clock_ok (check_timeout (e_sm e))"
    using assms(1) by (simp add: serving_def advances_clock_ok [OF check_timeout_simps(5)])
  have "next_time (check_timeout (e_sm e)) \<le> T" using before [OF clk assms(2,3)] .
  moreover from this have "next_time (e_sm e) \<le> T"
    using assms(1) before [OF _ check_timeout_simps(5)] by (auto simp: serving_def)
  then show "live_session (e_sm e) = S" using assms(1) live_if_served by (auto simp: serving_def)
  ultimately show "live_session (check_timeout (e_sm e)) = S"
    using assms(1) \<open>live_session (e_sm e) = S\<close> live_if_served [of "check_timeout (e_sm e)" S T]
    by (simp add: serving_def)
qed

lemma serving_later:
  assumes "serving c S T e" "session_le (e_sm e) (e_sm e')" "sm_session (e_sm e') = S" "e_owner e' = Some c"
    "sm_last_activity (e_sm e) \<le> sm_last_activity (e_sm e')" "sm_last_activity (e_sm e') \<le> next_time (e_sm e')"
  shows "serving c S T e'"
  using assms by (auto simp: serving_def session_le_def advances_clock_ok)

lemma serving_touch:
  assumes "serving c S T e" "session_le (e_sm e) sm" "sm_session sm = S"
    "e_owner e' = Some c" "e_sm e' = touch sm \<or> e_sm e' = snd (utcnow (touch sm))"
  shows "serving c S T e'"
proof (rule serving_later [OF assms(1)])
  have clk: "clock_ok (e_sm e)" using assms(1) by (simp add: serving_def)
  have adv: "advances sm (e_sm e')" using assms(5) advances_utcnow [OF touch_simps(5)] by auto
  have "advances (e_sm e) sm" using assms(2) by (simp add: session_le_def)
  then have "next_time (e_sm e) \<le> next_time sm" "next_time sm \<le> next_time (e_sm e')"
    using clk adv advances_next_time advances_clock_ok by blast+
  then show "sm_last_activity (e_sm e) \<le> sm_last_activity (e_sm e')" "sm_last_activity (e_sm e') \<le> next_time (e_sm e')"
    using assms(1,5) by (auto simp: serving_def)
  show "session_le (e_sm e) (e_sm e')"
    using assms(2,5) advances_trans [OF _ adv] by (auto simp: session_le_def)
qed (use assms in auto)

lemma reachable_session:
  assumes "reachable P e"
  shows "valid_session (e_sm e)" "sm_allowed (e_sm e) = policy_allowed"
proof -
  show "valid_session (e_sm e)" using reachable_inv [OF assms] by (simp add: ecu_inv_def handler_inv_def)
  obtain to cs rd ld w e0 inps where e0: "ecu_start ecu_policy to cs rd ld w = Inr e0"
    "e = snd (run (ecu_step P) inps e0)" using assms unfolding reachable_def by blast
  have "ecu_le e0 e" unfolding e0(2) by (rule ecu_machine.rel_run [OF ecu_start_inv [OF e0(1)]])
  moreover have "sm_allowed (e_sm e0) = policy_allowed"
    using e0(1) session_init_ecu_policy [of to w] by (auto simp: ecu_start_def split: sum.splits)
  ultimately show "sm_allowed (e_sm e) = policy_allowed" by (simp add: ecu_le_def sa_le_def session_le_def)
qed

section \<open>One request of the owner\<close>

text \<open>After the first look at the session, a handler only reads on.\<close>

lemma reads_on_session_control: "advances (check_timeout (e_sm e)) (e_sm (snd (rpc_session_control c t e)))"
  by (auto simp: rpc_session_control_def ecu_current_pair Let_def case_prod_unfold advances_utcnow)

lemma reads_on_request_seed: "advances (check_timeout (e_sm e)) (e_sm (snd (rpc_request_seed c sf e)))"
  using request_seed_frame(2) [of "check_timeout (e_sm e)" sf "e_sa e"]
  by (auto simp: rpc_request_seed_def ecu_current_pair Let_def case_prod_unfold session_used_def session_le_def)

lemma reads_on_send_key: "advances (check_timeout (e_sm e)) (e_sm (snd (rpc_send_key c sf key e)))"
  using send_key_frame(2) [of "check_timeout (e_sm e)" sf _ "e_sa e"]
  by (auto simp: rpc_send_key_def ecu_current_pair Let_def case_prod_unfold session_used_def session_le_def
      advances_utcnow split: sum.split)

lemma reads_on_communicate: "advances (check_timeout (e_sm e)) (e_sm (snd (rpc_communicate_certificate P c pem e)))"
proof -
  obtain res a' sm' where "communicate_certificate P pem (live_session (e_sm e)) (e_auth e) (check_timeout (e_sm e)) = (res, a', sm')"
    using prod_cases3 by blast
  moreover from communicate_certificate_frame(2) [OF this] have "advances (check_timeout (e_sm e)) sm'"
    by (simp add: session_kept_def session_le_def)
  ultimately show ?thesis
    by (auto simp: rpc_communicate_certificate_def ecu_current_pair Let_def split: sum.split)
qed

lemma reads_on_verify_proof: "advances (check_timeout (e_sm e)) (e_sm (snd (rpc_verify_proof P c p e)))"
proof (cases "py_bytes p")
  case (Inr bs)
  obtain res a' sm' where eq: "verify_proof P bs (live_session (e_sm e)) (e_auth e) (check_timeout (e_sm e)) = (res, a', sm')"
    using prod_cases3 by blast
  then have "advances (check_timeout (e_sm e)) sm'" by (cases rule: verify_proof_elim) auto
  with Inr eq show ?thesis
    by (auto simp: rpc_verify_proof_def ecu_current_pair Let_def advances_utcnow split: sum.split)
qed (auto simp: rpc_verify_proof_def ecu_current_pair Let_def)

lemma reads_on_check_access: "advances (check_timeout (e_sm e)) (e_sm (snd (rpc_check_access lv e)))"
  by (auto simp: rpc_check_access_def ecu_current_pair Let_def)

lemma serve_session_control:
  assumes idle: "live_session (e_sm e) = DEFAULT \<and> S = DEFAULT \<or> serving c S T e"
    and e: "valid_session (e_sm e)" "sm_allowed (e_sm e) = policy_allowed" "clock_ok (e_sm e)"
    and move: "session_move S t" "t \<noteq> DEFAULT"
    and e': "rpc_session_control c t e = (r, e')" "next_time (e_sm e') \<le> T"
    and T: "T < next_time (e_sm e) + sm_timeout (e_sm e)"
  shows "r = Inr (positive [(''session_id'', JInt t)]) \<and> serving c t T e' \<and>
    e_sa e' = e_sa e \<and> e_auth e' = e_auth e \<and> e_mechanism e' = e_mechanism e \<and>
    valid_session (e_sm e') \<and> sm_timeout (e_sm e') = sm_timeout (e_sm e) \<and> next_time (e_sm e) \<le> next_time (e_sm e')"
proof -
  let ?sm = "check_timeout (e_sm e)"
  let ?tr = "transition t ?sm"
  have on: "advances ?sm (e_sm e')" using reads_on_session_control [of e c t] e'(1) by simp
  have live: "live_session (e_sm e) = S" "live_session ?sm = S"
    using idle serving_live [OF _ on e'(2), of c S] by (auto simp: live_session_def [of ?sm] expired_def [of ?sm])
  have ok: "fst (fst ?tr)" using transition_ok_iff [of ?sm t] e move(1) live by simp
  have res: "fst ?tr = (True, None)" using ok transition_result [of t ?sm] by auto
  have now: "next_time (e_sm e) \<le> next_time (check_timeout ?sm)"
    by (rule advances_next_time [OF e(3)]) simp
  have e'eq: "e' = (let e1 = e\<lparr>e_sm := check_timeout (snd ?tr)\<rparr> in
      if live_session (snd ?tr) \<noteq> DEFAULT
      then emit_event (audit_event_of ''SESSION_START'' 0x10 None c ''success'' None) (e1\<lparr>e_owner := Some c\<rparr>)
      else emit_event (audit_event_of ''SESSION_END'' 0x10 None c ''success'' None) (clear_access_levels e1))"
    and r: "r = Inr (positive [(''session_id'', JInt t)])"
    using e'(1) idle live res by (auto simp: rpc_session_control_def ecu_current_pair Let_def case_prod_unfold serving_def)
  have "advances (snd ?tr) (e_sm e')" by (simp add: e'eq Let_def advances_trans [OF check_timeout_simps(5)])
  moreover have "clock_ok (snd ?tr)"
    using e(3) by (simp add: advances_clock_ok [OF transition_frame(3) [OF check_timeout_simps(5)]])
  ultimately have "next_time (snd ?tr) \<le> T" using before e'(2) by blast
  moreover have "T < sm_last_activity (snd ?tr) + sm_timeout (snd ?tr)"
    using T now transition_touches [OF ok] by simp
  ultimately have "live_session (snd ?tr) = t"
    using live_if_served [of "snd ?tr" t T] transition_session [of t ?sm] ok by simp
  then have e'2: "e' = emit_event (audit_event_of ''SESSION_START'' 0x10 None c ''success'' None)
      (e\<lparr>e_sm := check_timeout (snd ?tr), e_owner := Some c\<rparr>)"
    using e'eq move(2) by (simp add: Let_def)
  have adv: "advances (e_sm e) (e_sm e')" using advances_trans [OF check_timeout_simps(5) on] .
  then have "clock_ok (e_sm e')" "next_time (e_sm e) \<le> next_time (e_sm e')"
    using e(3) advances_clock_ok advances_next_time by blast+
  moreover have "next_time (check_timeout ?sm) \<le> next_time (e_sm e')"
  proof (rule advances_next_time)
    show "clock_ok (check_timeout ?sm)" using e(3) by (simp add: advances_clock_ok [OF check_timeout_simps(5)])
    show "advances (check_timeout ?sm) (e_sm e')"
      by (simp add: e'2 advances_utcnow transition_looks)
  qed
  moreover have "valid_session (e_sm e')"
    using transition_valid [OF ok] \<open>live_session (snd ?tr) = t\<close> by (simp add: e'2 valid_session_def)
  ultimately show ?thesis
    using r move(2) T now transition_touches [OF ok] \<open>live_session (snd ?tr) = t\<close> e(2)
    by (simp add: e'2 serving_def)
qed

definition ready :: "string \<Rightarrow> sa \<Rightarrow> seconds \<Rightarrow> bool" where
  "ready lv s t \<longleftrightarrow> \<not> locked lv s t \<and> \<not> delayed lv (unlock lv s) t"

lemma ready_later: "ready lv s t \<Longrightarrow> t \<le> t' \<Longrightarrow> ready lv s t'"
  by (auto simp: ready_def locked_def delayed_def split: option.splits)

lemma serve_request_seed:
  assumes e: "serving c S T e" "e_mechanism e \<noteq> Some ''0x29''"
    and cfg: "map_of (sa_levels (e_sa e)) rs = Some (RequestSeedCfg S lv ss alg sec)"
    and ready: "ready lv (e_sa e) (next_time (e_sm e))"
    and e': "rpc_request_seed c rs e = (r, e')" "next_time (e_sm e') \<le> T"
  shows "\<exists>seed. r = Inr (positive [(''seed'', json_of_ints (list_of_bytes seed))]) \<and>
    serving c S T e' \<and> sa_levels (e_sa e') = sa_levels (e_sa e) \<and> sa_pending_seeds (e_sa e') rs = Some seed"
proof -
  let ?sm = "check_timeout (e_sm e)"
  have on: "advances ?sm (e_sm e')" using reads_on_request_seed [of e c rs] e'(1) by simp
  note live = serving_live [OF e(1) on e'(2)]
  have clk: "clock_ok (e_sm e)" using e(1) by (simp add: serving_def)
  let ?t = "next_time (check_timeout ?sm)"
  have t: "next_time (e_sm e) \<le> ?t" by (rule advances_next_time [OF clk]) simp
  then have nl: "\<not> locked lv (e_sa e) ?t" "\<not> delayed lv (unlock lv (e_sa e)) ?t"
    using ready_later [OF ready] by (simp_all add: ready_def)
  obtain seed sm1 where
    sm1: "os_urandom (sa_challenge_size (e_sa e)) (snd (monotonic (check_timeout ?sm))) = (seed, sm1)"
    by fastforce
  have rq: "request_seed rs (e_sa e) ?sm = ((True, Some seed, None),
      (unlock lv (e_sa e))\<lparr>sa_pending_seeds := (sa_pending_seeds (e_sa e))(rs \<mapsto> seed)\<rparr>, touch sm1)"
    using request_seed_gated [OF cfg, of ?sm] live(2) nl sm1 by simp
  have sm1': "sm1 = snd (os_urandom (sa_challenge_size (e_sa e)) (snd (monotonic (check_timeout ?sm))))"
    using sm1 by simp
  have le: "session_le (e_sm e) sm1" "sm_session sm1 = S"
    using live by (simp_all add: sm1' session_le_def advances_trans [OF _ os_urandom_simps(1)]
        advances_trans [OF _ monotonic_simps(2)])
  have e'eq: "e' = e\<lparr>e_sa := (unlock lv (e_sa e))\<lparr>sa_pending_seeds := (sa_pending_seeds (e_sa e))(rs \<mapsto> seed)\<rparr>,
        e_sm := touch sm1, e_mechanism := Some ''0x27''\<rparr>"
    and r: "r = Inr (positive [(''seed'', json_of_ints (list_of_bytes seed))])"
    using e'(1) e rq live by (auto simp: rpc_request_seed_def ecu_current_pair Let_def serving_def)
  moreover have "serving c S T e'"
    using e(1) by (intro serving_touch [OF e(1) le]) (simp_all add: e'eq serving_def)
  ultimately show ?thesis by simp
qed

lemma serve_send_key:
  assumes e: "serving c S T e"
    and cfg: "map_of (sa_levels (e_sa e)) ss = Some (SendKeyCfg S lv rs alg sec)"
      "sa_pending_seeds (e_sa e) rs = Some seed"
    and e': "rpc_send_key c ss (list_of_bytes (compute_key_hmac_sha256 seed sec)) e = (r, e')" "next_time (e_sm e') \<le> T"
  shows "r = Inr (positive [(''access_level'', JStr lv)]) \<and> serving c S T e' \<and> sa_granted (e_sa e') = Some lv"
proof -
  let ?sm = "check_timeout (e_sm e)"
  let ?key = "compute_key_hmac_sha256 seed sec"
  have on: "advances ?sm (e_sm e')" using reads_on_send_key [of e c ss "list_of_bytes ?key"] e'(1) by simp
  note live = serving_live [OF e on e'(2)]
  obtain sa' where sk: "send_key ss ?key (e_sa e) ?sm = (Inr (True, Some lv, None), sa', touch (check_timeout ?sm))"
    and granted: "sa_granted sa' = Some lv"
    using send_key_honest [OF cfg(1) live(2) cfg(2)] by blast
  have e'eq: "e' = emit_event (audit_event_of ''AUTH_SUCCESS'' 0x27 (Some lv) c ''success'' None)
        (e\<lparr>e_sa := sa', e_sm := touch (check_timeout ?sm)\<rparr>)"
    and r: "r = Inr (positive [(''access_level'', JStr lv)])"
    using e'(1) e sk live by (auto simp: rpc_send_key_def ecu_current_pair Let_def serving_def)
  have "serving c S T e'"
    using e live by (intro serving_touch [OF e, of "check_timeout ?sm"]) (simp_all add: e'eq serving_def session_le_def)
  with r granted show ?thesis by (simp add: e'eq)
qed

lemma serve_communicate:
  assumes e: "serving c S T e" "e_mechanism e \<noteq> Some ''0x27''"
    and cert: "load_pem_x509 P pem = Some cert" "au_cert_store (e_auth e) = Some cs"
      "cert_valid_at P cs cert (wall_clock (e_sm e) (wall_reads (e_sm e)))"
    and n: "n = rand_source (e_sm e) (rand_reads (e_sm e)) (au_nonce_size (e_auth e))"
    and e': "rpc_communicate_certificate P c pem e = (r, e')" "next_time (e_sm e') \<le> T"
  shows "r = Inr (positive [(''challenge'', json_of_ints (list_of_bytes n)),
        (''ecu_cert'', opt_json JStr (if S = PROGRAMMING then Some (ecu_cert_pem P cs) else None))]) \<and>
    serving c S T e' \<and>
    e_auth e' = (e_auth e)\<lparr>au_pending_tester_cert := Some cert, au_pending_challenge := Some n\<rparr>"
proof -
  let ?sm = "check_timeout (e_sm e)"
  let ?smn = "snd (os_urandom (au_nonce_size (e_auth e)) (snd (utcnow ?sm)))"
  have on: "advances ?sm (e_sm e')" using reads_on_communicate [of e P c pem] e'(1) by simp
  note live = serving_live [OF e(1) on e'(2)]
  have "fst (os_urandom (au_nonce_size (e_auth e)) (snd (utcnow ?sm))) = n"
    by (simp add: os_urandom_def utcnow_def n check_timeout_sources)
  then have cc: "communicate_certificate P pem S (e_auth e) ?sm =
      (Inr (True, Some \<lparr>cd_challenge = list_of_bytes n,
         cd_ecu_cert = (if S = PROGRAMMING then Some (ecu_cert_pem P cs) else None)\<rparr>, None),
       (e_auth e)\<lparr>au_pending_tester_cert := Some cert, au_pending_challenge := Some n\<rparr>, touch ?smn)"
    using communicate_certificate_valid [OF cert(1,2), of ?sm S] cert(3)
    by (simp add: check_timeout_sources case_prod_unfold Let_def)
  have e'eq: "e' = e\<lparr>e_auth := (e_auth e)\<lparr>au_pending_tester_cert := Some cert, au_pending_challenge := Some n\<rparr>,
        e_sm := touch ?smn, e_mechanism := Some ''0x29''\<rparr>"
    and r: "r = Inr (positive [(''challenge'', json_of_ints (list_of_bytes n)),
        (''ecu_cert'', opt_json JStr (if S = PROGRAMMING then Some (ecu_cert_pem P cs) else None))])"
    using e'(1) e cc live by (auto simp: rpc_communicate_certificate_def ecu_current_pair Let_def serving_def)
  have le: "session_le (e_sm e) ?smn" "sm_session ?smn = S"
    using live by (simp_all add: session_le_def advances_trans [OF _ os_urandom_simps(1)] advances_utcnow)
  have "serving c S T e'"
    using e(1) by (intro serving_touch [OF e(1) le]) (simp_all add: e'eq serving_def)
  with r show ?thesis by (simp add: e'eq)
qed

lemma serve_verify_proof:
  assumes e: "serving c S T e"
    and pending: "au_pending_challenge (e_auth e) = Some n" "au_pending_tester_cert (e_auth e) = Some cert"
      "n \<notin> au_used_nonces (e_auth e)" "ecdsa_verify P (cert_public_key cert) prf n = Verified"
    and lv: "lv = (if S = PROGRAMMING then ''FULL_ACCESS'' else ''ENGINEERING'')"
    and e': "rpc_verify_proof P c (list_of_bytes prf) e = (r, e')" "next_time (e_sm e') \<le> T"
  shows "r = Inr (positive [(''access_level'', JStr lv)]) \<and> serving c S T e' \<and> au_granted (e_auth e') = Some lv"
proof -
  let ?sm = "check_timeout (e_sm e)"
  have on: "advances ?sm (e_sm e')" using reads_on_verify_proof [of e P c "list_of_bytes prf"] e'(1) by simp
  note live = serving_live [OF e on e'(2)]
  obtain a' where vp: "verify_proof P prf S (e_auth e) ?sm = (Inr (True, Some lv, None), a', touch ?sm)"
    and granted: "au_granted a' = Some lv"
    using pending lv by (simp add: verify_proof_def verify_proof_signature_def Let_def)
  have e'eq: "e' = emit_event (audit_event_of ''AUTH_SUCCESS'' 0x29 (Some lv) c ''success'' None)
        (e\<lparr>e_auth := a', e_sm := touch ?sm\<rparr>)"
    and r: "r = Inr (positive [(''access_level'', JStr lv)])"
    using e'(1) e vp live by (auto simp: rpc_verify_proof_def ecu_current_pair Let_def serving_def)
  have "serving c S T e'"
    using e live by (intro serving_touch [OF e, of ?sm]) (simp_all add: e'eq serving_def session_le_def)
  with r granted show ?thesis by (simp add: e'eq)
qed

lemma serve_check_access:
  assumes "serving c S T e" "is_access_granted lv S e"
    and e': "rpc_check_access lv e = (r, e')" "next_time (e_sm e') \<le> T"
  shows "r = Inr [(''granted'', JBool True)]"
proof -
  have "live_session (e_sm e) = S"
    using serving_live(1) [OF assms(1) reads_on_check_access] e' by (metis snd_conv)
  with assms show ?thesis
    by (auto simp: rpc_check_access_def ecu_current_pair Let_def serving_def is_access_granted_def split: if_splits)
qed

section \<open>A whole exchange\<close>

text \<open>A run keeps the state reachable, and time does not go back in it.\<close>

lemma run_on:
  assumes "reachable P e \<and> clock_ok (e_sm e)" "run (ecu_step P) inps e = (outs, e')"
  shows "reachable P e' \<and> clock_ok (e_sm e')" "next_time (e_sm e) \<le> next_time (e_sm e')" "advances (e_sm e) (e_sm e')"
proof -
  have e': "e' = snd (run (ecu_step P) inps e)" using assms(2) by simp
  have "ecu_le e e'" unfolding e' using assms(1) by (intro ecu_machine.rel_run [OF reachable_inv]) simp
  then show "advances (e_sm e) (e_sm e')" by (simp add: ecu_le_def sa_le_def session_le_def)
  then show "reachable P e' \<and> clock_ok (e_sm e')" "next_time (e_sm e) \<le> next_time (e_sm e')"
    using assms(1) advances_clock_ok advances_next_time reachable_run e' by blast+
qed

lemma request_on:
  assumes "reachable P e \<and> clock_ok (e_sm e)" "handle P c req e = (r, e')"
  shows "reachable P e' \<and> clock_ok (e_sm e')" "next_time (e_sm e) \<le> next_time (e_sm e')"
  using run_on [OF assms(1), of "[Call c req]" "[r]" e'] assms(2) by (simp_all add: prod_eq_iff)

text \<open>The requests that open the session a level needs, from the Default session.\<close>

definition session_path :: "int \<Rightarrow> int list" where
  "session_path sess = (if sess = PROGRAMMING then [EXTENDED, PROGRAMMING] else [sess])"

definition open_session :: "int \<Rightarrow> int \<Rightarrow> ecu_input list" where
  "open_session c sess = map (\<lambda>s. Call c (DiagnosticSessionControl s)) (session_path sess)"

lemma serve_open_session:
  assumes e: "reachable P e" "clock_ok (e_sm e)" "live_session (e_sm e) = DEFAULT"
    and sess: "sess \<in> {EXTENDED, PROGRAMMING}"
    and e': "run (ecu_step P) (open_session c sess) e = (outs, e')" "next_time (e_sm e') \<le> T"
    and T: "T < next_time (e_sm e) + sm_timeout (e_sm e)"
  shows "serving c sess T e' \<and> e_sa e' = e_sa e \<and> e_auth e' = e_auth e \<and> e_mechanism e' = e_mechanism e \<and>
    next_time (e_sm e) \<le> next_time (e_sm e')"
proof -
  obtain r1 e1 where e1: "rpc_session_control c EXTENDED e = (r1, e1)" by fastforce
  note first = serve_session_control [of e DEFAULT c T EXTENDED r1 e1, OF _ reachable_session [OF e(1)] e(2) _ _ e1 _ T]
  have move: "session_move DEFAULT EXTENDED" "session_move EXTENDED PROGRAMMING"
    "EXTENDED \<noteq> DEFAULT" "PROGRAMMING \<noteq> DEFAULT" "EXTENDED \<noteq> PROGRAMMING"
    by (simp_all add: session_move_iff session_ids)
  show ?thesis
  proof (cases "sess = EXTENDED")
    case True
    then have "e' = e1" using e'(1) e1 move(5) by (simp add: open_session_def session_path_def prod_eq_iff)
    then show ?thesis using first True e e' move by (simp add: \<open>sess = EXTENDED\<close>)
  next
    case False
    then have sess: "sess = PROGRAMMING" using sess by simp
    obtain r2 where e2: "rpc_session_control c PROGRAMMING e1 = (r2, e')"
      using e'(1) e1 by (simp add: sess open_session_def session_path_def prod_eq_iff)
    have clk: "clock_ok (e_sm e1)"
      using advances_clock_ok [OF advances_trans [OF check_timeout_simps(5) reads_on_session_control [of e c EXTENDED]]]
        e(2) e1 by simp
    have "next_time (e_sm e1) \<le> next_time (e_sm e')"
      using advances_next_time [OF clk advances_trans [OF check_timeout_simps(5) reads_on_session_control [of e1 c PROGRAMMING]]]
        e2 by simp
    with first e(3) e'(2) move
    have 1: "serving c EXTENDED T e1 \<and> e_sa e1 = e_sa e \<and> e_auth e1 = e_auth e \<and> e_mechanism e1 = e_mechanism e \<and>
      valid_session (e_sm e1) \<and> sm_timeout (e_sm e1) = sm_timeout (e_sm e) \<and> next_time (e_sm e) \<le> next_time (e_sm e1)"
      by simp
    then show ?thesis
      using serve_session_control [of e1 EXTENDED c T PROGRAMMING r2 e', OF _ _ _ clk _ _ e2 e'(2)] move T
      by (auto simp: sess serving_def)
  qed
qed

lemma started_ready:
  "reachable P (started_ecu w)" "e_mechanism (started_ecu w) = None" "live_session (e_sm (started_ecu w)) = DEFAULT"
  "\<not> locked lv (e_sa (started_ecu w)) t" "\<not> delayed lv (unlock lv (e_sa (started_ecu w))) t"
  "sa_levels (e_sa (started_ecu w)) = ecu_levels" "clock_ok (e_sm (started_ecu w)) = clock_ok w"
  using reachable_started [of P "[]"]
  by (simp_all add: started_ecu_def live_session_def expired_def locked_def delayed_def unlock_def clock_ok_def
      world.defs session_sm.defs sample_sa_def)

text \<open>A world in which less than the timeout passes, and its wall clock stands within the certificates' days.\<close>

definition calm_world :: world where
  "calm_world = lab_world\<lparr>mono_clock := (\<lambda>n. min (of_nat n) 100), rand_source := (\<lambda>_ n. replicate n 0)\<rparr>"

lemma calm_world:
  assumes "advances (e_sm (started_ecu calm_world)) w"
  shows "next_time w \<le> 100" "wall_clock w k = sample_now" "rand_source w k n = replicate n 0"
  using assms by (simp_all add: calm_world_def started_ecu_def lab_world_def advances_def next_time_def
      world.defs session_sm.defs)

lemma calm_start:
  "clock_ok calm_world" "100 < next_time (e_sm (started_ecu calm_world)) + sm_timeout (e_sm (started_ecu calm_world))"
  "e_auth (started_ecu calm_world) = authentication_init ecu_policy (Some sample_store)"
  by (simp_all add: calm_world_def clock_ok_def mono_def started_ecu_def next_time_def lab_world_def sample_world_def
      world.defs session_sm.defs min_le_iff_disj)

lemma calm_tester:
  "sample_store = (generate_in_memory sample_provider [] sample_now ([1], [2], [3]) (11, 12, 13))\<lparr>cs_revoked := {}\<rparr>"
  "plus_micros sample_now (- micros_per_day) \<le> sample_now"
  "micros sample_now + micros_per_second \<le> micros (plus_micros sample_now (365 * micros_per_day))"
  "au_cert_store (e_auth (started_ecu calm_world)) = Some sample_store"
  "au_nonce_size (e_auth (started_ecu calm_world)) = 16" "au_used_nonces (e_auth (started_ecu calm_world)) = {}"
  "sample_pem = tester_cert_pem sample_provider sample_store"
  "3 # n = sign_ecdsa sample_provider (cs_tester_key sample_store) [] n"
proof -
  show "au_nonce_size (e_auth (started_ecu calm_world)) = 16"
    by (simp add: calm_start authentication_init_def) (simp add: ecu_policy_def)
  show "3 # n = sign_ecdsa sample_provider (cs_tester_key sample_store) [] n"
    by (simp add: sample_store_simps sign_ecdsa_def) (simp add: sample_provider_def)
qed (simp_all add: sample_store_def generate_in_memory_def Let_def date_simps sample_now_def calm_start
    authentication_init_def sample_pem_def)

lemma calm_run:
  assumes "run (ecu_step P) inps (started_ecu calm_world) = (outs, e)" "run (ecu_step P) inps' e = (outs', e')"
  shows "next_time (e_sm e') < next_time (e_sm (started_ecu calm_world)) + sm_timeout (e_sm (started_ecu calm_world))"
    and "wall_clock (e_sm e) k = sample_now" and "rand_source (e_sm e) k n = replicate n 0"
proof -
  have "reachable P (started_ecu calm_world) \<and> clock_ok (e_sm (started_ecu calm_world))" by (simp add: started_ready calm_start)
  note on = run_on [OF this assms(1)]
  show "next_time (e_sm e') < next_time (e_sm (started_ecu calm_world)) + sm_timeout (e_sm (started_ecu calm_world))"
    using calm_world(1) [OF advances_trans [OF on(3) run_on(3) [OF on(1) assms(2)]]] calm_start(2) by simp
  show "wall_clock (e_sm e) k = sample_now" "rand_source (e_sm e) k n = replicate n 0" using calm_world [OF on(3)] by simp_all
qed

section \<open>Properties\<close>

text \<open>C15: The ECU lets in whoever holds the secret. In a Default session, whatever happened before, a client opens the
  session of a level and asks for its seed, then sends the key of that seed: if the other mechanism does
  not hold the ECU, the level is neither locked nor delayed, nobody interferes and the whole exchange takes less
  than the inactivity timeout, then the ECU answers the first part with the seed, accepts the key,
  and says that the level is granted.\<close>

theorem honest_key_unlocks:
  assumes "reachable P e" and "clock_ok (e_sm e)" and "live_session (e_sm e) = DEFAULT"
    and "e_mechanism e \<noteq> Some ''0x29''"
    and "map_of (sa_levels (e_sa e)) rs = Some (RequestSeedCfg sess lv ss alg sec)"
    and "\<not> locked lv (e_sa e) (next_time (e_sm e))"
    and "\<not> delayed lv (unlock lv (e_sa e)) (next_time (e_sm e))"
    and "run (ecu_step P) (open_session c sess @ [Call c (SecurityAccessRequestSeed rs)]) e = (outs, e1)"
    and "seed = the (sa_pending_seeds (e_sa e1) rs)"
    and "run (ecu_step P) [Call c (SecurityAccessSendKey ss (list_of_bytes (compute_key_hmac_sha256 seed sec))),
        Call c (CheckAccess lv)] e1 = (outs', e2)"
    and "next_time (e_sm e2) < next_time (e_sm e) + sm_timeout (e_sm e)"
  shows "last outs = Inr (positive [(''seed'', json_of_ints (list_of_bytes seed))]) \<and>
    outs' = [Inr (positive [(''access_level'', JStr lv)]), Inr [(''granted'', JBool True)]]"
proof -
  let ?T = "next_time (e_sm e2)"
  let ?key = "SecurityAccessSendKey ss (list_of_bytes (compute_key_hmac_sha256 seed sec))"
  obtain outs0 e0 where e0: "run (ecu_step P) (open_session c sess) e = (outs0, e0)" by fastforce
  obtain r1 where e1: "handle P c (SecurityAccessRequestSeed rs) e0 = (r1, e1)" "last outs = r1"
    using assms(8) e0 by (auto simp: prod_eq_iff)
  obtain r2 e12 where e12: "handle P c ?key e1 = (r2, e12)" by fastforce
  obtain r3 where e2: "handle P c (CheckAccess lv) e12 = (r3, e2)" "outs' = [r2, r3]"
    using assms(10) e12 by (simp add: prod_eq_iff)
  have ok: "reachable P e \<and> clock_ok (e_sm e)" using assms(1,2) by simp
  note on0 = run_on [OF ok e0]
  note on1 = request_on [OF on0(1) e1(1)]
  note on2 = request_on [OF on1(1) e12]
  note on3 = request_on [OF on2(1) e2(1)]
  have cfg: "map_of ecu_levels rs = Some (RequestSeedCfg sess lv ss alg sec)"
    using reachable_levels [OF assms(1)] assms(5) by simp
  then have sess: "sess \<in> {EXTENDED, PROGRAMMING}" and key: "map_of ecu_levels ss = Some (SendKeyCfg sess lv rs alg sec)"
    and lv: "lv = (if sess = PROGRAMMING then ''ECU_PROGRAMMING'' else ''CALIBRATION'')"
    using wf_levels_request [OF wf_ecu_levels] by (auto simp: ecu_levels_def session_ids split: if_splits)
  have 0: "serving c sess ?T e0" "e_sa e0 = e_sa e" "e_mechanism e0 = e_mechanism e"
    using serve_open_session [OF assms(1-3) sess e0 _ assms(11)] on1(2) on2(2) on3(2) by simp_all
  have "ready lv (e_sa e0) (next_time (e_sm e0))"
    using assms(6,7) 0 on0(2) ready_later [of lv "e_sa e" "next_time (e_sm e)"] by (simp add: ready_def)
  then obtain seed' where 1: "r1 = Inr (positive [(''seed'', json_of_ints (list_of_bytes seed'))])"
      "serving c sess ?T e1" "sa_levels (e_sa e1) = sa_levels (e_sa e0)" "sa_pending_seeds (e_sa e1) rs = Some seed'"
    using serve_request_seed [OF 0(1), of rs lv ss alg sec r1 e1] e1(1) 0 assms(4,5) on2(2) on3(2) by auto
  have seed: "seed' = seed" using 1(4) assms(9) by simp
  have 2: "r2 = Inr (positive [(''access_level'', JStr lv)])" "serving c sess ?T e12" "sa_granted (e_sa e12) = Some lv"
    using serve_send_key [OF 1(2), of ss lv rs alg sec seed r2 e12] e12 1(4) key reachable_levels [OF conjunct1 [OF on1(1)]] seed on3(2)
    by simp_all
  have "r3 = Inr [(''granted'', JBool True)]"
    using serve_check_access [OF 2(2), of lv r3 e2] e2(1) 2(3) lv sess by (auto simp: is_access_granted_def)
  with e1(2) e2(2) 1(1) 2(1) seed show ?thesis by simp
qed

theorem honest_key_unlocks_witness:
  "let (outs, e1) = run (ecu_step sample_provider) (open_session 1 EXTENDED @ [Call 1 (SecurityAccessRequestSeed 1)])
         (started_ecu calm_world);
       (outs', e2) = run (ecu_step sample_provider)
         [Call 1 (SecurityAccessSendKey 2 calibration_key), Call 1 (CheckAccess ''CALIBRATION'')] e1
     in outs' = [Inr (positive [(''access_level'', JStr ''CALIBRATION'')]), Inr [(''granted'', JBool True)]]"
proof -
  let ?w = "started_ecu calm_world"
  let ?inps = "open_session 1 EXTENDED @ [Call 1 (SecurityAccessRequestSeed 1)]"
  let ?sent = "[Call 1 (SecurityAccessSendKey 2 calibration_key), Call 1 (CheckAccess ''CALIBRATION'')]"
  obtain outs e1 where e1: "run (ecu_step sample_provider) ?inps ?w = (outs, e1)" by fastforce
  obtain outs' e2 where e2: "run (ecu_step sample_provider) ?sent e1 = (outs', e2)" by fastforce
  have e1': "e1 = snd (run (ecu_step sample_provider) ?inps ?w)" using e1 by simp
  have seed: "replicate 32 0 = the (sa_pending_seeds (e_sa e1) 1)"
    by (simp add: e1' open_session_def session_path_def calm_world_def lab_world_def ecu_eval)
  show ?thesis
    using honest_key_unlocks [of sample_provider ?w 1 EXTENDED "''CALIBRATION''" 2 "''HMAC-SHA256''"
        "''sim-calibration-secret-dev-only''" 1 outs e1, OF _ _ _ _ _ _ _ e1 seed e2 [unfolded calibration_key_def] calm_run(1) [OF e1 e2]]
    by (simp add: started_ready calm_start e1 e2 ecu_levels_def)
qed

text \<open>C16: The ECU lets in the tester of the generated PKI. With a library that behaves as documented, from a Default
  session, whatever happened before: a client opens the Extended or the Programming session, presents the
  tester's certificate and signs the challenge with the tester's key. If the other mechanism does not hold the ECU,
  the certificate is in its days and not revoked, the random source gives a nonce that is new, nobody
  interferes and the exchange takes less than the inactivity timeout, the ECU answers with the nonce
  (and its own certificate in the Programming session), accepts the proof, and says that
  ENGINEERING or FULL_ACCESS is granted.\<close>

theorem honest_certificate_unlocks:
  assumes "reachable P e" and "clock_ok (e_sm e)" and "live_session (e_sm e) = DEFAULT"
    and "e_mechanism e \<noteq> Some ''0x27''" and "sess \<in> {EXTENDED, PROGRAMMING}"
    and "run (ecu_step P) (open_session c sess) e = (outs, e0)"
    and "x509_laws P" and "cs = (generate_in_memory P revoked now keys serials)\<lparr>cs_revoked := R\<rparr>"
    and "au_cert_store (e_auth e) = Some cs" and "cert_fingerprint_sha256 (cs_tester_cert cs) \<notin> R"
    and "t = wall_clock (e_sm e0) (wall_reads (e_sm e0))" and "plus_micros now (- micros_per_day) \<le> t"
    and "micros t + micros_per_second \<le> micros (plus_micros now (365 * micros_per_day))"
    and "n = rand_source (e_sm e0) (rand_reads (e_sm e0)) (au_nonce_size (e_auth e))" and "n \<notin> au_used_nonces (e_auth e)"
    and "lv = (if sess = PROGRAMMING then ''FULL_ACCESS'' else ''ENGINEERING'')"
    and "run (ecu_step P) [Call c (AuthenticateCommunicateCertificate (tester_cert_pem P cs)),
        Call c (AuthenticateVerifyProof (list_of_bytes (sign_ecdsa P (cs_tester_key cs) k n))),
        Call c (CheckAccess lv)] e0 = (outs', e3)"
    and "next_time (e_sm e3) < next_time (e_sm e) + sm_timeout (e_sm e)"
  shows "outs' =
    [Inr (positive [(''challenge'', json_of_ints (list_of_bytes n)),
       (''ecu_cert'', opt_json JStr (if sess = PROGRAMMING then Some (ecu_cert_pem P cs) else None))]),
     Inr (positive [(''access_level'', JStr lv)]), Inr [(''granted'', JBool True)]]"
proof -
  let ?T = "next_time (e_sm e3)"
  obtain r1 e1 where e1: "handle P c (AuthenticateCommunicateCertificate (tester_cert_pem P cs)) e0 = (r1, e1)" by fastforce
  obtain r2 e2 where e2: "handle P c (AuthenticateVerifyProof (list_of_bytes (sign_ecdsa P (cs_tester_key cs) k n))) e1 = (r2, e2)"
    by fastforce
  obtain r3 where e3: "handle P c (CheckAccess lv) e2 = (r3, e3)" "outs' = [r1, r2, r3]"
    using assms(17) e1 e2 by (simp add: prod_eq_iff)
  have ok: "reachable P e \<and> clock_ok (e_sm e)" using assms(1,2) by simp
  note on0 = run_on [OF ok assms(6)]
  note on1 = request_on [OF on0(1) e1]
  note on2 = request_on [OF on1(1) e2]
  note on3 = request_on [OF on2(1) e3(1)]
  note own = own_certificate [OF assms(7,8,12,13,10)]
  have 0: "serving c sess ?T e0" "e_auth e0 = e_auth e" "e_mechanism e0 = e_mechanism e"
    using serve_open_session [OF assms(1-3,5,6) _ assms(18)] on1(2) on2(2) on3(2) by simp_all
  have 1: "r1 = Inr (positive [(''challenge'', json_of_ints (list_of_bytes n)),
       (''ecu_cert'', opt_json JStr (if sess = PROGRAMMING then Some (ecu_cert_pem P cs) else None))])"
      "serving c sess ?T e1"
      "e_auth e1 = (e_auth e)\<lparr>au_pending_tester_cert := Some (cs_tester_cert cs), au_pending_challenge := Some n\<rparr>"
    using serve_communicate [OF 0(1) _ own(1) _ own(2) [unfolded assms(11)], of n r1 e1] e1 0 assms(4,9,14) on2(2) on3(2)
    by simp_all
  have 2: "r2 = Inr (positive [(''access_level'', JStr lv)])" "serving c sess ?T e2" "au_granted (e_auth e2) = Some lv"
    using serve_verify_proof [OF 1(2) _ _ _ own(3) [of k n] assms(16), of r2 e2] e2 1(3) assms(15) on3(2) by simp_all
  have "r3 = Inr [(''granted'', JBool True)]"
    using serve_check_access [OF 2(2), of lv r3 e3] e3(1) 2(3) assms(5,16) by (auto simp: is_access_granted_def)
  with e3(2) 1(1) 2(1) show ?thesis by simp
qed

theorem honest_certificate_unlocks_witness:
  "let e0 = snd (run (ecu_step sample_provider) (open_session 1 PROGRAMMING) (started_ecu calm_world)) in
    fst (run (ecu_step sample_provider) [Call 1 (AuthenticateCommunicateCertificate sample_pem),
        Call 1 (AuthenticateVerifyProof (list_of_bytes (3 # replicate 16 0))), Call 1 (CheckAccess ''FULL_ACCESS'')] e0) =
    [Inr (positive [(''challenge'', json_of_ints (list_of_bytes (replicate 16 0))),
       (''ecu_cert'', JStr (ecu_cert_pem sample_provider sample_store))]),
     Inr (positive [(''access_level'', JStr ''FULL_ACCESS'')]), Inr [(''granted'', JBool True)]]"
proof -
  let ?w = "started_ecu calm_world"
  let ?inps = "open_session 1 PROGRAMMING"
  let ?sent = "[Call 1 (AuthenticateCommunicateCertificate sample_pem),
    Call 1 (AuthenticateVerifyProof (list_of_bytes (3 # replicate 16 0))), Call 1 (CheckAccess ''FULL_ACCESS'')]"
  obtain outs e0 where e0: "run (ecu_step sample_provider) ?inps ?w = (outs, e0)" by fastforce
  obtain outs' e3 where e3: "run (ecu_step sample_provider) ?sent e0 = (outs', e3)" by fastforce
  note run = calm_run [OF e0 e3]
  have "outs' = [Inr (positive [(''challenge'', json_of_ints (list_of_bytes (replicate 16 0))),
        (''ecu_cert'', opt_json JStr (if PROGRAMMING = PROGRAMMING then Some (ecu_cert_pem sample_provider sample_store) else None))]),
      Inr (positive [(''access_level'', JStr ''FULL_ACCESS'')]), Inr [(''granted'', JBool True)]]"
    by (rule honest_certificate_unlocks [OF _ _ _ _ _ e0 x509_laws_sample calm_tester(1,4) _ _ calm_tester(2,3) _ _ _
          e3 [unfolded calm_tester(7,8)] run(1)])
      (simp_all add: started_ready calm_start(1) run(2,3) calm_tester(5,6))
  with e0 e3 show ?thesis by (simp add: prod_eq_iff)
qed

end
