(* ===== verification/ECU_Limits.thy ===== *)
theory ECU_Limits
  imports ECU_Liveness
begin

text \<open>
  What the access control of the ECU does not prevent, for every reachable state: a level that outlives its session and
  passes to the next owner, and FULL_ACCESS for a tester that has never seen the ECU's certificate.
\<close>

section \<open>Access after a timeout\<close>

text \<open>C38: A grant outlives its session when the session ends by the timeout and the next call is a session change. In
  every reachable state whose session has timed out, with a level still held that \<open>check_access\<close> would grant in the session
  \<open>sess\<close>: any other connection that requests this session next becomes its owner and is
  granted the level, without having sent a key or a certificate. The cleanup is made when a session is left by request, and by
  \<open>check_access\<close> and the tamper event, but not when \<open>session_control\<close> finds the session timed out.\<close>

theorem timed_out_grant_is_inherited:
  assumes "reachable P e" and "clock_ok (e_sm e)" and "expired (e_sm e)" and "e_owner e \<noteq> Some c"
    and "is_access_granted lv sess e" and "lv \<noteq> ''READ_ONLY''"
    and "run (ecu_step P) (open_session c sess @ [Call c (CheckAccess lv)]) e = (outs, e')"
    and "next_time (e_sm e') < next_time (e_sm e) + sm_timeout (e_sm e)"
  shows "last outs = Inr [(''granted'', JBool True)] \<and> e_owner e' = Some c \<and> sm_session (e_sm e') = sess"
proof -
  let ?T = "next_time (e_sm e')"
  obtain outs0 e0 where e0: "run (ecu_step P) (open_session c sess) e = (outs0, e0)" by fastforce
  obtain r where r: "handle P c (CheckAccess lv) e0 = (r, e')" "last outs = r"
    using assms(7) e0 by (auto simp: prod_eq_iff)
  have ok: "reachable P e \<and> clock_ok (e_sm e)" using assms(1,2) by simp
  note on0 = run_on [OF ok e0]
  have sess: "sess \<in> {EXTENDED, PROGRAMMING}" using assms(5,6) by (auto simp: is_access_granted_def split: if_splits)
  have live: "live_session (e_sm e) = DEFAULT" using assms(3) by (simp add: live_session_def)
  have 0: "serving c sess ?T e0" "e_sa e0 = e_sa e" "e_auth e0 = e_auth e"
    using serve_open_session [OF assms(1,2) live sess e0 _ assms(8)] request_on(2) [OF on0(1) r(1)] by simp_all
  have granted: "is_access_granted lv sess e0" using assms(5) 0(2,3) by (simp add: is_access_granted_def)
  have "r = Inr [(''granted'', JBool True)]" using serve_check_access [OF 0(1) granted] r(1) by simp
  moreover have "live_session (e_sm e0) = sess"
    using serving_live(1) [OF 0(1) reads_on_check_access [of e0 lv]] r(1) by simp
  then have "e' = e0\<lparr>e_sm := check_timeout (e_sm e0)\<rparr>" "sm_session (e_sm e') = sess"
    using r(1) sess by (auto simp: rpc_check_access_def ecu_current_pair Let_def session_ids)
  ultimately show ?thesis using r(2) 0(1) by (simp add: serving_def)
qed

lemma jump_clock_ok: "clock_ok (e_sm (started_ecu (jump_world k)))"
  by (auto simp: clock_ok_def mono_def started_ecu_def jump_world_def world.defs session_sm.defs)

theorem timed_out_grant_is_inherited_witness:
  "let e = snd (run (ecu_step sample_provider) calibration_run (started_ecu (jump_world 15)));
       (outs, e') = run (ecu_step sample_provider) (open_session 2 EXTENDED @ [Call 2 (CheckAccess ''CALIBRATION'')]) e
   in last outs = Inr [(''granted'', JBool True)] \<and> e_owner e' = Some 2"
proof -
  let ?w = "started_ecu (jump_world 15)"
  obtain outs0 e where e: "run (ecu_step sample_provider) calibration_run ?w = (outs0, e)" by fastforce
  let ?inps = "open_session 2 EXTENDED @ [Call 2 (CheckAccess ''CALIBRATION'')]"
  obtain outs e' where e': "run (ecu_step sample_provider) ?inps e = (outs, e')" by fastforce
  have ok: "reachable sample_provider e \<and> clock_ok (e_sm e)"
    by (rule run_on [OF _ e]) (rule conjI [OF started_ready(1) jump_clock_ok])
  have eq: "e = snd (run (ecu_step sample_provider) calibration_run ?w)" using e by simp
  have 1: "expired (e_sm e)" "e_owner e \<noteq> Some 2" "is_access_granted ''CALIBRATION'' EXTENDED e"
    "next_time (e_sm e) = 1015" "sm_timeout (e_sm e) = 300" "mono_reads (e_sm e) = 15"
    by (simp_all add: eq calibration_run_def calibration_key_def ecu_eval is_access_granted_def)
  have "e' = snd (run (ecu_step sample_provider) ?inps (snd (run (ecu_step sample_provider) calibration_run ?w)))"
    using e' eq by simp
  then have "next_time (e_sm e') < 1100"
    by (simp add: calibration_run_def calibration_key_def open_session_def session_path_def ecu_eval)
  with timed_out_grant_is_inherited [OF _ _ 1(1-3) _ e'] ok 1(4,5) have
    "last outs = Inr [(''granted'', JBool True)] \<and> e_owner e' = Some 2" by simp
  with e e' show ?thesis by simp
qed

section \<open>Authentication across two sessions\<close>

text \<open>C39: FULL_ACCESS without mutual authentication. From every reachable Default session, under the same conditions on
  certificate, nonce and time as in an honest exchange: a tester presents its certificate in the Extended session, so that the
  answer leaves out the ECU's certificate, changes to the Programming session and proves possession
  there. The ECU accepts and grants FULL_ACCESS, although no answer has carried its certificate. The level follows the
  session at the proof, the certificate the session at the challenge.\<close>

theorem full_access_without_ecu_certificate:
  assumes "reachable P e" and "clock_ok (e_sm e)" and "live_session (e_sm e) = DEFAULT"
    and "e_mechanism e \<noteq> Some ''0x27''" and "run (ecu_step P) (open_session c EXTENDED) e = (outs, e0)"
    and "x509_laws P" and "cs = (generate_in_memory P revoked now keys serials)\<lparr>cs_revoked := R\<rparr>"
    and "au_cert_store (e_auth e) = Some cs" and "cert_fingerprint_sha256 (cs_tester_cert cs) \<notin> R"
    and "t = wall_clock (e_sm e0) (wall_reads (e_sm e0))" and "plus_micros now (- micros_per_day) \<le> t"
    and "micros t + micros_per_second \<le> micros (plus_micros now (365 * micros_per_day))"
    and "n = rand_source (e_sm e0) (rand_reads (e_sm e0)) (au_nonce_size (e_auth e))" and "n \<notin> au_used_nonces (e_auth e)"
    and "run (ecu_step P) [Call c (AuthenticateCommunicateCertificate (tester_cert_pem P cs)),
        Call c (DiagnosticSessionControl PROGRAMMING),
        Call c (AuthenticateVerifyProof (list_of_bytes (sign_ecdsa P (cs_tester_key cs) k n))),
        Call c (CheckAccess ''FULL_ACCESS'')] e0 = (outs', e4)"
    and "next_time (e_sm e4) < next_time (e_sm e) + sm_timeout (e_sm e)"
  shows "outs' =
    [Inr (positive [(''challenge'', json_of_ints (list_of_bytes n)), (''ecu_cert'', JNull)]),
     Inr (positive [(''session_id'', JInt PROGRAMMING)]),
     Inr (positive [(''access_level'', JStr ''FULL_ACCESS'')]), Inr [(''granted'', JBool True)]]"
proof -
  let ?T = "next_time (e_sm e4)"
  obtain r1 e1 where e1: "handle P c (AuthenticateCommunicateCertificate (tester_cert_pem P cs)) e0 = (r1, e1)" by fastforce
  obtain r2 e2 where e2: "handle P c (DiagnosticSessionControl PROGRAMMING) e1 = (r2, e2)" by fastforce
  obtain r3 e3 where e3: "handle P c (AuthenticateVerifyProof (list_of_bytes (sign_ecdsa P (cs_tester_key cs) k n))) e2 = (r3, e3)"
    by fastforce
  obtain r4 where e4: "handle P c (CheckAccess ''FULL_ACCESS'') e3 = (r4, e4)" "outs' = [r1, r2, r3, r4]"
    using assms(15) e1 e2 e3 by (simp add: prod_eq_iff)
  have ok: "reachable P e \<and> clock_ok (e_sm e)" using assms(1,2) by simp
  note on0 = run_on [OF ok assms(5)]
  note on1 = request_on [OF on0(1) e1]
  note on2 = request_on [OF on1(1) e2]
  note on3 = request_on [OF on2(1) e3]
  note on4 = request_on [OF on3(1) e4(1)]
  note own = own_certificate [OF assms(6,7,11,12,9)]
  have 0: "serving c EXTENDED ?T e0" "e_auth e0 = e_auth e" "e_mechanism e0 = e_mechanism e"
    using serve_open_session [OF assms(1-3) _ assms(5) _ assms(16)] on1(2) on2(2) on3(2) on4(2) by simp_all
  have 1: "r1 = Inr (positive [(''challenge'', json_of_ints (list_of_bytes n)), (''ecu_cert'', JNull)])"
      "serving c EXTENDED ?T e1"
      "e_auth e1 = (e_auth e)\<lparr>au_pending_tester_cert := Some (cs_tester_cert cs), au_pending_challenge := Some n\<rparr>"
    using serve_communicate [OF 0(1) _ own(1) _ own(2) [unfolded assms(10)], of n r1 e1] e1 0 assms(4,8,13) on2(2) on3(2) on4(2)
    by (simp_all add: session_ids)
  have "session_move EXTENDED PROGRAMMING" "PROGRAMMING \<noteq> DEFAULT"
    by (simp_all add: session_move_iff session_ids)
  then have 2: "r2 = Inr (positive [(''session_id'', JInt PROGRAMMING)])" "serving c PROGRAMMING ?T e2" "e_auth e2 = e_auth e1"
    using serve_session_control [of e1 EXTENDED c ?T PROGRAMMING r2 e2] reachable_session [OF conjunct1 [OF on1(1)]] on1(1) 1(2) e2
      on3(2) on4(2) by (auto simp: serving_def)
  have 3: "r3 = Inr (positive [(''access_level'', JStr ''FULL_ACCESS'')])" "serving c PROGRAMMING ?T e3"
      "au_granted (e_auth e3) = Some ''FULL_ACCESS''"
    using serve_verify_proof [OF 2(2) _ _ _ own(3) [of k n], of "''FULL_ACCESS''" r3 e3] e3 1(3) 2(3) assms(14) on4(2) by simp_all
  have "r4 = Inr [(''granted'', JBool True)]"
    using serve_check_access [OF 3(2), of "''FULL_ACCESS''" r4 e4] e4(1) 3(3) by (simp add: is_access_granted_def)
  with e4(2) 1(1) 2(1) 3(1) show ?thesis by simp
qed

theorem full_access_without_ecu_certificate_witness:
  "let e0 = snd (run (ecu_step sample_provider) (open_session 1 EXTENDED) (started_ecu calm_world)) in
    fst (run (ecu_step sample_provider) [Call 1 (AuthenticateCommunicateCertificate sample_pem),
        Call 1 (DiagnosticSessionControl PROGRAMMING),
        Call 1 (AuthenticateVerifyProof (list_of_bytes (3 # replicate 16 0))), Call 1 (CheckAccess ''FULL_ACCESS'')] e0) =
    [Inr (positive [(''challenge'', json_of_ints (list_of_bytes (replicate 16 0))), (''ecu_cert'', JNull)]),
     Inr (positive [(''session_id'', JInt PROGRAMMING)]),
     Inr (positive [(''access_level'', JStr ''FULL_ACCESS'')]), Inr [(''granted'', JBool True)]]"
proof -
  let ?w = "started_ecu calm_world"
  let ?sent = "[Call 1 (AuthenticateCommunicateCertificate sample_pem), Call 1 (DiagnosticSessionControl PROGRAMMING),
    Call 1 (AuthenticateVerifyProof (list_of_bytes (3 # replicate 16 0))), Call 1 (CheckAccess ''FULL_ACCESS'')]"
  obtain outs e0 where e0: "run (ecu_step sample_provider) (open_session 1 EXTENDED) ?w = (outs, e0)" by fastforce
  obtain outs' e4 where e4: "run (ecu_step sample_provider) ?sent e0 = (outs', e4)" by fastforce
  note run = calm_run [OF e0 e4]
  have "outs' = [Inr (positive [(''challenge'', json_of_ints (list_of_bytes (replicate 16 0))), (''ecu_cert'', JNull)]),
     Inr (positive [(''session_id'', JInt PROGRAMMING)]),
     Inr (positive [(''access_level'', JStr ''FULL_ACCESS'')]), Inr [(''granted'', JBool True)]]"
    by (rule full_access_without_ecu_certificate [OF _ _ _ _ e0 x509_laws_sample calm_tester(1,4) _ _ calm_tester(2,3) _ _
          e4 [unfolded calm_tester(7,8)] run(1)])
      (simp_all add: started_ready calm_start(1) run(2,3) calm_tester(5,6))
  with e0 e4 show ?thesis by (simp add: prod_eq_iff)
qed

end
