(* ===== verification/ECU_Certificates.thy ===== *)
theory ECU_Certificates
  imports ECU_Liveness
begin

text \<open>
  What the ECU does with certificates: the answer to every certificate that is presented, with the order of the
  refusals, and that testers whose certificates have been revoked get nothing by 0x29.
\<close>

section \<open>The answer to a certificate\<close>

text \<open>
  The reasons to refuse a certificate with their codes, most important first: not the owner of an elevated session,
  the other service in use, malformed, out of its time, of another issuer, not signed by the root, revoked. Each
  condition stands for itself.
\<close>

definition certificate_refusals :: "provider \<Rightarrow> cert_store \<Rightarrow> int \<Rightarrow> string \<Rightarrow> ecu \<Rightarrow> (bool \<times> int) list" where
  "certificate_refusals P cs c pem e =
     (let cert = the (load_pem_x509 P pem); root = cs_root_ca_cert cs; t = wall_clock (e_sm e) (wall_reads (e_sm e)) in
      [(live_session (e_sm e) = DEFAULT \<or> e_owner e \<noteq> Some c, 0x22),
       (e_mechanism e = Some ''0x27'', 0x24),
       (load_pem_x509 P pem = None, 0x73),
       (t < cert_not_before cert \<or> cert_not_after cert < t, 0x75),
       (cert_issuer cert \<noteq> cert_subject root, 0x78),
       (ecdsa_verify P (cert_public_key root) (cert_signature cert) (cert_tbs cert) = InvalidSignature, 0x76),
       (cert_fingerprint_sha256 cert \<in> cs_revoked cs, 0x74)])"

lemma communicate_refused:
  assumes "fst (validate_cert P pem a sm) = Inr (False, nrc)"
  shows "\<exists>smv. communicate_certificate P pem sid a sm = (Inr (False, None, nrc), a, smv) \<and> (smv = sm \<or> smv = snd (utcnow sm))"
  using assms validate_cert_clock [of P pem a sm] by (auto simp: communicate_certificate_def split: prod.split)

lemma validate_cert_refusals:
  assumes "au_cert_store a = Some cs" "\<And>m c. load_pem_x509 P pem = Some c \<Longrightarrow>
      ecdsa_verify P (cert_public_key (cs_root_ca_cert cs)) (cert_signature c) (cert_tbs c) \<noteq> VerifyRaises m"
    and "e_sm e = sm"
  shows "fst (validate_cert P pem a (check_timeout sm)) = Inr
    (case find fst (drop 2 (certificate_refusals P cs c pem e)) of None \<Rightarrow> (True, None) | Some (_, nrc) \<Rightarrow> (False, Some nrc))"
  using assms by (cases "load_pem_x509 P pem")
    (auto simp: certificate_refusals_def validate_cert_order check_timeout_sources cert_fingerprint_sha256_def
      Let_def split: verify_outcome.splits)

text \<open>C23: the answer to a certificate. For every state of an ECU with a certificate store and every connection, if the check of the
  signature returns, the first reason that applies, in the order of \<open>certificate_refusals\<close>, is the code of the answer: so a connection that may not authenticate learns nothing about its
  certificate, and an expired certificate is reported as such whoever signed it. A refusal leaves everything
  but the clocks as it is, an outstanding challenge, the granted level and the log included, and does not prolong
  the session. If no reason applies, the answer is a fresh challenge, with the ECU's certificate exactly in the
  Programming session, the certificate is pending, 0x29 holds the ECU and the timer restarts.\<close>

theorem certificate_answer:
  assumes "au_cert_store (e_auth e) = Some cs"
    and "\<And>m cert. load_pem_x509 P pem = Some cert \<Longrightarrow>
      ecdsa_verify P (cert_public_key (cs_root_ca_cert cs)) (cert_signature cert) (cert_tbs cert) \<noteq> VerifyRaises m"
  shows "let (r, e') = rpc_communicate_certificate P c pem e;
      n = rand_source (e_sm e) (rand_reads (e_sm e)) (au_nonce_size (e_auth e)) in
    sm_session (e_sm e') = live_session (e_sm e) \<and>
    (case find fst (certificate_refusals P cs c pem e) of
       Some (_, nrc) \<Rightarrow> r = Inr (negative (Some nrc)) \<and> e' = e\<lparr>e_sm := e_sm e'\<rparr> \<and>
         sm_last_activity (e_sm e') = sm_last_activity (e_sm e)
     | None \<Rightarrow>
         r = Inr (positive [(''challenge'', json_of_ints (list_of_bytes n)),
           (''ecu_cert'', opt_json JStr (if live_session (e_sm e) = PROGRAMMING then Some (ecu_cert_pem P cs) else None))]) \<and>
         e' = e\<lparr>e_sm := e_sm e', e_mechanism := Some ''0x29'', e_auth := (e_auth e)
           \<lparr>au_pending_tester_cert := load_pem_x509 P pem, au_pending_challenge := Some n\<rparr>\<rparr> \<and>
         next_time (check_timeout (e_sm e)) = sm_last_activity (e_sm e'))"
proof -
  let ?sm = "check_timeout (e_sm e)"
  let ?first = "find fst (drop 2 (certificate_refusals P cs c pem e))"
  note valid = validate_cert_refusals [where c = c, OF assms refl]
  show ?thesis
  proof (cases "live_session (e_sm e) = DEFAULT \<or> e_owner e \<noteq> Some c \<or> e_mechanism e = Some ''0x27''")
    case True
    then show ?thesis
      by (auto simp: rpc_communicate_certificate_def ecu_current_pair Let_def certificate_refusals_def)
  next
    case guards: False
    then have first: "find fst (certificate_refusals P cs c pem e) = ?first"
      by (simp add: certificate_refusals_def Let_def)
    show ?thesis
    proof (cases ?first)
      case None
      with valid have "\<exists>nrc. fst (validate_cert P pem (e_auth e) ?sm) = Inr (True, nrc)" by simp
      then obtain cert where cert: "load_pem_x509 P pem = Some cert"
        "cert_valid_at P cs cert (wall_clock ?sm (wall_reads ?sm))"
        using assms(1) unfolding validate_cert_ok_iff by auto
      show ?thesis
        using guards None communicate_certificate_valid [OF cert(1) assms(1) cert(2), of "live_session (e_sm e)"]
        by (simp add: first rpc_communicate_certificate_def ecu_current_pair Let_def case_prod_unfold cert(1)
            os_urandom_def utcnow_def check_timeout_sources next_time_def)
    next
      case (Some x)
      with valid have "fst (validate_cert P pem (e_auth e) ?sm) = Inr (False, Some (snd x))" by (simp add: case_prod_unfold)
      from communicate_refused [OF this, of "live_session (e_sm e)"] guards Some show ?thesis
        by (auto simp: first rpc_communicate_certificate_def ecu_current_pair Let_def case_prod_unfold)
    qed
  qed
qed

section \<open>Revocation\<close>

definition barred :: "string set \<Rightarrow> ecu \<Rightarrow> bool" where
  "barred R e \<longleftrightarrow> (\<forall>cs. au_cert_store (e_auth e) = Some cs \<longrightarrow> R \<subseteq> cs_revoked cs) \<and>
     au_pending_tester_cert (e_auth e) = None \<and> au_granted (e_auth e) = None"

text \<open>The requests of 0x29 with their positive answers.\<close>

fun proves :: "ecu_input \<Rightarrow> bool" where
  "proves (Call _ (AuthenticateCommunicateCertificate _)) = True"
| "proves (Call _ (AuthenticateVerifyProof _)) = True"
| "proves _ = False"

definition presented :: "provider \<Rightarrow> ecu_input list \<Rightarrow> string set" where
  "presented P inps = {cert_fingerprint_sha256 cert | c pem cert.
     Call c (AuthenticateCommunicateCertificate pem) \<in> set inps \<and> load_pem_x509 P pem = Some cert}"

lemma barred_communicate:
  assumes "barred R e" "\<And>cert. load_pem_x509 P pem = Some cert \<Longrightarrow> cert_fingerprint_sha256 cert \<in> R"
  shows "barred R (snd (rpc_communicate_certificate P c pem e)) \<and> fst (rpc_communicate_certificate P c pem e) \<noteq> Inr (positive d)"
proof -
  obtain res a' sm' where eq: "communicate_certificate P pem (live_session (e_sm e)) (e_auth e) (check_timeout (e_sm e)) = (res, a', sm')"
    using prod_cases3 by blast
  then have "a' = e_auth e \<and> (\<forall>x. res \<noteq> Inr (True, x))"
  proof (cases rule: communicate_certificate_elim)
    case (challenged cert cs n smn)
    then show ?thesis using assms by (auto simp: barred_def cert_valid_at_def cert_fingerprint_sha256_def)
  qed auto
  with assms(1) eq show ?thesis
    by (auto simp: rpc_communicate_certificate_def ecu_current_pair Let_def barred_def negative_def positive_def
        split: sum.split prod.split)
qed

lemma barred_verify_proof:
  assumes "barred R e"
  shows "barred R (snd (rpc_verify_proof P c p e)) \<and> fst (rpc_verify_proof P c p e) \<noteq> Inr (positive d)"
proof -
  have "verify_proof P bs sid (e_auth e) sm = (Inr (False, None, Some 0x24), e_auth e, sm)" for bs sid sm
    using assms by (simp add: barred_def verify_proof_def split: option.split)
  then show ?thesis using assms
    by (auto simp: rpc_verify_proof_def ecu_current_pair Let_def barred_def negative_def positive_def split: sum.split)
qed

lemma barred_step:
  assumes "barred R e" "presented P [inp] \<subseteq> R"
  shows "barred R (snd (ecu_step P inp e)) \<and> (proves inp \<longrightarrow> fst (ecu_step P inp e) \<noteq> Inr (positive d))"
proof (cases inp)
  case (Call c req)
  show ?thesis
  proof (cases req)
    case (AuthenticateCommunicateCertificate pem)
    then show ?thesis using barred_communicate [OF assms(1), of P pem c d] assms(2) Call by (auto simp: presented_def)
  next
    case (AuthenticateVerifyProof p)
    then show ?thesis using barred_verify_proof [OF assms(1)] Call by simp
  qed (use assms(1) Call in \<open>auto simp: barred_def rpc_defs rpc_send_uds_pdu_def ecu_current_pair Let_def case_prod_unfold
      clear_access_levels_def auth_clear_access_def deauthenticate_def inject_pending_nonce_for_test_def split: sum.split prod.split\<close>)
next
  case (StoreRevoke t)
  with assms(1) show ?thesis
    by (auto simp: barred_def revoke_thumbprint_def add_revoked_thumbprint_def)
qed (use assms(1) in \<open>simp_all add: barred_def\<close>)

lemma barred_run:
  "barred R e \<Longrightarrow> presented P inps \<subseteq> R \<Longrightarrow> run (ecu_step P) inps e = (outs, e') \<Longrightarrow>
    barred R e' \<and> (\<forall>(inp, out) \<in> set (zip inps outs). proves inp \<longrightarrow> (\<forall>d. out \<noteq> Inr (positive d)))"
proof (induction inps arbitrary: e outs)
  case (Cons inp inps)
  let ?e1 = "snd (ecu_step P inp e)"
  have p: "presented P [inp] \<subseteq> R" "presented P inps \<subseteq> R" using Cons.prems(2) by (auto simp: presented_def)
  have step: "barred R ?e1" "\<And>d. proves inp \<Longrightarrow> fst (ecu_step P inp e) \<noteq> Inr (positive d)"
    using barred_step [OF Cons.prems(1) p(1)] by blast+
  obtain outs1 where rest: "run (ecu_step P) inps ?e1 = (outs1, e')" "outs = fst (ecu_step P inp e) # outs1"
    using Cons.prems(3) by (auto simp: prod_eq_iff)
  note IH = Cons.IH [OF step(1) p(2) rest(1)]
  have "proves inp \<longrightarrow> (\<forall>d. fst (ecu_step P inp e) \<noteq> Inr (positive d))" using step(2) by blast
  with IH show ?case by (simp only: rest(2) zip_Cons_Cons list.set ball_simps prod.case) simp
qed simp

lemma revoke_run:
  "au_pending_tester_cert (e_auth e) = None \<Longrightarrow> au_granted (e_auth e) = None \<Longrightarrow>
    barred (set ths) (snd (run (ecu_step P) (map StoreRevoke ths) e))"
proof (induction ths rule: rev_induct)
  case (snoc th ths)
  then show ?case by (auto simp: barred_def revoke_thumbprint_def add_revoked_thumbprint_def split: option.splits)
qed (simp add: barred_def)

text \<open>C37: revoked testers are locked out. Certificates are revoked, in any state in which 0x29 has no challenge outstanding and
  no level granted. In every run after that, whatever else any connections do, if each certificate that is presented has one of
  the revoked fingerprints, as whatever text, then no certificate and no proof is answered positively, and
  \<open>check_access\<close> grants neither ENGINEERING nor FULL_ACCESS. The condition on the state cannot be left out: the
  list is read when a certificate is presented, not when possession is proved.\<close>

theorem revoked_testers_locked_out:
  assumes "au_pending_tester_cert (e_auth e) = None" and "au_granted (e_auth e) = None"
    and "presented P inps \<subseteq> set ths" and "run (ecu_step P) (map StoreRevoke ths @ inps) e = (outs, e')"
    and "lv \<in> {''ENGINEERING'', ''FULL_ACCESS''}"
  shows "(\<forall>(inp, out) \<in> set (zip inps (drop (length ths) outs)). proves inp \<longrightarrow> (\<forall>d. out \<noteq> Inr (positive d))) \<and>
    fst (rpc_check_access lv e') = Inr [(''granted'', JBool False)]"
proof -
  let ?e = "snd (run (ecu_step P) (map StoreRevoke ths) e)"
  have rest: "run (ecu_step P) inps ?e = (drop (length ths) outs, e')" using assms(4) by (auto simp: prod_eq_iff)
  from barred_run [OF revoke_run [OF assms(1,2)] assms(3) rest]
  have "barred (set ths) e'" and 1: "\<forall>(inp, out) \<in> set (zip inps (drop (length ths) outs)). proves inp \<longrightarrow> (\<forall>d. out \<noteq> Inr (positive d))"
    by blast+
  then have "au_granted (e_auth e') = None" by (simp add: barred_def)
  with assms(5) 1 show ?thesis
    by (auto simp: rpc_check_access_def ecu_current_pair Let_def is_access_granted_def auth_clear_access_def)
qed

theorem revoked_testers_locked_out_witness:
  "let th = cert_fingerprint_sha256 (cs_tester_cert sample_store);
       e = snd (run (ecu_step sample_provider) [StoreRevoke th, Call 1 (DiagnosticSessionControl 3),
         Call 1 (AuthenticateCommunicateCertificate sample_pem), Call 1 (AuthenticateVerifyProof [3])] (started_ecu lab_world))
   in fst (rpc_check_access ''ENGINEERING'' e) = Inr [(''granted'', JBool False)]"
proof -
  let ?th = "cert_fingerprint_sha256 (cs_tester_cert sample_store)"
  let ?inps = "[Call 1 (DiagnosticSessionControl 3), Call 1 (AuthenticateCommunicateCertificate sample_pem),
    Call 1 (AuthenticateVerifyProof [3])]"
  have "e_auth (started_ecu lab_world) = authentication_init ecu_policy (Some sample_store)" by (simp add: started_ecu_def)
  then have "au_pending_tester_cert (e_auth (started_ecu lab_world)) = None" "au_granted (e_auth (started_ecu lab_world)) = None"
    by (simp_all add: authentication_init_def)
  moreover have "presented sample_provider ?inps \<subseteq> set [?th]" by (auto simp: presented_def)
  ultimately show ?thesis
    using revoked_testers_locked_out [of "started_ecu lab_world" sample_provider ?inps "[?th]" _ _ "''ENGINEERING''"]
    by (auto simp: Let_def prod_eq_iff)
qed

theorem certificate_answer_witness:
  "fst (rpc_communicate_certificate sample_provider 1 sample_pem elevated_ecu) = Inr (negative (Some 0x75)) \<and>
   fst (rpc_communicate_certificate sample_provider 2 sample_pem elevated_ecu) = Inr (negative (Some 0x22))"
proof -
  have store: "au_cert_store (e_auth elevated_ecu) = Some sample_store" by (simp add: authentication_init_def)
  have total: "ecdsa_verify sample_provider k s d \<noteq> VerifyRaises m" for k s d m by (simp add: sample_provider_def)
  have early: "wall_clock sample_session (wall_reads sample_session) < cert_not_before (cs_tester_cert sample_store)"
    by (simp add: sample_store_def generate_in_memory_def Let_def signed_leaf_def sample_provider_def whole_seconds_def
        date_simps sample_now_def less_datetime_def sample_session_def sample_world_def world.defs session_sm.defs)
  have def: "EXTENDED \<noteq> DEFAULT" by (simp add: session_ids)
  note ans = certificate_answer [where pem = sample_pem, OF store total]
  show ?thesis using ans [where c = 1] ans [where c = 2] early def
    by (simp add: certificate_refusals_def Let_def case_prod_unfold)
qed

end
