(* ===== verification/Spec2Isabelle.thy ===== *)
theory Spec2Isabelle
  imports Bridge_Schedule Bridge_Replay Access_Refinement Connection Policy_File ECU_Limits ECU_Certificates
begin

text \<open>
  SecureAccess is a simulation of the diagnostic access control of a car's control unit (UDS, ISO
  14229): a virtual ECU that grants access levels to diagnostic testers, and the tools around it. This
  development models the Python program under \<open>src/sim\<close> and proves what its access control promises.

  \<^bold>\<open>The program and its parts.\<close> A tester talks to the ECU through a client, over JSON-RPC on TCP. In the ECU
  process one thread per connection reads lines, dispatches each to a handler, and the handlers run
  one at a time under a lock. A handler checks who owns the diagnostic session and passes the request to one
  of three components that share the session machine: the session service 0x10, the seed-and-key service
  0x27 with its counters and lockouts, and the certificate-based service 0x29. Decisions are written to a hash-chained
  log. A dashboard drives the client through a WebSocket bridge.

  \<^bold>\<open>Theories and sources.\<close>
    \<^item> \<open>Prelude\<close>: values, exceptions (\<open>exn\<close>), the environment (\<open>world\<close>: successive readings of
      \<open>time.monotonic\<close>, \<open>datetime.now\<close> and \<open>os.urandom\<close>), text encodings, \<open>run\<close> for machines driven by inputs,
      and the locales \<open>invariant_machine\<close> and \<open>monotone_machine\<close> that every component interprets.
    \<^item> \<open>Json\<close>: \<open>json.dumps\<close>, with \<open>sort_keys\<close>, and \<open>json.loads\<close>. The parser inverts the printer
      (\<open>loads_dumps\<close>), and its fuel, one more than the length of the text, is never too small (\<open>loads_terminates\<close>).
    \<^item> \<open>Sha256\<close>: the hash function of \<open>hashlib\<close> on 32-bit words, its tables proved to be what the standard
      describes.
    \<^item> \<open>Policy\<close>: the keys of \<open>config/ecu_policy.json\<close> that the program reads. \<open>Policy_File\<close> holds the value of the whole
      file and \<open>_load_policy\<close>, and shows that an ECU started from the file runs this policy (\<open>policy_file_read\<close>).
    \<^item> \<open>Session\<close>: \<open>core/session.py\<close>. \<open>session_sm\<close> extends the world, so a clock reading advances the shared
      environment. \<open>transition_refines_table\<close> relates it to the table of allowed moves.
    \<^item> \<open>Crypto_Backend\<close>, \<open>Cert_Store\<close>: \<open>hal/crypto_backend.py\<close> and \<open>hal/cert_store_sim.py\<close>. X.509 and ECDSA belong to
      the package \<open>cryptography\<close> and are the parameter \<open>provider\<close>; \<open>x509_laws\<close> states what that package
      documents, and \<open>Sample_Provider\<close> is an instance that satisfies it.
    \<^item> \<open>Challenge_Response\<close>: the contract the two services share, a challenge that is issued, answered
      and used up, as a locale; interpreted on both.
    \<^item> \<open>Security_Access\<close>, \<open>Lockout\<close>: \<open>core/security_access.py\<close>. The operations with all branches, then the theorems about
      guessing: how many wrong keys are evaluated in a period, the delay between two, the lockout and its end.
    \<^item> \<open>Authentication\<close>: \<open>core/authentication.py\<close>. The order of the certificate checks, what a proof must
      satisfy, and that no nonce is accepted twice.
    \<^item> \<open>Audit_Logger\<close>: \<open>core/audit_logger.py\<close>. The locale \<open>hash_chain\<close> shows that the last digest commits to the
      whole chain, up to a collision that is exhibited.
    \<^item> \<open>ECU\<close>: the handlers \<open>_rpc_*\<close> of \<open>core/ecu.py\<close> (\<open>rpc_*\<close>), \<open>start\<close>, and the machine \<open>ecu_step\<close>: a request of a
      connection, a revocation, or clock readings elsewhere. \<open>ECU_Simulation\<close> projects runs of the ECU to
      runs of its components, \<open>ECU_Safety\<close> proves its invariant, \<open>ECU_Runs\<close> holds the reachable states
      and concrete runs. \<open>ECU_Liveness\<close> shows that it lets honest testers in, \<open>ECU_Certificates\<close>
      which answer each certificate gets and that revoked testers are locked out, \<open>ECU_Limits\<close> what the ECU does not prevent.
    \<^item> \<open>Rpc\<close>: \<open>protocol/rpc.py\<close>. Framing (\<open>serve_lines\<close>, \<open>handle_conn\<close>), dispatch, responses, the client's call.
      The locale \<open>rpc_connection\<close> lifts a relation that the methods respect to every line.
    \<^item> \<open>ECU_Server\<close>: the registered methods with arguments of any JSON type (\<open>wire_*\<close>), \<open>port\<close> and \<open>stop\<close>, and the
      server with its connections (\<open>server_step\<close>), whose threads take one line at a time in any order.
    \<^item> \<open>Client\<close>: \<open>protocol/client.py\<close> (\<open>cl_*\<close>), and the round trip client, wire, server, handler.
    \<^item> \<open>Connection\<close>: \<open>RpcClient\<close> as an object that is connected and disconnected, what that means for the ECU, and concurrent
      calls: each takes effect once, when its line is taken (\<open>call_takes_effect_once\<close>).
    \<^item> \<open>Access_Model\<close>, \<open>Access_Refinement\<close>: the abstract machine of what the ECU promises (owner, outstanding challenges,
      levels held, and the events that change them), and the simulation of every call by its events (\<open>ecu_refines_access\<close>).
    \<^item> \<open>Coroutine\<close>: \<open>async def\<close> as a tree of atomic steps and suspensions, with what its combinators preserve
      as the locale \<open>act_relation\<close>.
    \<^item> \<open>Bridge\<close>, \<open>Bridge_Safety\<close>: \<open>protocol/uds_server.py\<close>: boot, broadcasts, the commands (\<open>cmd_*\<close>) and the poll as coroutines
      that are suspended at every \<open>ws.send\<close>, and what they can do to the ECU. \<open>Bridge_Replay\<close> follows the replay
      demonstration to its end.
    \<^item> \<open>Bridge_Loop\<close>, \<open>Bridge_Schedule\<close>: the event loop: one handler per browser, the poll, \<open>_state.lock\<close> and its queue, in every
      interleaving at the suspensions (\<open>loop_step\<close>). Commands are executed in order, one at a time, none is
      starved, and a command is disturbed by nothing but queries of the session state.
    \<^item> This theory: the properties of the ECU as a whole.

  \<^bold>\<open>How the layers compose.\<close> A theorem about a component holds for the ECU because every run of the ECU is a run of
  the component (\<open>run_sa_path\<close>, \<open>run_auth_path\<close>). A theorem about sequences of requests holds for the server,
  because every interleaving of bytes on its connections is a sequence of requests
  (\<open>server_refines_ecu\<close>), for the client, because the wire is transparent (\<open>client_roundtrip\<close>), and for the dashboard
  (\<open>bridge_drives_reachable_ecu\<close>, \<open>commands_act_as_client\<close>).

  \<^bold>\<open>What the theorems show.\<close> Isolation of connections, exclusion of the two services, what
  \<open>check_access\<close> grants, that every grant has been earned, the bound on guesses over all connections, request
  sequences and times (\<open>ecu_guess_rate\<close>), the single use of nonces, the completeness of the log for decisions and its
  evidence of tampering; that the ECU refines the access machine, so that without a timeout a level is held by nobody but the
  connection that earned it (\<open>level_held_by_earner\<close>); that from every reachable Default session, however it came about, a tester with
  the secret or with the generated certificate gets its level, unless the other mechanism holds the ECU or the level is locked
  or delayed (\<open>honest_key_unlocks\<close>, \<open>honest_certificate_unlocks\<close>), and a tester with revoked certificates
  none (\<open>revoked_testers_locked_out\<close>); for the transport, that answers do not depend on how the stream is cut and that every line
  gets one answer. Some theorems show, for every state of the kind they describe, what the program does not prevent: a grant that survives the timeout of
  its session (\<open>timed_out_grant_is_inherited\<close>), FULL_ACCESS without the ECU's certificate
  (\<open>full_access_without_ecu_certificate\<close>), a session inherited through a reused connection id
  (\<open>reused_connection_id_inherits\<close>), a poll that keeps a session alive (\<open>polling_keeps_session_alive\<close>), and a demonstration
  that leaves its level granted (\<open>replay_demo_leaves_grant\<close>).

  \<^bold>\<open>Conventions.\<close> An operation returns its result, with \<open>Inl\<close> for an exception, and the state it leaves. Every
  call of a clock is one reading, so time may pass between any two. The calls that the bridge makes at its
  client are synchronous in the code and one step here; its coroutines give way only while a browser is
  sent a message. Theorems about time assume
  \<open>clock_ok\<close>, that the monotonic clock does not go back. Durations are rational numbers. The JSON parser is the only
  recursion with fuel.

  \<^bold>\<open>Not modelled.\<close> Strings have code points below 256, and JSON numbers are integers: texts outside this are
  rejected by the model's parser. \<open>true\<close> and \<open>false\<close> as arguments are passed on as 1 and 0. The rounding
  of float subtraction, the timing of \<open>compare_digest\<close>, memory limits, and the messages of interpreter exceptions
  (a parameter) are left out. Of the socket layer there are the bytes and the ends of connections, not the
  accept loop or timeouts. Of the bridge, log lines, the line of \<open>main\<close> about the dashboard file and the WebSocket library are left
  out, and the arrows, dashes and ellipses of its labels are written in ASCII, as are those in comments of the policy
  file. The dashboard's HTML, the tests and the launch scripts are no part of the Python program. Floats and
  wider code points are left out for good: the ECU and its client send neither, and the shortest decimal that \<open>json\<close>
  prints for a double is a theory of its own.
\<close>

section \<open>Properties\<close>

text \<open>C1: in every state the ECU reaches, whatever connections have called whatever handlers: the session is
  one of the three, the counters and lockouts of 0x27 are consistent, a pending tester certificate
  was issued by the root, an elevated session has an owner, 0x27 and 0x29 have not both
  granted a level, and the audit log verifies from the genesis hash.\<close>

theorem ecu_invariant:
  assumes "reachable P e"
  shows "sm_session (e_sm e) \<in> {DEFAULT, EXTENDED, PROGRAMMING} \<and> sa_inv (e_sa e) \<and>
    auth_inv P (e_auth e) \<and>
    (sm_session (e_sm e) \<noteq> DEFAULT \<longrightarrow> e_owner e \<noteq> None) \<and>
    (sa_granted (e_sa e) = None \<or> au_granted (e_auth e) = None) \<and>
    verify_chain (entries (e_audit e)) GENESIS_HASH"
  using reachable_inv [OF assms]
  by (auto simp: ecu_inv_def handler_inv_def valid_session_def VALID_def owner_inv_def mech_inv_def
      sa_busy_def auth_busy_def audit_inv_def entries_def)

theorem ecu_invariant_witness:
  "verify_chain (entries (e_audit (snd (run (ecu_step sample_provider)
     [Call 1 (DiagnosticSessionControl 3), Call 1 InjectTamper] (started_ecu sample_world))))) GENESIS_HASH"
  using ecu_invariant [OF reachable_started] by blast

definition guarded :: "request \<Rightarrow> bool" where
  "guarded req \<longleftrightarrow>
     (case req of
        DiagnosticSessionControl _ \<Rightarrow> True | SecurityAccessRequestSeed _ \<Rightarrow> True
      | SecurityAccessSendKey _ _ \<Rightarrow> True | AuthenticateCommunicateCertificate _ \<Rightarrow> True
      | AuthenticateVerifyProof _ \<Rightarrow> True | AuthenticateDeauthenticate \<Rightarrow> True
      | SendUdsPdu sid payload \<Rightarrow> sid = 0x10 \<and> length payload = 1 \<or> sid = 0x27 \<and> payload \<noteq> []
      | _ \<Rightarrow> False)"

text \<open>C2: a connection that does not own the elevated session can change nothing. Every request of
  it but the two simulation hooks leaves the whole state as it is, up to the reading of the
  clock, and a request for a session change, a seed, a key, a certificate, a proof or
  a deauthentication is answered with NRC 0x22.\<close>

theorem foreign_connection_isolated:
  assumes "live_session (e_sm e) \<noteq> DEFAULT" and "e_owner e \<noteq> Some c"
    and "req \<noteq> InjectTamper" and "\<And>n. req \<noteq> InjectReplayNonce n"
  shows "let (out, e') = handle P c req e in
    (e' = e \<or> e' = e\<lparr>e_sm := check_timeout (e_sm e)\<rparr>) \<and>
    (guarded req \<longrightarrow> out = Inr (negative (Some 0x22)))"
  using assms
  by (cases req) (auto simp: rpc_defs rpc_send_uds_pdu_def ecu_current_pair Let_def case_prod_unfold guarded_def
      Suc_le_eq)

theorem foreign_connection_isolated_witness:
  "fst (handle sample_provider 2 (SecurityAccessRequestSeed 1) elevated_ecu) = Inr (negative (Some 0x22))"
  using foreign_connection_isolated [of elevated_ecu 2 "SecurityAccessRequestSeed 1" sample_provider]
  by (simp add: guarded_def case_prod_unfold Let_def session_ids)

text \<open>C3: one mechanism per session. While 0x27 has granted a level or has a seed outstanding, a certificate
  is refused without looking at it; while 0x29 has granted a level or has a challenge
  outstanding, a seed is refused. The refusal is 0x22 without an elevated session of the caller and
  0x24 with one, and it changes nothing but the clock reading.\<close>

theorem mechanisms_exclude:
  assumes "reachable P e"
  shows "(sa_granted (e_sa e) \<noteq> None \<or> sa_pending_seeds (e_sa e) \<noteq> Map.empty \<longrightarrow>
      (\<exists>nrc \<in> {0x22, 0x24}. rpc_communicate_certificate P c pem e =
         (Inr (negative (Some nrc)), e\<lparr>e_sm := check_timeout (e_sm e)\<rparr>))) \<and>
    (au_granted (e_auth e) \<noteq> None \<or> au_pending_tester_cert (e_auth e) \<noteq> None \<longrightarrow>
      (\<exists>nrc \<in> {0x22, 0x24}. rpc_request_seed c sf e =
         (Inr (negative (Some nrc)), e\<lparr>e_sm := check_timeout (e_sm e)\<rparr>)))"
proof -
  have "mech_inv e" using reachable_inv [OF assms] by (simp add: ecu_inv_def)
  then show ?thesis
    by (auto simp: mech_inv_def sa_busy_def auth_busy_def rpc_communicate_certificate_def rpc_request_seed_def
        ecu_current_pair Let_def)
qed

theorem mechanisms_exclude_witness:
  "\<exists>nrc \<in> {0x22, 0x24}.
     fst (rpc_communicate_certificate sample_provider 1 sample_pem
       (snd (run (ecu_step sample_provider) (take 2 calibration_run) (started_ecu (jump_world 15)))))
     = Inr (negative (Some nrc))"
proof -
  let ?e = "snd (run (ecu_step sample_provider) (take 2 calibration_run) (started_ecu (jump_world 15)))"
  have "sa_pending_seeds (e_sa ?e) \<noteq> Map.empty" using seeded_ecu [of sample_provider] by auto
  with mechanisms_exclude [OF reachable_started, of sample_provider "take 2 calibration_run" "jump_world 15" 1 sample_pem 1]
  show ?thesis by auto
qed

definition level_rule :: "string \<rightharpoonup> int \<times> string" where
  "level_rule =
     [''CALIBRATION'' \<mapsto> (EXTENDED, ''0x27''), ''ECU_PROGRAMMING'' \<mapsto> (PROGRAMMING, ''0x27''),
      ''ENGINEERING'' \<mapsto> (EXTENDED, ''0x29''), ''FULL_ACCESS'' \<mapsto> (PROGRAMMING, ''0x29'')]"

text \<open>C4: what \<open>check_access\<close> grants. READ_ONLY always; CALIBRATION and ECU_PROGRAMMING only to a live
  Extended or Programming session in which 0x27 has granted that level; ENGINEERING and
  FULL_ACCESS only to a live Extended or Programming session in which 0x29 has granted that
  level; any other name never. In the Default session, also after a timeout, the question itself
  takes back every level, every pending challenge and the ownership.\<close>

theorem check_access_grants:
  "let (out, e') = rpc_check_access lv e in
    out = Inr [(''granted'', JBool (lv = ''READ_ONLY'' \<or>
      (case level_rule lv of
         None \<Rightarrow> False
       | Some (sess, mech) \<Rightarrow> live_session (e_sm e) = sess \<and>
           (if mech = ''0x27'' then sa_granted (e_sa e) else au_granted (e_auth e)) = Some lv)))] \<and>
    e' = (if live_session (e_sm e) = DEFAULT
          then clear_access_levels (e\<lparr>e_sm := check_timeout (e_sm e)\<rparr>)
          else e\<lparr>e_sm := check_timeout (e_sm e)\<rparr>)"
proof -
  have "is_access_granted lv s e2 \<longleftrightarrow> lv = ''READ_ONLY'' \<or>
      (case level_rule lv of
         None \<Rightarrow> False
       | Some (sess, mech) \<Rightarrow> s = sess \<and>
           (if mech = ''0x27'' then sa_granted (e_sa e2) else au_granted (e_auth e2)) = Some lv)" for s e2
    by (auto simp: is_access_granted_def level_rule_def Let_def)
  moreover have "live_session (e_sm e) = DEFAULT \<Longrightarrow>
      (case level_rule lv of None \<Rightarrow> False | Some (sess, mech) \<Rightarrow> live_session (e_sm e) = sess \<and> X sess mech) = False" for X
    by (auto simp: level_rule_def session_ids)
  ultimately show ?thesis
    by (auto simp: rpc_check_access_def ecu_current_pair Let_def split: option.splits)
qed

text \<open>at most one privileged level at a time. In a reachable state \<open>check_access\<close> does not
  grant two different levels beside READ_ONLY.\<close>

theorem one_level_at_a_time:
  assumes "reachable P e"
    and "fst (rpc_check_access lv e) = Inr [(''granted'', JBool True)]"
    and "fst (rpc_check_access lv' e) = Inr [(''granted'', JBool True)]"
    and "lv \<noteq> ''READ_ONLY''" and "lv' \<noteq> ''READ_ONLY''"
  shows "lv = lv'"
proof -
  have "sa_granted (e_sa e) = None \<or> au_granted (e_auth e) = None"
    using reachable_inv [OF assms(1)] by (auto simp: ecu_inv_def mech_inv_def sa_busy_def auth_busy_def)
  with assms(2-) show ?thesis
    by (auto simp: rpc_check_access_def ecu_current_pair Let_def is_access_granted_def session_ids
        split: if_splits)
qed

theorem one_level_at_a_time_witness:
  "fst (rpc_check_access ''ENGINEERING'' (snd (run (ecu_step sample_provider) calibration_run
     (started_ecu (jump_world 30))))) \<noteq> Inr [(''granted'', JBool True)]"
proof
  assume "fst (rpc_check_access ''ENGINEERING'' (snd (run (ecu_step sample_provider) calibration_run
     (started_ecu (jump_world 30))))) = Inr [(''granted'', JBool True)]"
  from one_level_at_a_time [OF reachable_started this calibrated_ecu] show False by simp
qed

text \<open>a tamper event takes back everything that was granted or begun, and nothing that protects: the
  session is Default with its timer restarted, no level is granted, no seed and no challenge is
  pending, there is no owner and no mechanism; the attempt counters, failure times and lockouts
  and the nonce history are as before, and one entry SESSION_TAMPER_RESET with the caller's
  connection is added to the log.\<close>

theorem tamper_resets:
  "let e' = snd (rpc_inject_tamper c e) in
    fst (current (e_sm e')) = DEFAULT \<and> sa_granted (e_sa e') = None \<and> sa_pending_seeds (e_sa e') = Map.empty \<and>
    au_granted (e_auth e') = None \<and> au_pending_challenge (e_auth e') = None \<and>
    au_pending_tester_cert (e_auth e') = None \<and> e_owner e' = None \<and> e_mechanism e' = None \<and>
    (\<forall>lv. level_state lv (e_sa e') = level_state lv (e_sa e)) \<and>
    au_used_nonces (e_auth e') = au_used_nonces (e_auth e) \<and>
    (\<exists>entry. entries (e_audit e') = entries (e_audit e) @ [entry] \<and>
       dict_get entry ''event_type'' = Some (JStr ''SESSION_TAMPER_RESET'') \<and>
       dict_get entry ''client_id'' = Some (JStr (str_int c)))"
  by (simp add: rpc_inject_tamper_def Let_def live_session_def expired_def clear_access_def
      auth_clear_access_def level_state_def emit_eq entries_def new_entry_get audit_event_of_def opt_json_def)

text \<open>leaving the elevated session by request does the same: if the owner's request for the Default
  session is answered positively, all levels and pending challenges are gone, the ownership and the
  mechanism are released, and the counters, lockouts and nonces stay.\<close>

theorem default_session_clears:
  assumes "rpc_session_control c DEFAULT e = (Inr r, e')" and "r \<noteq> negative (Some 0x22)"
  shows "sm_session (e_sm e') = DEFAULT \<and> \<not> sa_busy (e_sa e') \<and> \<not> auth_busy (e_auth e') \<and>
    e_owner e' = None \<and> e_mechanism e' = None \<and>
    (\<forall>lv. level_state lv (e_sa e') = level_state lv (e_sa e)) \<and>
    au_used_nonces (e_auth e') = au_used_nonces (e_auth e)"
proof -
  let ?tr = "transition DEFAULT (check_timeout (e_sm e))"
  have ok: "fst (fst ?tr)"
    using assms transition_result [of DEFAULT "check_timeout (e_sm e)"]
    by (auto simp: rpc_session_control_def ecu_current_pair Let_def case_prod_unfold split: if_splits)
  then have d: "sm_session (snd ?tr) = DEFAULT" by (simp add: transition_session)
  then have "live_session (snd ?tr) = DEFAULT" by (simp add: live_session_def)
  with d assms ok show ?thesis
    by (auto simp: rpc_session_control_def ecu_current_pair Let_def case_prod_unfold auth_clear_nonces
        split: if_splits)
qed

theorem default_session_clears_witness:
  "sm_session (e_sm (snd (rpc_session_control 1 DEFAULT elevated_ecu))) = DEFAULT"
proof -
  obtain r e' where eq: "rpc_session_control 1 DEFAULT elevated_ecu = (Inr r, e')"
    and r: "r \<noteq> negative (Some 0x22)"
    by (simp add: rpc_session_control_def ecu_current_pair Let_def case_prod_unfold transition_def
        VALID_def policy_allowed_def session_ids sample_session_def sample_world_def world.defs
        session_sm.defs live_session_def expired_def next_time_def check_timeout_def monotonic_def)
  from default_session_clears [OF eq r] eq show ?thesis by simp
qed

text \<open>Brute force within one lockout duration: over any sequence of calls by any connections whose clock readings
  lie within less than one lockout duration of the first, at most the policy's number of keys
  (3) is rejected for a level as long as none is accepted.\<close>

theorem ecu_guesses_bounded:
  assumes "reachable P e" and "clock_ok (e_sm e)"
    and "map_of (sa_levels (e_sa e)) ss = Some (SendKeyCfg sess lv rs alg sec)"
    and "run (ecu_step P) inps e = (outs, e')"
    and "next_time (e_sm e') < next_time (e_sm e) + sa_lockout_duration (e_sa e)"
    and "keys_accepted ss inps outs = 0"
  shows "int (keys_rejected ss inps outs) \<le> sa_max_attempts (e_sa e) -
    (if sa_lockout_until (e_sa e) lv = None then attempt_counter lv (e_sa e) else 0)"
proof -
  note run = rejected_within_budget [OF assms(1-4,6)]
  have "0 < sa_lockout_duration (e_sa e)" using run(1) assms(5) by simp
  moreover have "sa_inv (e_sa e)" using reachable_inv [OF assms(1)] by (simp add: ecu_inv_def handler_inv_def)
  ultimately show ?thesis using run(2) budget_bound_short [OF _ run(1) assms(5), of lv] by linarith
qed

definition wrong_key_run :: "ecu_input list" where
  "wrong_key_run =
     [Call 1 (DiagnosticSessionControl 3), Call 1 (SecurityAccessRequestSeed 1),
      Call 1 (SecurityAccessSendKey 2 [0]), Call 1 InjectTamper,
      Call 2 (DiagnosticSessionControl 3), Call 2 (SecurityAccessRequestSeed 1)]"

theorem ecu_guesses_bounded_witness:
  "keys_rejected 2 wrong_key_run (fst (run (ecu_step sample_provider) wrong_key_run (started_ecu sample_world))) \<le> 3"
proof -
  let ?e = "started_ecu sample_world"
  let ?r = "run (ecu_step sample_provider) wrong_key_run ?e"
  have py: "py_bytes [0] = Inr [0]" by (simp add: py_bytes_def)
  have t0: "next_time (e_sm ?e) = 6" "clock_ok (e_sm ?e)" "e_sa ?e = sample_sa"
    by (simp_all add: started_ecu_def next_time_def sample_world_def world.defs session_sm.defs clock_ok_def mono_def)
  have t1: "next_time (e_sm (snd ?r)) < 3000" and no: "keys_accepted 2 wrong_key_run (fst ?r) = 0"
    by (simp_all add: wrong_key_run_def ecu_eval py keys_accepted_def key_accepted_def reset_def)
  have "reachable sample_provider ?e" using reachable_started [of sample_provider "[]"] by simp
  from ecu_guesses_bounded [OF this t0(2), of 2 EXTENDED "''CALIBRATION''" 1 "''HMAC-SHA256''"
      "''sim-calibration-secret-dev-only''" wrong_key_run "fst ?r" "snd ?r"] t0 t1 no
  show ?thesis by (simp add: ecu_levels_def attempt_counter_def)
qed

text \<open>C5: The rate of guessing is bounded for ever. Over any sequence of calls by any connections, however long, with session
  changes, tamper events, deauthentications and both mechanisms mixed in: as long as no key of a level has been
  accepted, at most the policy's number of its keys (3) is rejected for every lockout duration (an hour) that
  has begun since the start, less the failures already counted. New connections and waiting for lockouts to end
  win nothing beyond that.\<close>

theorem ecu_guess_rate:
  assumes "reachable P e" and "clock_ok (e_sm e)" and "0 < sa_lockout_duration (e_sa e)"
    and "map_of (sa_levels (e_sa e)) ss = Some (SendKeyCfg sess lv rs alg sec)"
    and "run (ecu_step P) inps e = (outs, e')" and "keys_accepted ss inps outs = 0"
  shows "int (keys_rejected ss inps outs) \<le> sa_max_attempts (e_sa e) *
      (1 + \<lfloor>(next_time (e_sm e') - next_time (e_sm e)) / sa_lockout_duration (e_sa e)\<rfloor>) -
    (if sa_lockout_until (e_sa e) lv = None then attempt_counter lv (e_sa e) else 0)"
proof -
  note run = rejected_within_budget [OF assms(1,2,4-6)]
  have "sa_inv (e_sa e)" using reachable_inv [OF assms(1)] by (simp add: ecu_inv_def handler_inv_def)
  from run(2) [OF assms(3)] budget_bound [OF this assms(3) run(1), of lv] show ?thesis by simp
qed

theorem ecu_guess_rate_witness:
  "let (outs, e) = run (ecu_step sample_provider) wrong_key_run (started_ecu sample_world) in
    int (keys_rejected 2 wrong_key_run outs) \<le> 3 * (1 + \<lfloor>(next_time (e_sm e) - 6) / 3600\<rfloor>)"
proof -
  let ?e = "started_ecu sample_world"
  let ?r = "run (ecu_step sample_provider) wrong_key_run ?e"
  have t0: "next_time (e_sm ?e) = 6" "clock_ok (e_sm ?e)" "e_sa ?e = sample_sa"
    by (simp_all add: started_ecu_def next_time_def sample_world_def world.defs session_sm.defs clock_ok_def mono_def)
  have no: "keys_accepted 2 wrong_key_run (fst ?r) = 0"
    by (simp add: wrong_key_run_def ecu_eval py_bytes_def keys_accepted_def key_accepted_def reset_def)
  have "reachable sample_provider ?e" using reachable_started [of sample_provider "[]"] by simp
  from ecu_guess_rate [OF this t0(2), of 2 EXTENDED "''CALIBRATION''" 1 "''HMAC-SHA256''"
      "''sim-calibration-secret-dev-only''" wrong_key_run "fst ?r" "snd ?r"] t0 no
  show ?thesis by (simp add: ecu_levels_def case_prod_unfold attempt_counter_def)
qed

text \<open>C6: replay is excluded. The challenges for which the ECU has accepted a proof, in any sequence of
  calls by any connections from its start, are pairwise distinct, in spite of session changes,
  tamper events, and challenges overwritten by the simulation hook, and the nonce history is
  exactly their set.\<close>

theorem ecu_nonces_never_reused:
  assumes "ecu_start policy to cs rd ld w = Inr e0"
  shows "distinct (proof_nonces P inps e0) \<and>
    au_used_nonces (e_auth (snd (run (ecu_step P) inps e0))) = set (proof_nonces P inps e0)"
proof -
  obtain ops where ops: "snd (run (auth_step P) ops (e_auth e0, e_sm e0))
      = (e_auth (snd (run (ecu_step P) inps e0)), e_sm (snd (run (ecu_step P) inps e0)))"
    "accepted_nonces P ops (e_auth e0, e_sm e0) = proof_nonces P inps e0"
    using run_auth_path [of P inps e0] unfolding auth_path_def by blast
  have "au_used_nonces (e_auth e0) = {}"
    using assms by (auto simp: ecu_start_def authentication_init_def split: sum.splits)
  with accepted_nonces_fresh [of P ops "(e_auth e0, e_sm e0)"] ops show ?thesis by simp
qed

theorem ecu_nonces_never_reused_witness:
  "distinct (proof_nonces sample_provider
     [Call 1 (DiagnosticSessionControl 3), Call 1 (AuthenticateCommunicateCertificate sample_pem),
      Call 1 (AuthenticateVerifyProof [3]), Call 1 (InjectReplayNonce [7])] (started_ecu sample_world))"
  using ecu_nonces_never_reused [OF started_ecu] by blast

text \<open>every decision about access is in the log. An accepted key or proof adds exactly one entry
  AUTH_SUCCESS with the level granted and the connection that sent it, a key rejected
  as wrong exactly one entry AUTH_FAILURE of that connection, and these are the entries' positions: at
  the end, after everything logged before.\<close>

theorem access_decisions_logged:
  assumes "ecu_step P (Call c req) e = (Inr r, e')"
    and "req = SecurityAccessSendKey ss key \<or> req = AuthenticateVerifyProof p"
    and "r = positive [(''access_level'', opt_json JStr lv)] \<or> r = negative (Some 0x35)"
  shows "\<exists>entry. entries (e_audit e') = entries (e_audit e) @ [entry] \<and>
    dict_get entry ''client_id'' = Some (JStr (str_int c)) \<and>
    dict_get entry ''event_type'' = Some (JStr (if r = negative (Some 0x35) then ''AUTH_FAILURE'' else ''AUTH_SUCCESS'')) \<and>
    dict_get entry ''access_level'' = Some (if r = negative (Some 0x35) then JNull else opt_json JStr lv)"
  using assms
  by (auto simp: rpc_send_key_def rpc_verify_proof_def ecu_current_pair Let_def emit_eq entries_def new_entry_get
      audit_event_of_def split: if_splits sum.splits prod.splits)

theorem access_decisions_logged_witness:
  "\<exists>entry. entries (e_audit (snd (ecu_step sample_provider (Call 1 (SecurityAccessSendKey 2 calibration_key))
       (snd (run (ecu_step sample_provider) (take 2 calibration_run) (started_ecu (jump_world 30)))))))
     = entries (e_audit (snd (run (ecu_step sample_provider) (take 2 calibration_run) (started_ecu (jump_world 30)))))
       @ [entry] \<and> dict_get entry ''event_type'' = Some (JStr ''AUTH_SUCCESS'')"
proof -
  let ?e = "snd (run (ecu_step sample_provider) (take 2 calibration_run) (started_ecu (jump_world 30)))"
  obtain e' where "ecu_step sample_provider (Call 1 (SecurityAccessSendKey 2 calibration_key)) ?e
      = (Inr (positive [(''access_level'', opt_json JStr (Some ''CALIBRATION''))]), e')"
    by (simp add: calibration_run_def calibration_key_def ecu_eval)
  from access_decisions_logged [OF this, of 2 calibration_key "[]" "Some ''CALIBRATION''"] this
  show ?thesis by auto
qed

text \<open>C7: access is always earned. If the ECU holds a level of 0x27, then since its start it has
  accepted a key on the sendKey subfunction of that level; if it holds a level of 0x29, it has accepted a
  proof of possession.\<close>

theorem access_is_earned:
  assumes "ecu_start ecu_policy to cs rd ld w = Inr e0" and "run (ecu_step P) inps e0 = (outs, e)"
  shows "(sa_granted (e_sa e) = Some lv \<longrightarrow>
      (\<exists>ss sess rs alg sec. map_of ecu_levels ss = Some (SendKeyCfg sess lv rs alg sec) \<and>
         0 < keys_accepted ss inps outs)) \<and>
    (au_granted (e_auth e) \<noteq> None \<longrightarrow> proof_nonces P inps e0 \<noteq> [])"
proof -
  have inv: "handler_inv (e_sa e0, e_sm e0)" using ecu_start_inv [OF assms(1)] by (simp add: ecu_inv_def)
  have start: "sa_granted (e_sa e0) = None" "sa_levels (e_sa e0) = ecu_levels" "au_granted (e_auth e0) = None"
    using assms(1) security_access_init_simps
    by (auto simp: ecu_start_def authentication_init_def split: sum.splits)
  obtain ops where ops: "snd (run sa_step ops (e_sa e0, e_sm e0)) = (e_sa e, e_sm e)"
    "\<And>ss. successes ss ops (fst (run sa_step ops (e_sa e0, e_sm e0))) = keys_accepted ss inps outs"
    using run_sa_path [of inps P e0] assms(2) unfolding sa_path_def by auto
  obtain ops' where ops': "snd (run (auth_step P) ops' (e_auth e0, e_sm e0)) = (e_auth e, e_sm e)"
    "accepted_nonces P ops' (e_auth e0, e_sm e0) = proof_nonces P inps e0"
    using run_auth_path [of P inps e0] assms(2) unfolding auth_path_def by auto
  show ?thesis
    using sa_grant_origin [OF inv, of ops lv] auth_grant_origin [of P ops' "(e_auth e0, e_sm e0)"]
      ops ops' start by auto
qed

theorem access_is_earned_witness:
  "\<exists>ss. 0 < keys_accepted ss calibration_run
     (fst (run (ecu_step sample_provider) calibration_run (started_ecu (jump_world 30))))"
  using access_is_earned [OF started_ecu, of sample_provider calibration_run "jump_world 30" _ _ "''CALIBRATION''"]
    calibrated_grant [of sample_provider] by (metis prod.collapse)

text \<open>keep-alive. Only the owner's query restarts the inactivity timer: after \<open>get_session_state\<close> by another
  connection the time of the last activity is the same, after the owner's it is the new
  clock reading; the answer is the live session for everyone.\<close>

theorem session_query_keepalive:
  "let (out, e') = rpc_get_session_state c e in
    out = Inr [(''session_id'', JInt (live_session (e_sm e)))] \<and>
    sm_session (e_sm e') = live_session (e_sm e) \<and>
    sm_last_activity (e_sm e') =
      (if live_session (e_sm e) \<noteq> DEFAULT \<and> e_owner e = Some c then next_time (check_timeout (e_sm e))
       else sm_last_activity (e_sm e)) \<and>
    e_owner e' = (if live_session (e_sm e) = DEFAULT then None else e_owner e) \<and>
    e_sa e' = e_sa e \<and> e_auth e' = e_auth e"
  by (simp add: rpc_get_session_state_def ecu_current_pair Let_def)

text \<open>raw PDUs. A PDU for service 0x10 with exactly one byte and one for service 0x27 with at least
  one byte do what the typed handler does with the first byte; every other PDU is answered with
  NRC 0x13 and changes nothing.\<close>

theorem raw_pdu_dispatch:
  "handle P c (SendUdsPdu sid payload) e =
    (case (sid = 0x10, sid = 0x27, payload) of
       (True, _, [b]) \<Rightarrow> handle P c (DiagnosticSessionControl b) e
     | (False, True, b # _) \<Rightarrow> handle P c (SecurityAccessRequestSeed b) e
     | _ \<Rightarrow> (Inr (negative (Some 0x13)), e))"
  by (auto simp: rpc_send_uds_pdu_def split: list.split bool.split)

end
